(* ===== verification/Gua_Prelude.thy ===== *)
theory Gua_Prelude
  imports Main "HOL-Library.Word"
begin

text \<open>
  Shared vocabulary of the development: the machine types of the Go code, the result type
  of a fallible Go function (\<open>'e + 'a\<close>, \<open>Inl\<close> for the returned error), the collections
  of rules the component theories fill, and generic lemmas on lists, options and words.
\<close>

unbundle bit_operations_syntax

named_theorems gua_defs \<open>definitions of the model that component proofs unfold\<close>
named_theorems time_simps \<open>equations about instants, seconds and calendar fields\<close>
named_theorems db_simps \<open>how an operation changes each table of the store\<close>

section \<open>Machine types\<close>

text \<open>Go's \<open>uint\<close> and \<open>uint64\<close> on the 64-bit platforms the image is built for.\<close>

type_synonym u64 = "64 word"

text \<open>\<open>time.Second\<close> as a \<open>time.Duration\<close>, in nanoseconds.\<close>

definition nanos_per_sec :: int where
  "nanos_per_sec = 1000000000"

lemma nanos_per_sec_pos [simp]: "0 < nanos_per_sec"
  by (simp add: nanos_per_sec_def)

text \<open>
  Go's \<open>x << n\<close> on \<open>uint64\<close>: a shift by 64 or more gives 0, which is what
  \<^const>\<open>push_bit\<close> gives on a 64-bit word.
\<close>

definition shl64 :: "u64 \<Rightarrow> u64 \<Rightarrow> u64" where
  "shl64 x n = push_bit (unat n) x"

lemma bit_shl64 [simp]:
  "bit (shl64 x n) i \<longleftrightarrow> unat n \<le> i \<and> i < 64 \<and> bit x (i - unat n)"
  by (auto simp: shl64_def bit_push_bit_iff dest: bit_imp_le_length)

lemma bit_shl64_one:
  "bit (shl64 1 n) i \<longleftrightarrow> i = unat n \<and> i < 64"
  by (auto simp: bit_1_iff)

lemma and_shl64_one_eq_0:
  "shl64 1 n AND w = 0 \<longleftrightarrow> \<not> bit w (unat n)"
proof -
  have "shl64 1 n AND w = 0 \<longleftrightarrow> (\<forall>i. \<not> (bit (shl64 1 n) i \<and> bit w i))"
    by (auto simp: bit_eq_iff bit_and_iff)
  also have "\<dots> \<longleftrightarrow> \<not> bit w (unat n)"
    by (auto simp: bit_shl64_one simp del: bit_shl64 dest: bit_imp_le_length)
  finally show ?thesis .
qed

section \<open>Results of fallible functions\<close>

definition rbind :: "'e + 'a \<Rightarrow> ('a \<Rightarrow> 'e + 'b) \<Rightarrow> 'e + 'b" where
  "rbind m f = (case m of Inl e \<Rightarrow> Inl e | Inr x \<Rightarrow> f x)"

lemma rbind_simps [simp]:
  "rbind (Inl e) f = Inl e"
  "rbind (Inr x) f = f x"
  by (simp_all add: rbind_def)

lemma rbind_eq_Inr_iff:
  "rbind m f = Inr y \<longleftrightarrow> (\<exists>x. m = Inr x \<and> f x = Inr y)"
  by (cases m) auto

lemma rbind_eq_Inl_iff:
  "rbind m f = Inl e \<longleftrightarrow> m = Inl e \<or> (\<exists>x. m = Inr x \<and> f x = Inl e)"
  by (cases m) auto

lemma rbind_InrE [elim]:
  assumes "rbind m f = Inr y"
  obtains x where "m = Inr x" and "f x = Inr y"
  using assms by (auto simp: rbind_eq_Inr_iff)

section \<open>Lists\<close>

lemma takeWhile_dropWhile_prefix:
  "\<forall>x \<in> set xs. P x \<Longrightarrow> \<not> P y \<Longrightarrow>
     takeWhile P (xs @ y # ys) = xs \<and> dropWhile P (xs @ y # ys) = y # ys"
  by (induction xs) auto

lemma find_SomeD: "find P xs = Some x \<Longrightarrow> P x \<and> x \<in> set xs"
  by (induction xs) (auto split: if_splits)

lemma filter_partition_length:
  "length (filter P xs) + length (filter (\<lambda>x. \<not> P x) xs) = length xs"
  by (induction xs) auto

end
