(* ===== verification/Go_Strings.thy ===== *)
theory Go_Strings
  imports Gua_Prelude
begin

text \<open>
  The parts of Go's \<open>strings\<close> and \<open>strconv\<close> packages that gua uses. A Go string is a
  sequence of bytes, so it is a \<^typ>\<open>string\<close> here (one \<^typ>\<open>char\<close> per byte, UTF-8
  where the text is not ASCII), and \<^const>\<open>length\<close> is Go's \<open>len\<close>.
\<close>

section \<open>White space\<close>

text \<open>
  The UTF-8 encodings of the runes of \<open>unicode.IsSpace\<close>. No lead byte of an encoding is a
  continuation byte of another rune, so looking for an encoding byte by byte finds exactly
  the runes that Go's decoder finds.
\<close>

definition space_encs :: "string list" where
  "space_encs =
     [[CHR 0x09], [CHR 0x0A], [CHR 0x0B], [CHR 0x0C], [CHR 0x0D], [CHR 0x20],
      [CHR 0xC2, CHR 0x85], [CHR 0xC2, CHR 0xA0],
      [CHR 0xE1, CHR 0x9A, CHR 0x80],
      [CHR 0xE2, CHR 0x80, CHR 0x80], [CHR 0xE2, CHR 0x80, CHR 0x81],
      [CHR 0xE2, CHR 0x80, CHR 0x82], [CHR 0xE2, CHR 0x80, CHR 0x83],
      [CHR 0xE2, CHR 0x80, CHR 0x84], [CHR 0xE2, CHR 0x80, CHR 0x85],
      [CHR 0xE2, CHR 0x80, CHR 0x86], [CHR 0xE2, CHR 0x80, CHR 0x87],
      [CHR 0xE2, CHR 0x80, CHR 0x88], [CHR 0xE2, CHR 0x80, CHR 0x89],
      [CHR 0xE2, CHR 0x80, CHR 0x8A], [CHR 0xE2, CHR 0x80, CHR 0xA8],
      [CHR 0xE2, CHR 0x80, CHR 0xA9], [CHR 0xE2, CHR 0x80, CHR 0xAF],
      [CHR 0xE2, CHR 0x81, CHR 0x9F], [CHR 0xE3, CHR 0x80, CHR 0x80]]"

definition has_prefix :: "string \<Rightarrow> string \<Rightarrow> bool" where
  "has_prefix p s \<longleftrightarrow> take (length p) s = p"

definition has_suffix :: "string \<Rightarrow> string \<Rightarrow> bool" where
  "has_suffix p s \<longleftrightarrow> has_prefix (rev p) (rev s)"

text \<open>The number of bytes of the space at the head (at the end) of a string, 0 if none.\<close>

definition lead_space :: "string \<Rightarrow> nat" where
  "lead_space s = (case find (\<lambda>e. has_prefix e s) space_encs of None \<Rightarrow> 0 | Some e \<Rightarrow> length e)"

definition trail_space :: "string \<Rightarrow> nat" where
  "trail_space s = (case find (\<lambda>e. has_suffix e s) space_encs of None \<Rightarrow> 0 | Some e \<Rightarrow> length e)"

text \<open>\<open>strings.Fields\<close>; \<open>cur\<close> is the field read so far, reversed.\<close>

function fields_from :: "string \<Rightarrow> string \<Rightarrow> string list" where
  "fields_from cur [] = (if cur = [] then [] else [rev cur])"
| "fields_from cur (c # s) =
     (let k = lead_space (c # s) in
      if k = 0 then fields_from (c # cur) s
      else (if cur = [] then [] else [rev cur]) @ fields_from [] (drop (k - 1) s))"
  by pat_completeness auto
termination
  by (relation "measure (\<lambda>(cur, s). length s)") auto

definition go_fields :: "string \<Rightarrow> string list" where
  "go_fields s = fields_from [] s"

text \<open>\<open>strings.TrimSpace\<close>.\<close>

function trim_left :: "string \<Rightarrow> string" where
  "trim_left s = (let k = lead_space s in if k = 0 \<or> s = [] then s else trim_left (drop k s))"
  by pat_completeness auto
termination
  by (relation "measure length") auto

function trim_right :: "string \<Rightarrow> string" where
  "trim_right s =
     (let k = trail_space s in
      if k = 0 \<or> s = [] then s else trim_right (take (length s - k) s))"
  by pat_completeness auto
termination
  by (relation "measure length") auto

declare trim_left.simps [simp del] trim_right.simps [simp del]

definition trim_space :: "string \<Rightarrow> string" where
  "trim_space s = trim_right (trim_left s)"

section \<open>Splitting\<close>

text \<open>\<open>strings.Split(s, sep)\<close> for a one-byte separator: always at least one piece.\<close>

fun go_split :: "char \<Rightarrow> string \<Rightarrow> string list" where
  "go_split sep [] = [[]]"
| "go_split sep (c # s) =
     (if c = sep then [] # go_split sep s
      else (case go_split sep s of [] \<Rightarrow> [[c]] | p # ps \<Rightarrow> (c # p) # ps))"

text \<open>\<open>strings.FieldsFunc(s, func(r) { return r == sep })\<close>: the non-empty pieces.\<close>

definition fields_func :: "char \<Rightarrow> string \<Rightarrow> string list" where
  "fields_func sep s = filter (\<lambda>p. p \<noteq> []) (go_split sep s)"

lemma go_split_not_Nil [simp]: "go_split sep s \<noteq> []"
  by (cases s) (auto split: list.splits)

lemma go_split_no_sep: "sep \<notin> set s \<Longrightarrow> go_split sep s = [s]"
  by (induction s) auto

lemma go_split_append:
  "sep \<notin> set p \<Longrightarrow> go_split sep (p @ sep # s) = p # go_split sep s"
  by (induction p) auto

lemma go_split_pieces: "p \<in> set (go_split sep s) \<Longrightarrow> sep \<notin> set p"
  by (induction s arbitrary: p) (auto split: if_splits list.splits)

section \<open>Lower case\<close>

text \<open>
  \<open>strings.ToLower\<close> as a lookup in a table with ASCII keys sees it. ASCII letters are
  lowered; two runes outside ASCII lower into ASCII, the dotted capital I (U+0130, to
  \<open>i\<close>) and the Kelvin sign (U+212A, to \<open>k\<close>). Every other rune stays outside ASCII
  under \<open>ToLower\<close>, so it is left as it is: no key of the table can match either way.
\<close>

definition lower_char :: "char \<Rightarrow> char" where
  "lower_char c = (let n = of_char c :: nat in
     if 65 \<le> n \<and> n \<le> 90 then char_of (n + 32) else c)"

fun to_lower :: "string \<Rightarrow> string" where
  "to_lower [] = []"
| "to_lower (c # s) =
     (if has_prefix [CHR 0xC4, CHR 0xB0] (c # s) then CHR ''i'' # to_lower (drop 1 s)
      else if has_prefix [CHR 0xE2, CHR 0x84, CHR 0xAA] (c # s) then CHR ''k'' # to_lower (drop 2 s)
      else lower_char c # to_lower s)"

section \<open>Decimal integers\<close>

definition is_digit :: "char \<Rightarrow> bool" where
  "is_digit c \<longleftrightarrow> 48 \<le> (of_char c :: int) \<and> (of_char c :: int) \<le> 57"

definition digit_val :: "char \<Rightarrow> int" where
  "digit_val c = of_char c - 48"

definition digits_val :: "string \<Rightarrow> int" where
  "digits_val s = foldl (\<lambda>n c. 10 * n + digit_val c) 0 s"

text \<open>
  \<open>strconv.Atoi\<close> with a 64-bit \<open>int\<close>: an optional sign, then at least one digit and
  nothing else; \<open>None\<close> is \<open>ErrSyntax\<close> or \<open>ErrRange\<close>.
\<close>

definition atoi :: "string \<Rightarrow> int option" where
  "atoi s =
     (let neg = (s \<noteq> [] \<and> hd s = CHR ''-'');
          ds = (if s \<noteq> [] \<and> (hd s = CHR ''-'' \<or> hd s = CHR ''+'') then tl s else s) in
      if ds = [] \<or> \<not> list_all is_digit ds then None
      else let n = (if neg then - digits_val ds else digits_val ds) in
        if - (2 ^ 63) \<le> n \<and> n < 2 ^ 63 then Some n else None)"

lemma atoi_range: "atoi s = Some n \<Longrightarrow> - (2 ^ 63) \<le> n \<and> n < 2 ^ 63"
  by (auto simp: atoi_def Let_def split: if_splits)

text \<open>The decimal numeral of a number, as \<open>strconv.FormatInt\<close> with base 10 writes it.\<close>

function show_digits :: "int \<Rightarrow> string" where
  "show_digits n =
     (if n < 10 then [char_of (48 + n)] else show_digits (n div 10) @ [char_of (48 + n mod 10)])"
  by pat_completeness auto
termination
  by (relation "measure nat") auto

declare show_digits.simps [simp del]

definition show_int :: "int \<Rightarrow> string" where
  "show_int i = (if i < 0 then CHR ''-'' # show_digits (- i) else show_digits i)"

lemma of_char_digit:
  "0 \<le> k \<Longrightarrow> k < 10 \<Longrightarrow> (of_char (char_of (48 + k) :: char) :: int) = 48 + k"
  by (simp add: of_char_of)

lemma digits_val_snoc: "digits_val (s @ [c]) = 10 * digits_val s + digit_val c"
  by (simp add: digits_val_def)

lemma show_digits_correct:
  "0 \<le> n \<Longrightarrow> list_all is_digit (show_digits n) \<and> show_digits n \<noteq> [] \<and>
     digits_val (show_digits n) = n"
proof (induction n rule: show_digits.induct)
  case (1 n)
  show ?case
  proof (cases "n < 10")
    case True
    with "1.prems" show ?thesis
      by (simp add: show_digits.simps [of n] is_digit_def digits_val_def digit_val_def
          of_char_digit del: of_char_of)
  next
    case False
    have "0 \<le> n mod 10" and "n mod 10 < 10" by simp_all
    with False "1.IH" show ?thesis
      by (simp add: show_digits.simps [of n] is_digit_def digits_val_snoc digit_val_def
          of_char_digit del: of_char_of)
  qed
qed

lemma show_digits_inj: "0 \<le> m \<Longrightarrow> 0 \<le> n \<Longrightarrow> show_digits m = show_digits n \<Longrightarrow> m = n"
  by (metis show_digits_correct)

lemma hd_show_digits: "0 \<le> n \<Longrightarrow> is_digit (hd (show_digits n))"
  using show_digits_correct [of n] by (cases "show_digits n") auto

text \<open>Formatting an \<open>int64\<close> and reading it back gives the number.\<close>

lemma atoi_show_int:
  assumes "- (2 ^ 63) \<le> i" and "i < 2 ^ 63"
  shows "atoi (show_int i) = Some i"
proof -
  have sign: "hd (show_digits m) \<noteq> CHR ''-'' \<and> hd (show_digits m) \<noteq> CHR ''+''" if "0 \<le> m" for m
    using hd_show_digits [OF that] by (auto simp: is_digit_def)
  show ?thesis
    using assms show_digits_correct [of "- i"] show_digits_correct [of i] sign [of i]
    by (auto simp: atoi_def show_int_def Let_def)
qed

section \<open>Lemmas on fields\<close>

lemma has_prefix_length: "has_prefix p s \<Longrightarrow> length p \<le> length s"
  unfolding has_prefix_def by (metis length_take min.cobounded1)

lemma lead_space_le: "lead_space s \<le> length s"
  unfolding lead_space_def
  by (auto split: option.split dest!: find_SomeD intro: has_prefix_length)

lemma space_encs_nonempty: "e \<in> set space_encs \<Longrightarrow> e \<noteq> []"
  by (auto simp: space_encs_def)

lemma fields_from_nonempty: "f \<in> set (fields_from cur s) \<Longrightarrow> f \<noteq> []"
  by (induction cur s rule: fields_from.induct) (auto simp: Let_def split: if_splits)

lemma go_fields_nonempty: "f \<in> set (go_fields s) \<Longrightarrow> f \<noteq> []"
  by (simp add: go_fields_def fields_from_nonempty)

lemma lead_space_blank [simp]: "lead_space (CHR '' '' # s) = 1"
  by (simp add: lead_space_def space_encs_def has_prefix_def)

text \<open>A byte in the range of printable ASCII starts no space.\<close>

definition graphic :: "char \<Rightarrow> bool" where
  "graphic c \<longleftrightarrow> 0x21 \<le> (of_char c :: nat) \<and> (of_char c :: nat) < 0x80"

lemma space_encs_heads: "list_all (\<lambda>e. e \<noteq> [] \<and> \<not> graphic (hd e)) space_encs"
  by (simp add: space_encs_def graphic_def)

lemma lead_space_graphic:
  assumes "graphic c"
  shows "lead_space (c # s) = 0"
proof -
  have "\<not> has_prefix e (c # s)" if "e \<in> set space_encs" for e
  proof
    assume "has_prefix e (c # s)"
    moreover from that have e: "e \<noteq> []" "\<not> graphic (hd e)"
      using space_encs_heads by (auto simp: list_all_iff)
    ultimately have "hd e = c" by (cases e) (auto simp: has_prefix_def)
    with e assms show False by simp
  qed
  then show ?thesis by (auto simp: lead_space_def dest: find_SomeD split: option.splits)
qed

lemma fields_from_word:
  "list_all graphic w \<Longrightarrow> fields_from cur (w @ s) = fields_from (rev w @ cur) s"
  by (induction w arbitrary: cur) (auto simp: lead_space_graphic)

lemma go_fields_word_blank:
  assumes "list_all graphic w" and "w \<noteq> []"
  shows "go_fields (w @ CHR '' '' # s) = w # go_fields s"
  using assms by (simp add: go_fields_def fields_from_word)

end
