(* ===== verification/Go_Duration.thy ===== *)
theory Go_Duration
  imports Go_Strings
begin

text \<open>
  \<open>time.ParseDuration\<close>, which \<open>parseDescriptor\<close> calls for \<open>@every\<close>. A duration is an
  \<^typ>\<open>int\<close> number of nanoseconds in the range of \<open>int64\<close>; the accumulator is a
  \<open>uint64\<close> whose addition wraps, and a fraction of a unit goes through \<open>float64\<close>, so
  rounding to 53 significant bits is modelled too.
\<close>

section \<open>Rounding to a double\<close>

function bit_len :: "int \<Rightarrow> int" where
  "bit_len n = (if n \<le> 0 then 0 else 1 + bit_len (n div 2))"
  by pat_completeness auto
termination
  by (relation "measure nat") auto

declare bit_len.simps [simp del]

text \<open>
  The positive fraction \<open>p / q\<close> rounded to the nearest double, ties to even, as a fraction
  again. The exponent is chosen so that the mantissa \<open>m\<close> has 53 bits; the values met here
  lie well inside the normal range, so no subnormal or infinity arises.
\<close>

definition round_at :: "int \<Rightarrow> int \<times> int \<Rightarrow> int \<times> int" where
  "round_at e x =
     (let p = fst x * 2 ^ nat (- e); q = snd x * 2 ^ nat e;
          m = p div q; r = p mod q;
          m' = (if 2 * r > q \<or> (2 * r = q \<and> odd m) then m + 1 else m)
      in (m' * 2 ^ nat e, 2 ^ nat (- e)))"

definition double_of :: "int \<times> int \<Rightarrow> int \<times> int" where
  "double_of x =
     (if fst x = 0 then (0, 1)
      else let e = bit_len (fst x) - bit_len (snd x) - 53;
               e' = (if fst x * 2 ^ nat (- e) \<ge> 2 ^ 53 * (snd x * 2 ^ nat e) then e + 1 else e)
           in round_at e' x)"

text \<open>\<open>uint64(float64(f) * (float64(unit) / scale))\<close>.\<close>

definition scaled_fraction :: "int \<Rightarrow> int \<Rightarrow> int \<Rightarrow> int" where
  "scaled_fraction f unit scale =
     (let (a, b) = double_of (f, 1);
          (c, d) = double_of (unit, scale);
          (n, k) = double_of (a * c, b * d)
      in n div k)"

section \<open>The parser\<close>

definition unit_map :: "(string \<times> int) list" where
  "unit_map =
     [(''ns'', 1), (''us'', 1000), ([CHR 0xC2, CHR 0xB5, CHR ''s''], 1000),
      ([CHR 0xCE, CHR 0xBC, CHR ''s''], 1000), (''ms'', 1000000), (''s'', 1000000000),
      (''m'', 60000000000), (''h'', 3600000000000)]"

text \<open>\<open>leadingInt\<close>: \<open>None\<close> on overflow.\<close>

fun leading_int :: "int \<Rightarrow> string \<Rightarrow> (int \<times> string) option" where
  "leading_int x [] = Some (x, [])"
| "leading_int x (c # s) =
     (if \<not> is_digit c then Some (x, c # s)
      else if x > 2 ^ 63 div 10 then None
      else let y = x * 10 + digit_val c in if y > 2 ^ 63 then None else leading_int y s)"

text \<open>\<open>leadingFraction\<close>: digits past the overflow are read and dropped.\<close>

fun leading_fraction :: "int \<Rightarrow> int \<Rightarrow> bool \<Rightarrow> string \<Rightarrow> int \<times> int \<times> string" where
  "leading_fraction x scale ovf [] = (x, scale, [])"
| "leading_fraction x scale ovf (c # s) =
     (if \<not> is_digit c then (x, scale, c # s)
      else if ovf then leading_fraction x scale True s
      else if x > (2 ^ 63 - 1) div 10 then leading_fraction x scale True s
      else let y = x * 10 + digit_val c in
        if y > 2 ^ 63 then leading_fraction x scale True s
        else leading_fraction y (scale * 10) False s)"

definition unit_char :: "char \<Rightarrow> bool" where
  "unit_char c \<longleftrightarrow> \<not> (c = CHR ''.'' \<or> is_digit c)"

text \<open>
  One number with its unit, \<open>[0-9]*(\.[0-9]*)?[^.0-9]+\<close>, in nanoseconds with the rest
  of the text. Every error of the loop body is \<open>None\<close>.
\<close>

definition duration_item :: "string \<Rightarrow> (int \<times> string) option" where
  "duration_item s =
     (if \<not> (s \<noteq> [] \<and> (hd s = CHR ''.'' \<or> is_digit (hd s))) then None
      else (case leading_int 0 s of
        None \<Rightarrow> None
      | Some (v, s1) \<Rightarrow>
        let pre = (length s \<noteq> length s1);
            dot = (s1 \<noteq> [] \<and> hd s1 = CHR ''.'');
            (f, scale, s2) = (if dot then leading_fraction 0 1 False (tl s1) else (0, 1, s1));
            post = (dot \<and> length (tl s1) \<noteq> length s2);
            u = takeWhile unit_char s2; s3 = dropWhile unit_char s2
        in if \<not> pre \<and> \<not> post then None
           else if u = [] then None
           else (case map_of unit_map u of
             None \<Rightarrow> None
           | Some unit \<Rightarrow>
             if v > 2 ^ 63 div unit then None
             else let v1 = v * unit;
                      v2 = (if f > 0 then v1 + scaled_fraction f unit scale else v1)
                  in if f > 0 \<and> v2 > 2 ^ 63 then None else Some (v2, s3))))"

lemma leading_int_length: "leading_int x s = Some (v, s') \<Longrightarrow> length s' \<le> length s"
  by (induction x s rule: leading_int.induct) (auto simp: Let_def split: if_splits)

lemma leading_fraction_length:
  "leading_fraction x scale ovf s = (f, scale', s') \<Longrightarrow> length s' \<le> length s"
  by (induction x scale ovf s rule: leading_fraction.induct)
     (auto simp: Let_def split: if_splits)

lemma takeWhile_nonempty_dropWhile_length:
  "takeWhile P s \<noteq> [] \<Longrightarrow> length (dropWhile P s) < length s"
  by (cases s) (auto simp: length_dropWhile_le le_imp_less_Suc split: if_splits)

text \<open>The number part and the unit part of an item, for the termination of the loop.\<close>

definition item_fraction :: "string \<Rightarrow> int \<times> int \<times> string" where
  "item_fraction s1 =
     (if s1 \<noteq> [] \<and> hd s1 = CHR ''.'' then leading_fraction 0 1 False (tl s1) else (0, 1, s1))"

lemma item_fraction_length: "length (snd (snd (item_fraction s1))) \<le> length s1"
proof -
  obtain f sc s2 where fr: "leading_fraction 0 1 False (tl s1) = (f, sc, s2)"
    by (cases "leading_fraction 0 1 False (tl s1)")
  from leading_fraction_length [OF fr] have "length s2 \<le> length s1" by (cases s1) auto
  with fr show ?thesis by (simp add: item_fraction_def)
qed

lemma duration_item_SomeD:
  assumes "duration_item s = Some (v, s')"
  shows "\<exists>v0 s1. leading_int 0 s = Some (v0, s1) \<and>
    takeWhile unit_char (snd (snd (item_fraction s1))) \<noteq> [] \<and>
    s' = dropWhile unit_char (snd (snd (item_fraction s1)))"
proof -
  from assms obtain v0 s1 where i: "leading_int 0 s = Some (v0, s1)"
    by (auto simp: duration_item_def split: if_splits option.splits)
  obtain f sc s2 where fr: "item_fraction s1 = (f, sc, s2)" by (cases "item_fraction s1")
  from assms i fr have "takeWhile unit_char s2 \<noteq> [] \<and> s' = dropWhile unit_char s2"
    by (simp add: duration_item_def item_fraction_def [symmetric] Let_def
        split: if_split_asm option.split_asm)
  with i fr show ?thesis by auto
qed

lemma duration_item_length:
  assumes "duration_item s = Some (v, s')"
  shows "length s' < length s"
proof -
  from duration_item_SomeD [OF assms] obtain v0 s1 where
    i: "leading_int 0 s = Some (v0, s1)" and
    t: "takeWhile unit_char (snd (snd (item_fraction s1))) \<noteq> []" and
    s': "s' = dropWhile unit_char (snd (snd (item_fraction s1)))"
    by blast
  from takeWhile_nonempty_dropWhile_length [OF t] leading_int_length [OF i]
    item_fraction_length [of s1]
  show ?thesis unfolding s' by linarith
qed

text \<open>The loop over the items; \<open>d += v\<close> is on \<open>uint64\<close> and wraps.\<close>

function duration_loop :: "int \<Rightarrow> string \<Rightarrow> int option" where
  "duration_loop d s =
     (if s = [] then Some d
      else case duration_item s of None \<Rightarrow> None
      | Some (v, s') \<Rightarrow>
        let d' = (d + v) mod 2 ^ 64 in if d' > 2 ^ 63 then None else duration_loop d' s')"
  by pat_completeness auto
termination
  by (relation "measure (\<lambda>(d, s). length s)") (auto dest: duration_item_length)

declare duration_loop.simps [simp del]

definition parse_duration :: "string \<Rightarrow> int option" where
  "parse_duration s =
     (let signed = (s \<noteq> [] \<and> (hd s = CHR ''-'' \<or> hd s = CHR ''+''));
          neg = (signed \<and> hd s = CHR ''-'');
          s1 = (if signed then tl s else s)
      in if s1 = ''0'' then Some 0
         else if s1 = [] then None
         else case duration_loop 0 s1 of None \<Rightarrow> None
         | Some d \<Rightarrow>
           if neg then Some (- d)
           else if d > 2 ^ 63 - 1 then None else Some d)"

lemma duration_loop_range:
  "0 \<le> d \<Longrightarrow> d \<le> 2 ^ 63 \<Longrightarrow> duration_loop d s = Some r \<Longrightarrow> 0 \<le> r \<and> r \<le> 2 ^ 63"
proof (induction d s rule: duration_loop.induct)
  case (1 d s)
  show ?case
  proof (cases "s = []")
    case True
    with "1.prems" show ?thesis by (simp add: duration_loop.simps [of d "[]"])
  next
    case False
    with "1.prems"(3) obtain v s' where item: "duration_item s = Some (v, s')"
      by (auto simp: duration_loop.simps [of d s] split: option.splits)
    let ?d = "(d + v) mod 2 ^ 64"
    from "1.prems"(3) False item have le: "\<not> ?d > 2 ^ 63" and ret: "duration_loop ?d s' = Some r"
      by (simp_all add: duration_loop.simps [of d s] Let_def split: if_split_asm)
    show ?thesis
      by (rule "1.IH" [OF False item _ refl le _ _ ret]) (use le in auto)
  qed
qed

lemma parse_duration_range:
  assumes "parse_duration s = Some d"
  shows "- (2 ^ 63) \<le> d \<and> d < 2 ^ 63"
proof -
  have "0 \<le> r \<and> r \<le> 2 ^ 63" if "duration_loop 0 t = Some r" for t r
    using duration_loop_range [OF _ _ that] by simp
  note r = this
  show ?thesis
  proof (cases "duration_loop 0 (if s \<noteq> [] \<and> (hd s = CHR ''-'' \<or> hd s = CHR ''+'') then tl s else s)")
    case None
    with assms show ?thesis by (auto simp: parse_duration_def Let_def split: if_split_asm)
  next
    case (Some k)
    from r [OF Some] have "0 \<le> k" and "k \<le> 2 ^ 63" by simp_all
    with assms Some show ?thesis by (auto simp: parse_duration_def Let_def split: if_split_asm)
  qed
qed

end
