(* ===== verification/Cron_Parser.thy ===== *)
theory Cron_Parser
  imports Go_Duration
begin

text \<open>
  The cron expression parser, \<open>delayquene/parser.go\<close> with the bounds of
  \<open>delayquene/spec.go\<close>. Errors carry the data of the Go messages. \<open>Diverges\<close> is the value
  of a call whose loop does not return and \<open>Panics\<close> that of an index out of range, so that
  "the parser returns" is a statement about these two values (\<open>parse_returns\<close>).
\<close>

datatype cron_error =
    EmptySpec
  | WrongFieldCount nat nat nat string
  | BadFieldCount string
  | TooManyHyphens string
  | TooManySlashes string
  | BelowMinimum u64 u64 string
  | AboveMaximum u64 u64 string
  | BeyondEnd u64 u64 string
  | ZeroStep string
  | BadInt string
  | NegativeInt int string
  | BadDuration string
  | UnknownDescriptor string
  | Diverges
  | Panics

section \<open>Options, bounds, schedules\<close>

definition optSecond :: u64 where "optSecond = 1"
definition optMinute :: u64 where "optMinute = 2"
definition optHour :: u64 where "optHour = 4"
definition optDom :: u64 where "optDom = 8"
definition optMonth :: u64 where "optMonth = 16"
definition optDow :: u64 where "optDow = 32"
definition optDowOptional :: u64 where "optDowOptional = 64"
definition optDescriptor :: u64 where "optDescriptor = 128"

lemmas option_defs = optSecond_def optMinute_def optHour_def optDom_def optMonth_def optDow_def
  optDowOptional_def optDescriptor_def

definition places :: "u64 list" where
  "places = [optSecond, optMinute, optHour, optDom, optMonth, optDow]"

definition defaults :: "string list" where
  "defaults = [''0'', ''0'', ''0'', ''*'', ''*'', ''*'']"

record parser =
  options :: u64
  optionals :: nat

definition NewParser :: "u64 \<Rightarrow> parser" where
  "NewParser opts =
     (if opts AND optDowOptional \<noteq> 0 then \<lparr>options = opts OR optDow, optionals = 1\<rparr>
      else \<lparr>options = opts, optionals = 0\<rparr>)"

text \<open>\<open>bounds\<close>; a nil \<open>names\<close> map is \<open>None\<close>.\<close>

record bounds =
  bmin :: u64
  bmax :: u64
  names :: "(string \<times> u64) list option"

definition seconds :: bounds where
  "seconds = \<lparr>bmin = 0, bmax = 59, names = None\<rparr>"
definition minutes :: bounds where
  "minutes = \<lparr>bmin = 0, bmax = 59, names = None\<rparr>"
definition hours :: bounds where
  "hours = \<lparr>bmin = 0, bmax = 23, names = None\<rparr>"
definition dom_bounds :: bounds where
  "dom_bounds = \<lparr>bmin = 1, bmax = 31, names = None\<rparr>"
definition months :: bounds where
  "months = \<lparr>bmin = 1, bmax = 12, names = Some
     [(''jan'', 1), (''feb'', 2), (''mar'', 3), (''apr'', 4), (''may'', 5), (''jun'', 6),
      (''jul'', 7), (''aug'', 8), (''sep'', 9), (''oct'', 10), (''nov'', 11), (''dec'', 12)]\<rparr>"
definition dow_bounds :: bounds where
  "dow_bounds = \<lparr>bmin = 0, bmax = 6, names = Some
     [(''sun'', 0), (''mon'', 1), (''tue'', 2), (''wed'', 3), (''thu'', 4), (''fri'', 5),
      (''sat'', 6)]\<rparr>"

lemmas bounds_defs = seconds_def minutes_def hours_def dom_bounds_def months_def dow_bounds_def

definition starBit :: u64 where
  "starBit = push_bit 63 1"

record spec_schedule =
  Second :: u64
  Minute :: u64
  Hour :: u64
  Dom :: u64
  Month :: u64
  Dow :: u64

text \<open>The implementations of the \<open>Schedule\<close> interface; a delay is in nanoseconds.\<close>

datatype schedule = SpecSchedule spec_schedule | ConstantDelaySchedule int

section \<open>Bit sets\<close>

text \<open>
  The loop \<open>for i := min; i <= max; i += step\<close> on \<open>uint\<close>, whose addition wraps.
  \<open>None\<close> means that it does not return.
\<close>

partial_function (option) get_bits_loop :: "u64 \<Rightarrow> u64 \<Rightarrow> u64 \<Rightarrow> u64 \<Rightarrow> u64 option" where
  "get_bits_loop i hi step bits =
     (if i \<le> hi then get_bits_loop (i + step) hi step (bits OR shl64 1 i) else Some bits)"

declare get_bits_loop.simps [code]

definition get_bits :: "u64 \<Rightarrow> u64 \<Rightarrow> u64 \<Rightarrow> u64 option" where
  "get_bits lo hi step =
     (if step = 1 then Some (NOT (shl64 (- 1) (hi + 1)) AND shl64 (- 1) lo)
      else get_bits_loop lo hi step 0)"

text \<open>\<open>all(r)\<close>: its step is 1, so no loop is involved.\<close>

definition all_bits :: "bounds \<Rightarrow> u64" where
  "all_bits r = (NOT (shl64 (- 1) (bmax r + 1)) AND shl64 (- 1) (bmin r)) OR starBit"

section \<open>Numbers, ranges, fields\<close>

definition must_parse_int :: "string \<Rightarrow> cron_error + u64" where
  "must_parse_int expr =
     (case atoi expr of
        None \<Rightarrow> Inl (BadInt expr)
      | Some num \<Rightarrow> if num < 0 then Inl (NegativeInt num expr) else Inr (word_of_int num))"

definition parse_int_or_name :: "string \<Rightarrow> (string \<times> u64) list option \<Rightarrow> cron_error + u64" where
  "parse_int_or_name expr nms =
     (case nms of
        None \<Rightarrow> must_parse_int expr
      | Some m \<Rightarrow> (case map_of m (to_lower expr) of
          Some k \<Rightarrow> Inr k
        | None \<Rightarrow> must_parse_int expr))"

text \<open>The start, the end before the step is read, and the star bit of a range.\<close>

definition range_ends :: "string \<Rightarrow> string list \<Rightarrow> bounds \<Rightarrow> cron_error + u64 \<times> u64 \<times> u64" where
  "range_ends expr low_and_high r =
     (if hd low_and_high = ''*'' \<or> hd low_and_high = ''?'' then Inr (bmin r, bmax r, starBit)
      else rbind (parse_int_or_name (hd low_and_high) (names r)) (\<lambda>start.
        (if length low_and_high = 1 then Inr (start, start, 0)
         else if length low_and_high = 2 then
           rbind (parse_int_or_name (low_and_high ! 1) (names r)) (\<lambda>end. Inr (start, end, 0))
         else Inl (TooManyHyphens expr))))"

definition range_step ::
  "string \<Rightarrow> string list \<Rightarrow> bool \<Rightarrow> u64 \<Rightarrow> bounds \<Rightarrow> cron_error + u64 \<times> u64" where
  "range_step expr range_and_step single_digit end r =
     (if length range_and_step = 1 then Inr (end, 1)
      else if length range_and_step = 2 then
        rbind (must_parse_int (range_and_step ! 1)) (\<lambda>step.
          Inr (if single_digit then bmax r else end, step))
      else Inl (TooManySlashes expr))"

definition check_range ::
  "string \<Rightarrow> u64 \<Rightarrow> u64 \<Rightarrow> u64 \<Rightarrow> u64 \<Rightarrow> bounds \<Rightarrow> cron_error + u64" where
  "check_range expr start end step extra r =
     (if start < bmin r then Inl (BelowMinimum start (bmin r) expr)
      else if end > bmax r then Inl (AboveMaximum end (bmax r) expr)
      else if start > end then Inl (BeyondEnd start end expr)
      else if step = 0 then Inl (ZeroStep expr)
      else (case get_bits start end step of
          None \<Rightarrow> Inl Diverges
        | Some bits \<Rightarrow> Inr (bits OR extra)))"

definition get_range :: "string \<Rightarrow> bounds \<Rightarrow> cron_error + u64" where
  "get_range expr r =
     (let range_and_step = go_split CHR ''/'' expr;
          low_and_high = go_split CHR ''-'' (hd range_and_step);
          single_digit = (length low_and_high = 1)
      in rbind (range_ends expr low_and_high r) (\<lambda>(start, end0, extra).
         rbind (range_step expr range_and_step single_digit end0 r) (\<lambda>(end, step).
         check_range expr start end step extra r)))"

text \<open>The loop of \<open>getField\<close> over the comma-separated ranges.\<close>

fun get_field_loop :: "u64 \<Rightarrow> string list \<Rightarrow> bounds \<Rightarrow> cron_error + u64" where
  "get_field_loop bits [] r = Inr bits"
| "get_field_loop bits (expr # ranges) r =
     rbind (get_range expr r) (\<lambda>bit. get_field_loop (bits OR bit) ranges r)"

definition get_field :: "string \<Rightarrow> bounds \<Rightarrow> cron_error + u64" where
  "get_field field r = get_field_loop 0 (fields_func CHR '','' field) r"

section \<open>Descriptors and fixed intervals\<close>

definition Every :: "int \<Rightarrow> schedule" where
  "Every duration =
     (let d = (if duration < nanos_per_sec then nanos_per_sec else duration)
      in ConstantDelaySchedule (d - d mod nanos_per_sec))"

definition descriptor_table :: "(string \<times> spec_schedule) list" where
  "descriptor_table =
     (let at0 = (\<lambda>r. shl64 1 (bmin r));
          yearly = \<lparr>Second = at0 seconds, Minute = at0 minutes, Hour = at0 hours,
            Dom = at0 dom_bounds, Month = at0 months, Dow = all_bits dow_bounds\<rparr>;
          daily = \<lparr>Second = at0 seconds, Minute = at0 minutes, Hour = at0 hours,
            Dom = all_bits dom_bounds, Month = all_bits months, Dow = all_bits dow_bounds\<rparr>
      in [(''@yearly'', yearly), (''@annually'', yearly),
          (''@monthly'', \<lparr>Second = at0 seconds, Minute = at0 minutes, Hour = at0 hours,
             Dom = at0 dom_bounds, Month = all_bits months, Dow = all_bits dow_bounds\<rparr>),
          (''@weekly'', \<lparr>Second = at0 seconds, Minute = at0 minutes, Hour = at0 hours,
             Dom = all_bits dom_bounds, Month = all_bits months, Dow = at0 dow_bounds\<rparr>),
          (''@daily'', daily), (''@midnight'', daily),
          (''@hourly'', \<lparr>Second = at0 seconds, Minute = at0 minutes, Hour = all_bits hours,
             Dom = all_bits dom_bounds, Month = all_bits months, Dow = all_bits dow_bounds\<rparr>)])"

definition parse_descriptor :: "string \<Rightarrow> cron_error + schedule" where
  "parse_descriptor descriptor =
     (case map_of descriptor_table descriptor of
        Some s \<Rightarrow> Inr (SpecSchedule s)
      | None \<Rightarrow>
        if has_prefix ''@every '' descriptor then
          (case parse_duration (drop (length ''@every '') descriptor) of
             None \<Rightarrow> Inl (BadDuration descriptor)
           | Some duration \<Rightarrow> Inr (Every duration))
        else Inl (UnknownDescriptor descriptor))"

section \<open>Parse\<close>

text \<open>
  The loop of \<open>expandFields\<close> over the places, from field \<open>n\<close> on; \<open>None\<close> is the panic of
  \<open>fields[n]\<close> out of range.
\<close>

fun expand_loop :: "string list \<Rightarrow> u64 \<Rightarrow> nat \<Rightarrow> (u64 \<times> string) list \<Rightarrow> string list option" where
  "expand_loop flds opts n [] = Some []"
| "expand_loop flds opts n ((place, d) # rest) =
     (if opts AND place \<noteq> 0 then
        (if n < length flds then
           (if Suc n = length flds then Some (flds ! n # map snd rest)
            else map_option ((#) (flds ! n)) (expand_loop flds opts (Suc n) rest))
         else None)
      else if n = length flds then Some (d # map snd rest)
      else map_option ((#) d) (expand_loop flds opts n rest))"

definition expand_fields :: "string list \<Rightarrow> u64 \<Rightarrow> string list option" where
  "expand_fields flds opts = expand_loop flds opts 0 (zip places defaults)"

text \<open>
  The six calls of the closure \<open>field\<close>: after the first error the rest are not evaluated,
  and that error is returned.
\<close>

definition build_schedule :: "string list \<Rightarrow> cron_error + schedule" where
  "build_schedule fs =
     rbind (get_field (fs ! 0) seconds) (\<lambda>second.
     rbind (get_field (fs ! 1) minutes) (\<lambda>minute.
     rbind (get_field (fs ! 2) hours) (\<lambda>hour.
     rbind (get_field (fs ! 3) dom_bounds) (\<lambda>dayofmonth.
     rbind (get_field (fs ! 4) months) (\<lambda>month.
     rbind (get_field (fs ! 5) dow_bounds) (\<lambda>dayofweek.
       Inr (SpecSchedule \<lparr>Second = second, Minute = minute, Hour = hour,
         Dom = dayofmonth, Month = month, Dow = dayofweek\<rparr>)))))))"

definition parser_parse :: "parser \<Rightarrow> string \<Rightarrow> cron_error + schedule" where
  "parser_parse p spec =
     (if spec = [] then Inl EmptySpec
      else if hd spec = CHR ''@'' \<and> options p AND optDescriptor \<noteq> 0 then parse_descriptor spec
      else
        (let mx = length (filter (\<lambda>place. options p AND place \<noteq> 0) places);
             mn = mx - optionals p;
             flds = go_fields spec;
             count = length flds
         in if count < mn \<or> count > mx then Inl (WrongFieldCount mn mx count spec)
            else (case expand_fields flds (options p) of
                None \<Rightarrow> Inl Panics
              | Some fs \<Rightarrow> build_schedule fs)))"

definition standardParser :: parser where
  "standardParser =
     NewParser (optMinute OR optHour OR optDom OR optMonth OR optDow OR optDescriptor)"

definition secondsParser :: parser where
  "secondsParser =
     NewParser (optSecond OR optMinute OR optHour OR optDom OR optMonth OR optDow OR optDescriptor)"

definition Parse :: "string \<Rightarrow> cron_error + schedule" where
  "Parse spec =
     (if has_prefix ''@'' (trim_space spec) then parser_parse secondsParser (trim_space spec)
      else if length (go_fields spec) = 5 then parser_parse standardParser spec
      else if length (go_fields spec) = 6 then parser_parse secondsParser spec
      else Inl (BadFieldCount spec))"

section \<open>The bit sets are what the ranges say\<close>

lemma get_bits_loop_correct:
  assumes "0 < unat step" and "unat hi + unat step < 2 ^ 64"
  shows "\<exists>b. get_bits_loop i hi step bits = Some b \<and>
    (\<forall>n. bit b n \<longleftrightarrow> bit bits n \<or>
      (unat i \<le> n \<and> n \<le> unat hi \<and> n < 64 \<and> unat step dvd (n - unat i)))"
proof (induction "Suc (unat hi) - unat i" arbitrary: i bits rule: less_induct)
  case less
  show ?case
  proof (cases "i \<le> hi")
    case False
    then show ?thesis
      by (auto simp: get_bits_loop.simps [of i] word_le_nat_alt)
  next
    case True
    then have le: "unat i \<le> unat hi" by (simp add: word_le_nat_alt)
    with assms have step: "unat (i + step) = unat i + unat step"
      by (simp add: unat_word_ariths)
    from le step assms(1) have "Suc (unat hi) - unat (i + step) < Suc (unat hi) - unat i"
      by linarith
    from less [OF this] obtain b where
      b: "get_bits_loop (i + step) hi step (bits OR shl64 1 i) = Some b" and
      iff: "\<forall>n. bit b n \<longleftrightarrow> bit (bits OR shl64 1 i) n \<or> (unat i + unat step \<le> n \<and>
        n \<le> unat hi \<and> n < 64 \<and> unat step dvd (n - (unat i + unat step)))"
      by (auto simp: step)
    have dvd: "unat step dvd (n - unat i) \<longleftrightarrow>
        n = unat i \<or> (unat i + unat step \<le> n \<and> unat step dvd (n - (unat i + unat step)))"
      if "unat i \<le> n" for n
    proof (cases "unat i + unat step \<le> n")
      case True
      then have eq: "n - unat i = (n - (unat i + unat step)) + unat step" by linarith
      have "unat step dvd (n - unat i) \<longleftrightarrow> unat step dvd (n - (unat i + unat step))"
        unfolding eq by (rule dvd_add_triv_right_iff)
      with True assms(1) show ?thesis by auto
    next
      case False
      with that assms(1) show ?thesis by (auto dest: dvd_imp_le)
    qed
    have "bit b n \<longleftrightarrow> bit bits n \<or>
        (unat i \<le> n \<and> n \<le> unat hi \<and> n < 64 \<and> unat step dvd (n - unat i))" for n
    proof (cases "unat i \<le> n")
      case True
      then show ?thesis
        using iff le dvd [OF True] by (auto simp: bit_or_iff bit_shl64_one simp del: bit_shl64)
    next
      case False
      then show ?thesis using iff by (auto simp: bit_or_iff bit_shl64_one simp del: bit_shl64)
    qed
    with b True show ?thesis by (simp add: get_bits_loop.simps [of i])
  qed
qed

lemma bit_minus_1_u64: "bit (- 1 :: u64) n \<longleftrightarrow> n < 64"
  by simp

lemma get_bits_correct:
  assumes "0 < unat step" and "unat step < 2 ^ 63" and "unat hi < 64"
  shows "\<exists>b. get_bits lo hi step = Some b \<and>
    (\<forall>n. bit b n \<longleftrightarrow> unat lo \<le> n \<and> n \<le> unat hi \<and> unat step dvd (n - unat lo))"
proof (cases "step = 1")
  case True
  from assms(3) have hi: "unat (hi + 1) = Suc (unat hi)" by (simp add: unat_word_ariths)
  have "bit (NOT (shl64 (- 1) (hi + 1)) AND shl64 (- 1) lo) n \<longleftrightarrow>
      unat lo \<le> n \<and> n \<le> unat hi" for n
    using assms(3) by (auto simp: bit_and_iff bit_not_iff hi)
  with True show ?thesis by (simp add: get_bits_def)
next
  case False
  with get_bits_loop_correct [of step hi lo 0] assms show ?thesis
    by (auto simp: get_bits_def)
qed

lemma bit_starBit [simp]: "bit starBit n \<longleftrightarrow> n = 63"
proof -
  have "starBit = shl64 1 63" by (simp add: starBit_def shl64_def)
  then have "bit starBit n \<longleftrightarrow> bit (shl64 1 63) n" by (rule arg_cong)
  also have "\<dots> \<longleftrightarrow> n = 63" unfolding bit_shl64_one by auto
  finally show ?thesis .
qed

text \<open>What the bounds of a field have to satisfy, and what a field's bit set then satisfies.\<close>

definition wf_bounds :: "bounds \<Rightarrow> bool" where
  "wf_bounds r \<longleftrightarrow> unat (bmin r) \<le> unat (bmax r) \<and> unat (bmax r) < 63 \<and>
     (case names r of None \<Rightarrow> True
      | Some m \<Rightarrow> list_all (\<lambda>(k, v). \<not> list_all is_digit k) m)"

lemma wf_bounds_code [simp]:
  "wf_bounds seconds" "wf_bounds minutes" "wf_bounds hours" "wf_bounds dom_bounds"
  "wf_bounds months" "wf_bounds dow_bounds"
  by (simp_all add: wf_bounds_def bounds_defs is_digit_def)

definition field_bits_ok :: "bounds \<Rightarrow> u64 \<Rightarrow> bool" where
  "field_bits_ok r w \<longleftrightarrow> (\<forall>n<63. bit w n \<longrightarrow> unat (bmin r) \<le> n \<and> n \<le> unat (bmax r))"

text \<open>The set a range stands for: every \<open>step\<close>-th number from \<open>lo\<close> to \<open>hi\<close>.\<close>

definition range_denotes :: "nat \<Rightarrow> nat \<Rightarrow> nat \<Rightarrow> bool \<Rightarrow> u64 \<Rightarrow> bool" where
  "range_denotes lo hi step star w \<longleftrightarrow>
     (\<forall>n<63. bit w n \<longleftrightarrow> lo \<le> n \<and> n \<le> hi \<and> step dvd (n - lo)) \<and> (bit w 63 \<longleftrightarrow> star)"

lemma unat_word_of_int_small:
  assumes "0 \<le> k" and "k < 2 ^ 63"
  shows "unat (word_of_int k :: u64) = nat k"
proof -
  from assms have "uint (word_of_int k :: u64) = k" by (simp add: uint_word_of_int)
  then show ?thesis by (simp add: unat_eq_nat_uint)
qed

lemma must_parse_int_Inr:
  assumes "must_parse_int expr = Inr k"
  obtains num where "atoi expr = Some num" "0 \<le> num" "num < 2 ^ 63" "unat k = nat num"
proof -
  from assms obtain num where n: "atoi expr = Some num" "0 \<le> num" "k = word_of_int num"
    by (auto simp: must_parse_int_def split: option.split_asm if_split_asm)
  moreover from atoi_range [OF n(1)] have "num < 2 ^ 63" by simp
  ultimately show ?thesis using that unat_word_of_int_small by blast
qed

lemma must_parse_int_bound:
  assumes "must_parse_int expr = Inr k"
  shows "unat k < 2 ^ 63"
  using assms by (rule must_parse_int_Inr) (simp add: nat_less_iff)

lemma must_parse_int_error:
  "must_parse_int expr = Inl e \<Longrightarrow> e \<noteq> Diverges \<and> e \<noteq> Panics"
  by (auto simp: must_parse_int_def split: option.splits if_splits)

lemma check_range_correct:
  assumes r: "wf_bounds r" and step: "unat step < 2 ^ 63"
  shows "case check_range expr start en step extra r of
      Inl e \<Rightarrow> e \<noteq> Diverges \<and> e \<noteq> Panics
    | Inr w \<Rightarrow> unat (bmin r) \<le> unat start \<and> unat start \<le> unat en \<and> unat en \<le> unat (bmax r) \<and>
        0 < unat step \<and>
        (\<forall>n. bit w n \<longleftrightarrow> (unat start \<le> n \<and> n \<le> unat en \<and>
          unat step dvd (n - unat start)) \<or> bit extra n)"
proof (cases "start < bmin r \<or> en > bmax r \<or> start > en \<or> step = 0")
  case True
  then show ?thesis by (auto simp: check_range_def)
next
  case False
  then have le: "unat (bmin r) \<le> unat start" "unat en \<le> unat (bmax r)" "unat start \<le> unat en"
    and pos: "0 < unat step"
    by (simp_all add: word_le_nat_alt not_less unat_gt_0)
  from le r have "unat en < 64" by (simp add: wf_bounds_def)
  from get_bits_correct [OF pos step this, of start] obtain b where
    "get_bits start en step = Some b" and
    "\<forall>n. bit b n \<longleftrightarrow> unat start \<le> n \<and> n \<le> unat en \<and> unat step dvd (n - unat start)"
    by blast
  with False le pos show ?thesis by (auto simp: check_range_def bit_or_iff)
qed

lemma range_step_bound:
  "range_step expr ras single end r = Inr (e, step) \<Longrightarrow> unat step < 2 ^ 63"
  by (auto simp: range_step_def rbind_eq_Inr_iff dest: must_parse_int_bound split: if_splits)

lemma range_ends_extra:
  "range_ends expr lah r = Inr (a, b, extra) \<Longrightarrow>
     extra = (if hd lah = ''*'' \<or> hd lah = ''?'' then starBit else 0)"
  by (auto simp: range_ends_def rbind_eq_Inr_iff split: if_splits)

lemma range_parts_error:
  "range_ends expr lah r = Inl e \<Longrightarrow> e \<noteq> Diverges \<and> e \<noteq> Panics"
  "range_step expr ras single en r = Inl e \<Longrightarrow> e \<noteq> Diverges \<and> e \<noteq> Panics"
  by (auto simp: range_ends_def range_step_def parse_int_or_name_def rbind_eq_Inl_iff
      dest: must_parse_int_error split: if_splits option.splits)

definition starred :: "string \<Rightarrow> bool" where
  "starred expr \<longleftrightarrow> hd (go_split CHR ''-'' (hd (go_split CHR ''/'' expr))) \<in> {''*'', ''?''}"

lemma get_range_correct:
  assumes r: "wf_bounds r"
  shows "case get_range expr r of
      Inl e \<Rightarrow> e \<noteq> Diverges \<and> e \<noteq> Panics
    | Inr w \<Rightarrow> \<exists>lo hi step. unat (bmin r) \<le> lo \<and> lo \<le> hi \<and> hi \<le> unat (bmax r) \<and> 0 < step \<and>
        range_denotes lo hi step (starred expr) w"
proof -
  let ?ras = "go_split CHR ''/'' expr"
  let ?lah = "go_split CHR ''-'' (hd ?ras)"
  show ?thesis
  proof (cases "range_ends expr ?lah r")
    case (Inl e)
    then show ?thesis using range_parts_error(1) by (fastforce simp: get_range_def Let_def)
  next
    case ends: (Inr x)
    obtain start end0 extra where x: "x = (start, end0, extra)" by (cases x)
    show ?thesis
    proof (cases "range_step expr ?ras (length ?lah = 1) end0 r")
      case (Inl e)
      with ends x show ?thesis using range_parts_error(2) by (fastforce simp: get_range_def Let_def)
    next
      case stp: (Inr y)
      obtain en step where y: "y = (en, step)" by (cases y)
      have eq: "get_range expr r = check_range expr start en step extra r"
        using ends stp x y by (simp add: get_range_def Let_def)
      have "unat step < 2 ^ 63" using stp y range_step_bound by blast
      note c = check_range_correct [where expr = expr and start = start and en = en and extra = extra,
        OF r this, folded eq]
      have extra: "bit extra n \<longleftrightarrow> n = 63 \<and> starred expr" for n
        using range_ends_extra [OF ends [unfolded x]] by (simp add: starred_def)
      show ?thesis
      proof (cases "get_range expr r")
        case (Inl e)
        with c show ?thesis by simp
      next
        case (Inr w)
        with c extra r have "range_denotes (unat start) (unat en) (unat step) (starred expr) w"
          by (auto simp: range_denotes_def wf_bounds_def)
        with Inr c show ?thesis by auto
      qed
    qed
  qed
qed

section \<open>Fields\<close>

lemma get_field_loop_correct:
  assumes r: "wf_bounds r"
  shows "case get_field_loop bits ranges r of
      Inl e \<Rightarrow> e \<noteq> Diverges \<and> e \<noteq> Panics
    | Inr w \<Rightarrow> \<forall>n. bit w n \<longleftrightarrow>
        bit bits n \<or> (\<exists>expr \<in> set ranges. \<exists>b. get_range expr r = Inr b \<and> bit b n)"
proof (induction ranges arbitrary: bits)
  case Nil
  then show ?case by simp
next
  case (Cons expr ranges)
  show ?case
  proof (cases "get_range expr r")
    case (Inl e)
    with get_range_correct [OF r, of expr] show ?thesis by simp
  next
    case (Inr b)
    with Cons.IH [of "bits OR b"] show ?thesis
      by (auto simp: bit_or_iff split: sum.split)
  qed
qed

lemma get_field_loop_ranges_ok:
  "get_field_loop bits ranges r = Inr w \<Longrightarrow> expr \<in> set ranges \<Longrightarrow> \<exists>b. get_range expr r = Inr b"
  by (induction ranges arbitrary: bits) (auto simp: rbind_eq_Inr_iff)

lemma get_field_error:
  "wf_bounds r \<Longrightarrow> get_field f r = Inl e \<Longrightarrow> e \<noteq> Diverges \<and> e \<noteq> Panics"
  using get_field_loop_correct [of r 0 "fields_func CHR '','' f"] by (simp add: get_field_def)

lemma get_field_bits_ok:
  assumes r: "wf_bounds r" and w: "get_field f r = Inr w"
  shows "field_bits_ok r w"
  unfolding field_bits_ok_def
proof (intro allI impI)
  fix n :: nat
  assume n: "n < 63" and bit: "bit w n"
  from get_field_loop_correct [OF r, of 0 "fields_func CHR '','' f"] w bit
  obtain expr b where "get_range expr r = Inr b" and b: "bit b n"
    by (auto simp: get_field_def)
  with get_range_correct [OF r, of expr] n
  show "unat (bmin r) \<le> n \<and> n \<le> unat (bmax r)"
    by (auto simp: range_denotes_def)
qed

section \<open>Schedules\<close>

definition wf_schedule :: "spec_schedule \<Rightarrow> bool" where
  "wf_schedule s \<longleftrightarrow>
     field_bits_ok seconds (Second s) \<and> field_bits_ok minutes (Minute s) \<and>
     field_bits_ok hours (Hour s) \<and> field_bits_ok dom_bounds (Dom s) \<and>
     field_bits_ok months (Month s) \<and> field_bits_ok dow_bounds (Dow s)"

lemmas code_field_bits_ok =
  get_field_bits_ok [OF wf_bounds_code(1)] get_field_bits_ok [OF wf_bounds_code(2)]
  get_field_bits_ok [OF wf_bounds_code(3)] get_field_bits_ok [OF wf_bounds_code(4)]
  get_field_bits_ok [OF wf_bounds_code(5)] get_field_bits_ok [OF wf_bounds_code(6)]

lemma build_schedule_wf:
  assumes "build_schedule fs = Inr sch"
  shows "\<exists>s. sch = SpecSchedule s \<and> wf_schedule s"
  using assms
  by (auto simp: build_schedule_def rbind_eq_Inr_iff wf_schedule_def dest!: code_field_bits_ok)

lemma build_schedule_error:
  "build_schedule fs = Inl e \<Longrightarrow> e \<noteq> Diverges \<and> e \<noteq> Panics"
  by (auto simp: build_schedule_def rbind_eq_Inl_iff dest: get_field_error [rotated])

lemma bit_all_bits:
  assumes "wf_bounds r"
  shows "bit (all_bits r) n \<longleftrightarrow> (unat (bmin r) \<le> n \<and> n \<le> unat (bmax r)) \<or> n = 63"
proof -
  from assms have hi: "unat (bmax r) < 64" by (simp add: wf_bounds_def)
  have one: "unat (1 :: u64) = 1" by simp
  from get_bits_correct [of 1 "bmax r" "bmin r"] hi obtain b where
    "get_bits (bmin r) (bmax r) 1 = Some b"
    "\<forall>n. bit b n \<longleftrightarrow> unat (bmin r) \<le> n \<and> n \<le> unat (bmax r)"
    by (auto simp: one)
  then show ?thesis by (auto simp: get_bits_def all_bits_def bit_or_iff)
qed

lemma field_bits_ok_all: "wf_bounds r \<Longrightarrow> field_bits_ok r (all_bits r)"
  by (auto simp: field_bits_ok_def bit_all_bits)

lemma field_bits_ok_min: "wf_bounds r \<Longrightarrow> field_bits_ok r (shl64 1 (bmin r))"
  by (auto simp: field_bits_ok_def bit_shl64_one wf_bounds_def simp del: bit_shl64)

lemma descriptor_table_wf:
  "list_all (\<lambda>(k, s). wf_schedule s) descriptor_table"
  by (simp add: descriptor_table_def Let_def wf_schedule_def field_bits_ok_all field_bits_ok_min)

definition wf_delay :: "int \<Rightarrow> bool" where
  "wf_delay d \<longleftrightarrow> nanos_per_sec \<le> d \<and> d < 2 ^ 63 \<and> nanos_per_sec dvd d"

lemma Every_wf:
  assumes "d < 2 ^ 63"
  shows "\<exists>k. Every d = ConstantDelaySchedule k \<and> wf_delay k \<and>
    k \<le> max d nanos_per_sec \<and> max d nanos_per_sec - k < nanos_per_sec"
proof -
  let ?d = "if d < nanos_per_sec then nanos_per_sec else d"
  let ?k = "?d - ?d mod nanos_per_sec"
  have pos: "0 < nanos_per_sec" by (simp add: nanos_per_sec_def)
  have "?d mod nanos_per_sec < nanos_per_sec" "0 \<le> ?d mod nanos_per_sec"
    using pos by simp_all
  moreover have dvd: "nanos_per_sec dvd ?k" by (rule dvd_minus_mod)
  moreover have "nanos_per_sec \<le> ?k"
  proof (rule zdvd_imp_le [OF dvd])
    have "nanos_per_sec \<le> ?d" by simp
    with \<open>?d mod nanos_per_sec < nanos_per_sec\<close> show "0 < ?k" by linarith
  qed
  ultimately show ?thesis
    using assms by (auto simp: Every_def wf_delay_def Let_def nanos_per_sec_def)
qed

definition wf_sched :: "schedule \<Rightarrow> bool" where
  "wf_sched sch = (case sch of SpecSchedule s \<Rightarrow> wf_schedule s | ConstantDelaySchedule d \<Rightarrow> wf_delay d)"

lemma parse_descriptor_correct:
  "case parse_descriptor d of
     Inl e \<Rightarrow> e \<noteq> Diverges \<and> e \<noteq> Panics
   | Inr sch \<Rightarrow> wf_sched sch"
proof (cases "map_of descriptor_table d")
  case (Some s)
  from map_of_SomeD [OF Some] descriptor_table_wf have "wf_schedule s"
    by (auto simp: list_all_iff)
  with Some show ?thesis by (simp add: parse_descriptor_def wf_sched_def)
next
  case None
  then show ?thesis
    using Every_wf parse_duration_range
    by (auto simp: parse_descriptor_def wf_sched_def split: option.split) fastforce
qed

section \<open>The two parsers and their composition\<close>

lemma standardParser_simps [simp]:
  "options standardParser = 190" "optionals standardParser = 0"
  by (simp_all add: standardParser_def NewParser_def option_defs)

lemma secondsParser_simps [simp]:
  "options secondsParser = 191" "optionals secondsParser = 0"
  by (simp_all add: secondsParser_def NewParser_def option_defs)

lemma length_five:
  assumes "length xs = 5"
  obtains a b c d e where "xs = [a, b, c, d, e]"
  using assms by (auto simp: numeral_eq_Suc length_Suc_conv)

lemma length_six:
  assumes "length xs = 6"
  obtains a b c d e f where "xs = [a, b, c, d, e, f]"
  using assms by (auto simp: numeral_eq_Suc length_Suc_conv)

lemma expand_fields_standard:
  assumes "length fs = 5"
  shows "expand_fields fs 190 = Some (''0'' # fs)"
  using assms
  by (rule length_five) (simp add: expand_fields_def places_def defaults_def option_defs)

lemma expand_fields_seconds:
  assumes "length fs = 6"
  shows "expand_fields fs 191 = Some fs"
  using assms
  by (rule length_six) (simp add: expand_fields_def places_def defaults_def option_defs)

lemma go_fields_Nil [simp]: "go_fields [] = []"
  by (simp add: go_fields_def)

lemma parser_parse_standard:
  assumes "length (go_fields spec) = 5" and "hd spec \<noteq> CHR ''@''"
  shows "parser_parse standardParser spec = build_schedule (''0'' # go_fields spec)"
proof -
  from assms(1) have "spec \<noteq> []" by auto
  with assms show ?thesis
    by (simp add: parser_parse_def Let_def places_def option_defs expand_fields_standard)
qed

lemma parser_parse_seconds:
  assumes "length (go_fields spec) = 6" and "hd spec \<noteq> CHR ''@''"
  shows "parser_parse secondsParser spec = build_schedule (go_fields spec)"
proof -
  from assms(1) have "spec \<noteq> []" by auto
  with assms show ?thesis
    by (simp add: parser_parse_def Let_def places_def option_defs expand_fields_seconds)
qed

text \<open>A text whose first byte is an at sign keeps it when trimmed.\<close>

lemma trail_space_suffix:
  assumes "trail_space s \<noteq> 0"
  shows "\<exists>e \<in> set space_encs. has_suffix e s \<and> trail_space s = length e"
  using assms unfolding trail_space_def
  by (auto split: option.split_asm dest!: find_SomeD)

lemma space_encs_no_at: "list_all (\<lambda>e. CHR ''@'' \<notin> set e) space_encs"
  by (simp add: space_encs_def)

lemma has_suffix_append: "has_suffix e s \<Longrightarrow> s = take (length s - length e) s @ e"
proof -
  assume "has_suffix e s"
  then have "take (length e) (rev s) = rev e" by (simp add: has_suffix_def has_prefix_def)
  then have "drop (length s - length e) s = e" by (metis rev_rev_ident take_rev)
  then show ?thesis by (metis append_take_drop_id)
qed

lemma trim_right_at:
  "s \<noteq> [] \<Longrightarrow> hd s = CHR ''@'' \<Longrightarrow> trim_right s \<noteq> [] \<and> hd (trim_right s) = CHR ''@''"
proof (induction s rule: trim_right.induct)
  case (1 s)
  show ?case
  proof (cases "trail_space s = 0")
    case True
    with "1.prems" show ?thesis by (simp add: trim_right.simps [of s] Let_def)
  next
    case False
    from trail_space_suffix [OF this] obtain e where
      e: "e \<in> set space_encs" "has_suffix e s" "trail_space s = length e" by blast
    let ?t = "take (length s - trail_space s) s"
    have s: "s = ?t @ e" using has_suffix_append [OF e(2)] e(3) by simp
    have no_at: "CHR ''@'' \<notin> set e" using e(1) space_encs_no_at by (auto simp: list_all_iff)
    have "?t \<noteq> []"
    proof
      assume "?t = []"
      with s have "s = e" by simp
      with "1.prems" no_at show False by (metis hd_in_set)
    qed
    moreover from this s "1.prems" have "hd ?t = CHR ''@''" by (metis hd_append2)
    ultimately have "trim_right ?t \<noteq> [] \<and> hd (trim_right ?t) = CHR ''@''"
      using "1.IH" [OF refl] False "1.prems" by simp
    moreover have "trim_right s = trim_right ?t"
      using False "1.prems" by (subst trim_right.simps) (simp add: Let_def)
    ultimately show ?thesis by simp
  qed
qed

lemma trim_space_at:
  assumes "spec \<noteq> []" and "hd spec = CHR ''@''"
  shows "has_prefix ''@'' (trim_space spec)"
proof -
  from assms obtain t where spec: "spec = CHR ''@'' # t" by (cases spec) auto
  have "lead_space spec = 0" unfolding spec by (rule lead_space_graphic) (simp add: graphic_def)
  then have "trim_left spec = spec" by (subst trim_left.simps) (simp add: Let_def)
  with trim_right_at [OF assms] show ?thesis
    by (cases "trim_right spec") (auto simp: trim_space_def has_prefix_def)
qed

lemma Parse_five:
  assumes "length (go_fields spec) = 5" and "\<not> has_prefix ''@'' (trim_space spec)"
  shows "Parse spec = build_schedule (''0'' # go_fields spec)"
proof -
  from assms(1) have "spec \<noteq> []" by auto
  with assms(2) trim_space_at have "hd spec \<noteq> CHR ''@''" by blast
  with assms show ?thesis by (simp add: Parse_def parser_parse_standard)
qed

lemma Parse_six:
  assumes "length (go_fields spec) = 6" and "\<not> has_prefix ''@'' (trim_space spec)"
  shows "Parse spec = build_schedule (go_fields spec)"
proof -
  from assms(1) have "spec \<noteq> []" by auto
  with assms(2) trim_space_at have "hd spec \<noteq> CHR ''@''" by blast
  with assms show ?thesis by (simp add: Parse_def parser_parse_seconds)
qed

lemma Parse_at:
  assumes "has_prefix ''@'' (trim_space spec)"
  shows "Parse spec = parse_descriptor (trim_space spec)"
  using assms by (cases "trim_space spec") (auto simp: Parse_def parser_parse_def has_prefix_def option_defs)

lemmas Parse_cases = Parse_five Parse_six Parse_at

lemma Parse_correct:
  "case Parse spec of
     Inl e \<Rightarrow> e \<noteq> Diverges \<and> e \<noteq> Panics
   | Inr sch \<Rightarrow> wf_sched sch"
proof -
  have build: "case build_schedule fs of Inl e \<Rightarrow> e \<noteq> Diverges \<and> e \<noteq> Panics | Inr sch \<Rightarrow> wf_sched sch"
    for fs
    using build_schedule_error [of fs] build_schedule_wf [of fs]
    by (cases "build_schedule fs") (auto simp: wf_sched_def)
  consider "has_prefix ''@'' (trim_space spec)"
    | "\<not> has_prefix ''@'' (trim_space spec)" "length (go_fields spec) = 5"
    | "\<not> has_prefix ''@'' (trim_space spec)" "length (go_fields spec) = 6"
    | "\<not> has_prefix ''@'' (trim_space spec)" "length (go_fields spec) \<noteq> 5" "length (go_fields spec) \<noteq> 6"
    by blast
  then show ?thesis
  proof cases
    case 1
    then show ?thesis using parse_descriptor_correct by (simp add: Parse_at)
  next
    case 2
    then show ?thesis using build by (simp add: Parse_five)
  next
    case 3
    then show ?thesis using build by (simp add: Parse_six)
  next
    case 4
    then show ?thesis by (simp add: Parse_def)
  qed
qed

end
