(* ===== verification/Go_Time.thy ===== *)
theory Go_Time
  imports Gua_Prelude
begin

text \<open>
  The part of Go's \<open>time\<close> package the scheduler uses. An instant is the \<^typ>\<open>int\<close>
  number of nanoseconds since the Unix epoch, so \<open>t.Add(d)\<close> is \<open>t + d\<close>, \<open>t.Unix()\<close> is
  \<open>t div 10^9\<close> and \<open>t.Nanosecond()\<close> is \<open>t mod 10^9\<close>. A location is its lookup function:
  the offset in force at a Unix second, with the bounds of that period.
\<close>

section \<open>The proleptic Gregorian calendar\<close>

definition leap :: "int \<Rightarrow> bool" where
  "leap y \<longleftrightarrow> y mod 4 = 0 \<and> (y mod 100 \<noteq> 0 \<or> y mod 400 = 0)"

text \<open>The number of the day (0 is 1970-01-01) that starts a year.\<close>

definition year_start :: "int \<Rightarrow> int" where
  "year_start y = 365 * (y - 1970) + (y - 1) div 4 - (y - 1) div 100 + (y - 1) div 400 - 477"

lemma div_pred:
  fixes k y :: int
  assumes "0 < k"
  shows "y div k = (y - 1) div k + (if y mod k = 0 then 1 else 0)"
proof (cases "y mod k = 0")
  case True
  with mult_div_mod_eq [of k y] have y: "y = k * (y div k)" by simp
  have "k * (y div k - 1) + (k - 1) = k * (y div k) - 1" by (simp add: right_diff_distrib)
  with y have "y - 1 = k * (y div k - 1) + (k - 1)" by simp
  from int_div_pos_eq [OF this] assms have "(y - 1) div k = y div k - 1" by simp
  with True show ?thesis by simp
next
  case False
  have "y - 1 = k * (y div k) + (y mod k - 1)" by simp
  moreover from False assms have "0 \<le> y mod k - 1"
    using pos_mod_sign [OF assms, of y] by linarith
  moreover have "y mod k - 1 < k" using pos_mod_bound [OF assms, of y] by linarith
  ultimately have "(y - 1) div k = y div k" by (rule int_div_pos_eq)
  with False show ?thesis by simp
qed

lemma mod_400_100: "(y :: int) mod 400 = 0 \<Longrightarrow> y mod 100 = 0"
proof -
  have "(100 :: int) dvd 400" by simp
  then show "y mod 400 = 0 \<Longrightarrow> y mod 100 = 0" by (meson dvd_trans mod_eq_0_iff_dvd)
qed

lemma mod_100_4: "(y :: int) mod 100 = 0 \<Longrightarrow> y mod 4 = 0"
proof -
  have "(4 :: int) dvd 100" by simp
  then show "y mod 100 = 0 \<Longrightarrow> y mod 4 = 0" by (meson dvd_trans mod_eq_0_iff_dvd)
qed

lemma year_start_Suc: "year_start (y + 1) = year_start y + (if leap y then 366 else 365)"
proof -
  define c :: "int \<Rightarrow> int" where "c = (\<lambda>k. if y mod k = 0 then 1 else 0)"
  have d: "y div k = (y - 1) div k + c k" if "0 < k" for k
    using div_pred [OF that, of y] by (simp only: c_def)
  have gen: "365 * (y + 1 - 1970) + (p + i) - (q + j) + (r + k) - 477 =
      365 * (y - 1970) + p - q + r - 477 + (365 + i - j + k)" for p q r i j k :: int
    by simp
  have "year_start (y + 1) = year_start y + (365 + c 4 - c 100 + c 400)"
    using gen [of "(y - 1) div 4" "c 4" "(y - 1) div 100" "c 100" "(y - 1) div 400" "c 400"]
    by (simp only: year_start_def add_diff_cancel_right' d zero_less_numeral)
  moreover have "365 + c 4 - c 100 + c 400 = (if leap y then 366 else 365)"
  proof (cases "y mod 100 = 0")
    case True
    with mod_100_4 [of y] show ?thesis by (simp add: c_def leap_def)
  next
    case False
    with mod_400_100 [of y] show ?thesis by (auto simp: c_def leap_def)
  qed
  ultimately show ?thesis by simp
qed

lemma year_start_less: "y < z \<Longrightarrow> year_start y + 365 \<le> year_start z"
proof (induction "nat (z - y)" arbitrary: z rule: less_induct)
  case less
  have step: "year_start (z - 1) + 365 \<le> year_start z"
    using year_start_Suc [of "z - 1"] by (simp split: if_splits)
  show ?case
  proof (cases "z = y + 1")
    case True
    with step show ?thesis by simp
  next
    case False
    with less.prems less.hyps [of "z - 1"] step show ?thesis by simp
  qed
qed

lemma year_start_mono: "y \<le> z \<Longrightarrow> year_start y \<le> year_start z"
  using year_start_less [of y z] by (cases "y = z") auto

text \<open>The year a day lies in: an estimate from the length of a 400-year cycle, corrected by one.\<close>

definition year_of_day :: "int \<Rightarrow> int" where
  "year_of_day d =
     (let y = 1970 + (400 * d) div 146097 in
      if d < year_start y then y - 1 else if year_start (y + 1) \<le> d then y + 1 else y)"

lemma year_start_bounds:
  "146097 * (y - 1970) - 506 \<le> 400 * year_start y \<and>
   400 * year_start y \<le> 146097 * (y - 1970) + 589"
proof -
  have "k * (x div k) \<le> x \<and> x < k * (x div k) + k" if "0 < k" for k x :: int
    using that pos_mod_bound [OF that, of x] pos_mod_sign [OF that, of x]
      mult_div_mod_eq [of k x] by linarith
  from this [of 4 "y - 1"] this [of 100 "y - 1"] this [of 400 "y - 1"]
  show ?thesis by (simp add: year_start_def)
qed

lemma year_of_day_bounds:
  "year_start (year_of_day d) \<le> d \<and> d < year_start (year_of_day d + 1)"
proof -
  define q where "q = (400 * d) div 146097"
  define y where "y = 1970 + q"
  have "146097 * q \<le> 400 * d" and "400 * d < 146097 * q + 146097"
    using mult_div_mod_eq [of 146097 "400 * d"] pos_mod_bound [of 146097 "400 * d"]
      pos_mod_sign [of 146097 "400 * d"] unfolding q_def by linarith+
  with year_start_bounds [of "y - 1"] year_start_bounds [of "y + 2"]
  have "year_start (y - 1) \<le> d" and "d < year_start (y + 2)"
    unfolding y_def by (auto simp: algebra_simps)
  moreover have "y + 1 + 1 = y + 2" and "y - 1 + 1 = y" by simp_all
  ultimately show ?thesis
    unfolding year_of_day_def Let_def q_def [symmetric] y_def [symmetric] by (simp only: split: if_split) (metis not_less)
qed

lemma year_of_day_unique:
  assumes "year_start y \<le> d" and "d < year_start (y + 1)"
  shows "year_of_day d = y"
proof (rule ccontr)
  assume "year_of_day d \<noteq> y"
  then have "y + 1 \<le> year_of_day d \<or> year_of_day d + 1 \<le> y" by linarith
  then show False
    using assms year_of_day_bounds [of d] year_start_mono by (meson dual_order.trans not_less)
qed

text \<open>
  The day of the year (from 0) that starts month \<open>m\<close> (from 0; 12 is the end of the year).
\<close>

definition month_offset :: "bool \<Rightarrow> int \<Rightarrow> int" where
  "month_offset lp m =
     (if m \<le> 0 then 0 else if m = 1 then 31
      else (if lp then 1 else 0) +
        (if m = 2 then 59 else if m = 3 then 90 else if m = 4 then 120 else if m = 5 then 151
         else if m = 6 then 181 else if m = 7 then 212 else if m = 8 then 243
         else if m = 9 then 273 else if m = 10 then 304 else if m = 11 then 334 else 365))"

definition month_of_yday :: "bool \<Rightarrow> int \<Rightarrow> int" where
  "month_of_yday lp n =
     (if n < month_offset lp 1 then 0 else if n < month_offset lp 2 then 1
      else if n < month_offset lp 3 then 2 else if n < month_offset lp 4 then 3
      else if n < month_offset lp 5 then 4 else if n < month_offset lp 6 then 5
      else if n < month_offset lp 7 then 6 else if n < month_offset lp 8 then 7
      else if n < month_offset lp 9 then 8 else if n < month_offset lp 10 then 9
      else if n < month_offset lp 11 then 10 else 11)"

text \<open>The day that starts month \<open>k\<close>, where months are numbered \<open>12 * year + month\<close> from 0.\<close>

definition month_start :: "int \<Rightarrow> int" where
  "month_start k = year_start (k div 12) + month_offset (leap (k div 12)) (k mod 12)"

definition month_index :: "int \<Rightarrow> int" where
  "month_index d =
     (let y = year_of_day d in 12 * y + month_of_yday (leap y) (d - year_start y))"

lemma month_of_yday_bounds:
  assumes "0 \<le> n" and "n < (if lp then 366 else 365)"
  shows "0 \<le> month_of_yday lp n \<and> month_of_yday lp n < 12 \<and>
    month_offset lp (month_of_yday lp n) \<le> n \<and> n < month_offset lp (month_of_yday lp n + 1)"
  using assms by (cases lp) (simp_all add: month_of_yday_def month_offset_def)

lemma div_mod_Suc:
  fixes k n :: int
  assumes "0 < n" and "k mod n + 1 < n"
  shows "(k + 1) div n = k div n \<and> (k + 1) mod n = k mod n + 1"
proof -
  have eq: "k + 1 = n * (k div n) + (k mod n + 1)" by simp
  have "0 \<le> k mod n + 1" using pos_mod_sign [OF assms(1), of k] by simp
  with int_div_pos_eq [OF eq] int_mod_pos_eq [OF eq] assms(2) show ?thesis by simp
qed

lemma div_mod_wrap:
  fixes k n :: int
  assumes "0 < n" and "k mod n + 1 = n"
  shows "(k + 1) div n = k div n + 1 \<and> (k + 1) mod n = 0"
proof -
  have "k + 1 = n * (k div n) + (k mod n + 1)" by simp
  also have "\<dots> = n * (k div n + 1) + 0" by (simp only: assms(2) distrib_left mult_1_right add_0_right)
  finally have eq: "k + 1 = n * (k div n + 1) + 0" .
  from int_div_pos_eq [OF eq] int_mod_pos_eq [OF eq] assms(1) show ?thesis by simp
qed

lemma month_start_Suc:
  "month_start (k + 1) =
     year_start (k div 12) + month_offset (leap (k div 12)) (k mod 12 + 1)"
proof (cases "k mod 12 + 1 = 12")
  case True
  with div_mod_wrap [of 12 k] show ?thesis
    by (simp add: month_start_def month_offset_def year_start_Suc)
next
  case False
  with pos_mod_bound [of 12 k] have "k mod 12 + 1 < 12" by linarith
  with div_mod_Suc [of 12 k] show ?thesis by (simp add: month_start_def)
qed

lemma month_cases:
  fixes m :: int
  shows "0 \<le> m \<Longrightarrow> m < 12 \<Longrightarrow>
    m = 0 \<or> m = 1 \<or> m = 2 \<or> m = 3 \<or> m = 4 \<or> m = 5 \<or> m = 6 \<or> m = 7 \<or> m = 8 \<or>
    m = 9 \<or> m = 10 \<or> m = 11"
  by arith

lemma month_offset_Suc:
  assumes "0 \<le> m" and "m < 12"
  shows "month_offset lp m + 28 \<le> month_offset lp (m + 1) \<and>
     month_offset lp (m + 1) \<le> month_offset lp m + 31"
  using month_cases [OF assms] by (elim disjE) (simp_all add: month_offset_def)

lemma month_start_step: "month_start k + 28 \<le> month_start (k + 1) \<and> month_start (k + 1) \<le> month_start k + 31"
  using month_offset_Suc [of "k mod 12" "leap (k div 12)"] month_start_Suc [of k]
    month_start_def [of k] pos_mod_sign [of 12 k] pos_mod_bound [of 12 k]
  by linarith

lemma month_start_less: "j < k \<Longrightarrow> month_start j + 28 \<le> month_start k"
proof (induction "nat (k - j)" arbitrary: k rule: less_induct)
  case less
  have step: "month_start (k - 1) + 28 \<le> month_start k"
    using month_start_step [of "k - 1"] by simp
  show ?case
  proof (cases "k = j + 1")
    case True
    with step show ?thesis by simp
  next
    case False
    with less.prems less.hyps [of "k - 1"] step show ?thesis by simp
  qed
qed

lemma month_index_bounds:
  "month_start (month_index d) \<le> d \<and> d < month_start (month_index d + 1)"
proof -
  define y where "y = year_of_day d"
  define m where "m = month_of_yday (leap y) (d - year_start y)"
  have y: "year_start y \<le> d" "d < year_start (y + 1)"
    using year_of_day_bounds [of d] by (simp_all add: y_def)
  then have "0 \<le> d - year_start y" "d - year_start y < (if leap y then 366 else 365)"
    by (auto simp: year_start_Suc)
  from month_of_yday_bounds [OF this] have m: "0 \<le> m" "m < 12"
    "month_offset (leap y) m \<le> d - year_start y" "d - year_start y < month_offset (leap y) (m + 1)"
    by (simp_all add: m_def)
  have "month_index d = 12 * y + m" by (simp add: month_index_def Let_def y_def m_def)
  moreover from m have "(12 * y + m) div 12 = y" "(12 * y + m) mod 12 = m" by simp_all
  ultimately have "month_start (month_index d) = year_start y + month_offset (leap y) m"
    and "month_start (month_index d + 1) = year_start y + month_offset (leap y) (m + 1)"
    using month_start_Suc [of "12 * y + m"] month_start_def [of "12 * y + m"] by simp_all
  with m show ?thesis by linarith
qed

lemma month_index_unique:
  assumes "month_start k \<le> d" and "d < month_start (k + 1)"
  shows "month_index d = k"
proof (rule ccontr)
  assume "month_index d \<noteq> k"
  then consider "k + 1 < month_index d" | "k + 1 = month_index d"
    | "month_index d + 1 < k" | "month_index d + 1 = k" by linarith
  then show False
    using assms month_index_bounds [of d] month_start_less [of "k + 1" "month_index d"]
      month_start_less [of "month_index d + 1" k] by cases auto
qed

lemma year_of_day_month_index: "year_of_day d = month_index d div 12"
proof -
  have "0 \<le> month_of_yday (leap (year_of_day d)) (d - year_start (year_of_day d))"
    and "month_of_yday (leap (year_of_day d)) (d - year_start (year_of_day d)) < 12"
    using month_of_yday_bounds [of "d - year_start (year_of_day d)" "leap (year_of_day d)"]
      year_of_day_bounds [of d] year_start_Suc [of "year_of_day d"] by auto
  then show ?thesis by (simp add: month_index_def Let_def)
qed

lemma month_start_January: "month_start (12 * y) = year_start y"
  by (simp add: month_start_def month_offset_def)

section \<open>Instants and their fields\<close>

type_synonym location = "int \<Rightarrow> int \<times> int \<times> int"

text \<open>\<open>time.Time{}\<close>, the start of year 1 in UTC.\<close>

definition zero_time :: int where
  "zero_time = - 62135596800 * nanos_per_sec"

definition unix_secs :: "int \<Rightarrow> int" where
  "unix_secs t = t div nanos_per_sec"

definition local_secs :: "location \<Rightarrow> int \<Rightarrow> int" where
  "local_secs loc t = unix_secs t + fst (loc (unix_secs t))"

text \<open>The fields of a local second count.\<close>

definition year_of :: "int \<Rightarrow> int" where "year_of l = year_of_day (l div 86400)"
definition month_of :: "int \<Rightarrow> int" where "month_of l = month_index (l div 86400) mod 12 + 1"
definition mday_of :: "int \<Rightarrow> int" where
  "mday_of l = l div 86400 - month_start (month_index (l div 86400)) + 1"
definition weekday_of :: "int \<Rightarrow> int" where "weekday_of l = (l div 86400 + 4) mod 7"
definition hour_of :: "int \<Rightarrow> int" where "hour_of l = l mod 86400 div 3600"
definition minute_of :: "int \<Rightarrow> int" where "minute_of l = l mod 3600 div 60"
definition second_of :: "int \<Rightarrow> int" where "second_of l = l mod 60"

text \<open>
  \<open>time.Date\<close>: the month is normalised into the year, the other fields overflow into the
  second count, and the offset is the one in force at the result, looked up a second time
  when the first guess falls outside its period.
\<close>

definition go_date ::
  "location \<Rightarrow> int \<Rightarrow> int \<Rightarrow> int \<Rightarrow> int \<Rightarrow> int \<Rightarrow> int \<Rightarrow> int \<Rightarrow> int" where
  "go_date loc y m d h mi s ns =
     (let l = (month_start (12 * y + (m - 1)) + (d - 1)) * 86400 + h * 3600 + mi * 60 + s +
            ns div nanos_per_sec;
          (off, st, en) = loc l;
          off' = (if off = 0 then 0
                  else if l - off < st \<or> l - off \<ge> en then fst (loc (l - off)) else off)
      in (l - off') * nanos_per_sec + ns mod nanos_per_sec)"

text \<open>\<open>t.AddDate(years, months, days)\<close>.\<close>

definition add_date :: "location \<Rightarrow> int \<Rightarrow> int \<Rightarrow> int \<Rightarrow> int \<Rightarrow> int" where
  "add_date loc t years mons days =
     (let l = local_secs loc t in
      go_date loc (year_of l + years) (month_of l + mons) (mday_of l + days)
        (hour_of l) (minute_of l) (second_of l) (t mod nanos_per_sec))"

text \<open>\<open>t.Truncate(d)\<close> rounds down to a multiple of \<open>d\<close> since the zero time.\<close>

definition go_truncate :: "int \<Rightarrow> int \<Rightarrow> int" where
  "go_truncate t d = (if d \<le> 0 then t else t - (t - zero_time) mod d)"

text \<open>\<open>time.FixedZone\<close>; \<open>UTC\<close> is the one with offset 0.\<close>

definition fixed_zone :: "int \<Rightarrow> location" where
  "fixed_zone off = (\<lambda>_. (off, - (2 ^ 63), 2 ^ 63 - 1))"

definition UTC :: location where
  "UTC = fixed_zone 0"

section \<open>Fixed zones\<close>

text \<open>The whole-second instant of a local second count in a fixed zone.\<close>

definition instant :: "int \<Rightarrow> int \<Rightarrow> int" where
  "instant off l = (l - off) * nanos_per_sec"

lemma unix_secs_instant [simp]: "unix_secs (instant off l) = l - off"
  by (simp add: unix_secs_def instant_def nanos_per_sec_def)

lemma local_secs_instant [simp, time_simps]: "local_secs (fixed_zone off) (instant off l) = l"
  by (simp add: local_secs_def fixed_zone_def)

lemma instant_mod [simp]: "instant off l mod nanos_per_sec = 0"
  by (simp add: instant_def)

lemma instant_less_iff [simp, time_simps]: "instant off k < instant off l \<longleftrightarrow> k < l"
  by (simp add: instant_def nanos_per_sec_def)

lemma instant_eq_iff [simp, time_simps]: "instant off k = instant off l \<longleftrightarrow> k = l"
  by (simp add: instant_def nanos_per_sec_def)

lemma instant_le_iff [simp, time_simps]: "instant off k \<le> instant off l \<longleftrightarrow> k \<le> l"
  by (simp add: instant_def nanos_per_sec_def)

lemma whole_second_instant:
  assumes "t mod nanos_per_sec = 0"
  shows "t = instant off (local_secs (fixed_zone off) t)"
  using assms mult_div_mod_eq [of nanos_per_sec t]
  by (simp add: instant_def local_secs_def fixed_zone_def unix_secs_def mult.commute)

lemma instant_add_secs [time_simps]:
  "instant off l + k * nanos_per_sec = instant off (l + k)"
  by (simp add: instant_def algebra_simps)

lemma go_date_fixed [time_simps]:
  "go_date (fixed_zone off) y m d h mi s 0 =
     instant off ((month_start (12 * y + (m - 1)) + (d - 1)) * 86400 + h * 3600 + mi * 60 + s)"
  by (simp add: go_date_def fixed_zone_def instant_def Let_def)

text \<open>The fields of a local second count put it together again.\<close>

lemma clock_fields:
  "l = l div 86400 * 86400 + hour_of l * 3600 + minute_of l * 60 + second_of l"
proof -
  have "l mod 86400 = l mod 86400 div 3600 * 3600 + l mod 86400 mod 3600" by simp
  moreover have "l mod 86400 mod 3600 = l mod 3600" by (simp add: mod_mod_cancel)
  moreover have "l mod 3600 = l mod 3600 div 60 * 60 + l mod 3600 mod 60" by simp
  moreover have "l mod 3600 mod 60 = l mod 60" by (simp add: mod_mod_cancel)
  moreover have "l = l div 86400 * 86400 + l mod 86400" by simp
  ultimately show ?thesis unfolding hour_of_def minute_of_def second_of_def by linarith
qed

lemma month_index_fields: "12 * year_of l + (month_of l - 1) = month_index (l div 86400)"
  by (simp add: year_of_def month_of_def year_of_day_month_index)

lemma date_fields:
  "(month_start (12 * year_of l + (month_of l - 1)) + (mday_of l - 1)) * 86400 +
     hour_of l * 3600 + minute_of l * 60 + second_of l = l"
  unfolding month_index_fields mday_of_def using clock_fields [of l] by simp

end
