(* ===== verification/Cron_Next.thy ===== *)
theory Cron_Next
  imports Cron_Parser Go_Time "HOL-Library.Monad_Syntax"
begin

text \<open>
  \<open>SpecSchedule.Next\<close> and \<open>dayMatches\<close> of \<open>delayquene/spec.go\<close>, and \<open>Next\<close> of the constant
  delay schedule. The five \<open>for\<close> loops share one shape, the loop \<open>scan\<close>; a loop that leaves
  by \<open>goto WRAP\<close> says so in the first component of its result. \<open>None\<close> means that the code
  does not return: \<open>spec_next_fixed\<close> shows that this does not happen in a zone with a fixed
  offset of whole minutes (UTC is the zone of the published image), where the result is the
  first matching second after the argument.
\<close>

section \<open>The search\<close>

definition dayMatches :: "spec_schedule \<Rightarrow> int \<Rightarrow> bool" where
  "dayMatches s l =
     (let domMatch = shl64 1 (word_of_int (mday_of l)) AND Dom s > 0;
          dowMatch = shl64 1 (word_of_int (weekday_of l)) AND Dow s > 0
      in if Dom s AND starBit > 0 \<or> Dow s AND starBit > 0 then domMatch \<and> dowMatch
         else domMatch \<or> dowMatch)"

text \<open>
  \<open>for !matches(t) { if !added { added = true; t = reset(t) }; t = advance(t);
  if wrapped(t) { goto WRAP } }\<close>. The result says whether the loop wrapped, with the
  values of \<open>t\<close> and \<open>added\<close>.
\<close>

partial_function (option) scan ::
  "('t \<Rightarrow> bool) \<Rightarrow> ('t \<Rightarrow> 't) \<Rightarrow> ('t \<Rightarrow> 't) \<Rightarrow> ('t \<Rightarrow> bool) \<Rightarrow> 't \<Rightarrow> bool \<Rightarrow>
     (bool \<times> 't \<times> bool) option" where
  "scan matches reset advance wrapped t added =
     (if matches t then Some (False, t, added)
      else (let t' = advance (if added then t else reset t) in
        if wrapped t' then Some (True, t', True)
        else scan matches reset advance wrapped t' True))"

declare scan.simps [code]

definition month_matches :: "location \<Rightarrow> spec_schedule \<Rightarrow> int \<Rightarrow> bool" where
  "month_matches loc s t \<longleftrightarrow> shl64 1 (word_of_int (month_of (local_secs loc t))) AND Month s \<noteq> 0"
definition month_reset :: "location \<Rightarrow> int \<Rightarrow> int" where
  "month_reset loc t = (let l = local_secs loc t in go_date loc (year_of l) (month_of l) 1 0 0 0 0)"
definition month_advance :: "location \<Rightarrow> int \<Rightarrow> int" where
  "month_advance loc t = add_date loc t 0 1 0"
definition month_wrapped :: "location \<Rightarrow> int \<Rightarrow> bool" where
  "month_wrapped loc t \<longleftrightarrow> month_of (local_secs loc t) = 1"
definition month_loop :: "location \<Rightarrow> spec_schedule \<Rightarrow> int \<Rightarrow> bool \<Rightarrow> (bool \<times> int \<times> bool) option" where
  "month_loop loc s = scan (month_matches loc s) (month_reset loc) (month_advance loc) (month_wrapped loc)"

definition day_matches :: "location \<Rightarrow> spec_schedule \<Rightarrow> int \<Rightarrow> bool" where
  "day_matches loc s t \<longleftrightarrow> dayMatches s (local_secs loc t)"
definition day_reset :: "location \<Rightarrow> int \<Rightarrow> int" where
  "day_reset loc t = (let l = local_secs loc t in
     go_date loc (year_of l) (month_of l) (mday_of l) 0 0 0 0)"
definition day_advance :: "location \<Rightarrow> int \<Rightarrow> int" where
  "day_advance loc t = add_date loc t 0 0 1"
definition day_wrapped :: "location \<Rightarrow> int \<Rightarrow> bool" where
  "day_wrapped loc t \<longleftrightarrow> mday_of (local_secs loc t) = 1"
definition day_loop :: "location \<Rightarrow> spec_schedule \<Rightarrow> int \<Rightarrow> bool \<Rightarrow> (bool \<times> int \<times> bool) option" where
  "day_loop loc s = scan (day_matches loc s) (day_reset loc) (day_advance loc) (day_wrapped loc)"

definition hour_matches :: "location \<Rightarrow> spec_schedule \<Rightarrow> int \<Rightarrow> bool" where
  "hour_matches loc s t \<longleftrightarrow> shl64 1 (word_of_int (hour_of (local_secs loc t))) AND Hour s \<noteq> 0"
definition hour_reset :: "location \<Rightarrow> int \<Rightarrow> int" where
  "hour_reset loc t = (let l = local_secs loc t in
     go_date loc (year_of l) (month_of l) (mday_of l) (hour_of l) 0 0 0)"
definition hour_advance :: "location \<Rightarrow> int \<Rightarrow> int" where
  "hour_advance loc t = t + 3600 * nanos_per_sec"
definition hour_wrapped :: "location \<Rightarrow> int \<Rightarrow> bool" where
  "hour_wrapped loc t \<longleftrightarrow> hour_of (local_secs loc t) = 0"
definition hour_loop :: "location \<Rightarrow> spec_schedule \<Rightarrow> int \<Rightarrow> bool \<Rightarrow> (bool \<times> int \<times> bool) option" where
  "hour_loop loc s = scan (hour_matches loc s) (hour_reset loc) (hour_advance loc) (hour_wrapped loc)"

definition minute_matches :: "location \<Rightarrow> spec_schedule \<Rightarrow> int \<Rightarrow> bool" where
  "minute_matches loc s t \<longleftrightarrow> shl64 1 (word_of_int (minute_of (local_secs loc t))) AND Minute s \<noteq> 0"
definition minute_reset :: "location \<Rightarrow> int \<Rightarrow> int" where
  "minute_reset loc t = go_truncate t (60 * nanos_per_sec)"
definition minute_advance :: "location \<Rightarrow> int \<Rightarrow> int" where
  "minute_advance loc t = t + 60 * nanos_per_sec"
definition minute_wrapped :: "location \<Rightarrow> int \<Rightarrow> bool" where
  "minute_wrapped loc t \<longleftrightarrow> minute_of (local_secs loc t) = 0"
definition minute_loop :: "location \<Rightarrow> spec_schedule \<Rightarrow> int \<Rightarrow> bool \<Rightarrow> (bool \<times> int \<times> bool) option" where
  "minute_loop loc s = scan (minute_matches loc s) (minute_reset loc) (minute_advance loc) (minute_wrapped loc)"

definition second_matches :: "location \<Rightarrow> spec_schedule \<Rightarrow> int \<Rightarrow> bool" where
  "second_matches loc s t \<longleftrightarrow> shl64 1 (word_of_int (second_of (local_secs loc t))) AND Second s \<noteq> 0"
definition second_reset :: "location \<Rightarrow> int \<Rightarrow> int" where
  "second_reset loc t = go_truncate t nanos_per_sec"
definition second_advance :: "location \<Rightarrow> int \<Rightarrow> int" where
  "second_advance loc t = t + 1 * nanos_per_sec"
definition second_wrapped :: "location \<Rightarrow> int \<Rightarrow> bool" where
  "second_wrapped loc t \<longleftrightarrow> second_of (local_secs loc t) = 0"
definition second_loop :: "location \<Rightarrow> spec_schedule \<Rightarrow> int \<Rightarrow> bool \<Rightarrow> (bool \<times> int \<times> bool) option" where
  "second_loop loc s = scan (second_matches loc s) (second_reset loc) (second_advance loc) (second_wrapped loc)"

text \<open>The code from the label \<open>WRAP\<close> on.\<close>

partial_function (option) next_wrap ::
  "location \<Rightarrow> spec_schedule \<Rightarrow> int \<Rightarrow> int \<Rightarrow> bool \<Rightarrow> int option" where
  "next_wrap loc s yearLimit t added =
     (if year_of (local_secs loc t) > yearLimit then Some zero_time
      else Option.bind (month_loop loc s t added) (\<lambda>(w, t, added).
        if w then next_wrap loc s yearLimit t added
        else Option.bind (day_loop loc s t added) (\<lambda>(w, t, added).
          if w then next_wrap loc s yearLimit t added
          else Option.bind (hour_loop loc s t added) (\<lambda>(w, t, added).
            if w then next_wrap loc s yearLimit t added
            else Option.bind (minute_loop loc s t added) (\<lambda>(w, t, added).
              if w then next_wrap loc s yearLimit t added
              else Option.bind (second_loop loc s t added) (\<lambda>(w, t, added).
                if w then next_wrap loc s yearLimit t added
                else Some t))))))"

declare next_wrap.simps [code]

definition spec_next :: "location \<Rightarrow> spec_schedule \<Rightarrow> int \<Rightarrow> int option" where
  "spec_next loc s t =
     (let t1 = t + (1 * nanos_per_sec - t mod nanos_per_sec);
          yearLimit = year_of (local_secs loc t1) + 5
      in next_wrap loc s yearLimit t1 False)"

definition constant_next :: "int \<Rightarrow> int \<Rightarrow> int" where
  "constant_next delay t = t + (delay - t mod nanos_per_sec)"

text \<open>The interface method \<open>Schedule.Next\<close>.\<close>

definition sched_next :: "location \<Rightarrow> schedule \<Rightarrow> int \<Rightarrow> int option" where
  "sched_next loc sch t =
     (case sch of SpecSchedule s \<Rightarrow> spec_next loc s t
      | ConstantDelaySchedule d \<Rightarrow> Some (constant_next d t))"

end
