(* ===== verification/Cron_Search.thy ===== *)
theory Cron_Search
  imports Cron_Next
begin

text \<open>
  Correctness of the search of \<open>SpecSchedule.Next\<close>. The local time line is cut into cells
  (years, months, days, hours, minutes, seconds), each kind nested in the one before it. A
  loop of the code moves to the first cell of its kind that matches, unless it reaches the
  end of the enclosing cell first, which is where it jumps back to \<open>WRAP\<close>. The locales
  state this contract once; each loop is an interpretation.
\<close>

section \<open>Cells\<close>

lemma scan_match:
  "matches t \<Longrightarrow> scan matches reset advance wrapped t added = Some (False, t, added)"
  by (subst scan.simps) simp

lemma scan_wrap:
  "\<not> matches t \<Longrightarrow> wrapped (advance (if added then t else reset t)) \<Longrightarrow>
     scan matches reset advance wrapped t added =
       Some (True, advance (if added then t else reset t), True)"
  by (subst scan.simps) (simp only: Let_def if_True if_False)

lemma scan_step:
  "\<not> matches t \<Longrightarrow> \<not> wrapped (advance (if added then t else reset t)) \<Longrightarrow>
     scan matches reset advance wrapped t added =
       scan matches reset advance wrapped (advance (if added then t else reset t)) True"
  by (subst scan.simps) (simp only: Let_def if_True if_False)

locale cells =
  fixes lo hi :: "int \<Rightarrow> int"
  assumes cell_in: "lo l \<le> l \<and> l < hi l"
    and cell_eq: "lo l \<le> k \<Longrightarrow> k < hi l \<Longrightarrow> lo k = lo l \<and> hi k = hi l"
begin

lemma lo_lo [simp]: "lo (lo l) = lo l" and hi_lo [simp]: "hi (lo l) = hi l"
  using cell_eq [of l "lo l"] cell_in [of l] by auto

lemma lo_hi [simp]: "lo (hi l) = hi l"
proof (rule ccontr)
  assume "lo (hi l) \<noteq> hi l"
  with cell_in [of "hi l"] have "lo (hi l) \<le> hi l - 1" by force
  with cell_in [of "hi l"] have "hi (hi l - 1) = hi (hi l)"
    using cell_eq [of "hi l" "hi l - 1"] by force
  moreover have "hi (hi l - 1) = hi l" using cell_eq [of l "hi l - 1"] cell_in [of l] by auto
  ultimately show False using cell_in [of "hi l"] by simp
qed

end

locale nested_cells = cells lo hi + outer: cells olo ohi
  for lo hi olo ohi :: "int \<Rightarrow> int" +
  assumes nested: "olo l \<le> lo l \<and> hi l \<le> ohi l"
begin

lemma aligned_inner: "olo l = l \<Longrightarrow> lo l = l"
  using nested [of l] cell_in [of l] by simp

lemma outer_same: "lo l \<le> k \<Longrightarrow> k < hi l \<Longrightarrow> olo k = olo l \<and> ohi k = ohi l"
  using outer.cell_eq [of l k] nested [of l] by simp

lemma outer_end: "olo (hi l) = hi l \<longleftrightarrow> hi l = ohi l"
proof
  assume "olo (hi l) = hi l"
  show "hi l = ohi l"
  proof (rule ccontr)
    assume "hi l \<noteq> ohi l"
    with nested [of l] have "hi l < ohi l" by force
    moreover have "olo l \<le> hi l" using nested [of l] cell_in [of l] by simp
    ultimately have "olo (hi l) = olo l" using outer.cell_eq by blast
    with \<open>olo (hi l) = hi l\<close> nested [of l] cell_in [of l] show False by simp
  qed
next
  assume "hi l = ohi l"
  then show "olo (hi l) = hi l" by simp
qed

end

text \<open>
  One loop: states \<open>'t\<close> seen through \<open>sec\<close>, a match predicate that is constant on the
  cells, and the three steps of the code.
\<close>

locale scan_level = nested_cells lo hi olo ohi
  for lo hi olo ohi :: "int \<Rightarrow> int" +
  fixes m :: "int \<Rightarrow> bool" and ok :: "'t \<Rightarrow> bool" and sec :: "'t \<Rightarrow> int"
    and matches :: "'t \<Rightarrow> bool" and reset advance :: "'t \<Rightarrow> 't" and wrapped :: "'t \<Rightarrow> bool"
  assumes m_cell: "lo l \<le> k \<Longrightarrow> k < hi l \<Longrightarrow> m k = m l"
    and matches_m: "ok t \<Longrightarrow> matches t = m (sec t)"
    and reset_lo: "ok t \<Longrightarrow> ok (reset t) \<and> sec (reset t) = lo (sec t)"
    and advance_hi: "ok t \<Longrightarrow> lo (sec t) = sec t \<Longrightarrow> ok (advance t) \<and> sec (advance t) = hi (sec t)"
    and wrapped_olo: "ok t \<Longrightarrow> lo (sec t) = sec t \<Longrightarrow> wrapped t \<longleftrightarrow> olo (sec t) = sec t"
begin

definition found :: "'t \<Rightarrow> bool \<Rightarrow> bool \<Rightarrow> 't \<Rightarrow> bool \<Rightarrow> bool" where
  "found t added w t' added' \<longleftrightarrow>
     ok t' \<and> sec t \<le> sec t' \<and> (\<forall>u. sec t \<le> u \<and> u < sec t' \<longrightarrow> \<not> m u) \<and>
     (if w then sec t' = ohi (sec t) \<and> added'
      else sec t' < ohi (sec t) \<and> m (sec t') \<and>
        (t' = t \<and> added' = added \<or> added' \<and> lo (sec t') = sec t'))"

lemma scan_found:
  assumes "ok t" and "added \<Longrightarrow> m (sec t) \<or> lo (sec t) = sec t"
  shows "\<exists>w t' added'. scan matches reset advance wrapped t added = Some (w, t', added') \<and>
    found t added w t' added'"
  using assms
proof (induction "nat (ohi (sec t) - sec t)" arbitrary: t added rule: less_induct)
  case less
  show ?case
  proof (cases "matches t")
    case True
    with less.prems(1) outer.cell_in [of "sec t"] have "found t added False t added"
      by (auto simp: found_def matches_m)
    with scan_match [of matches t, OF True] show ?thesis by blast
  next
    case False
    with less.prems have no: "\<not> m (sec t)" by (simp add: matches_m)
    let ?r = "if added then t else reset t"
    from less.prems no have r: "ok ?r" "sec ?r = lo (sec t)" by (auto simp: reset_lo)
    then have adv: "ok (advance ?r)" "sec (advance ?r) = hi (sec t)"
      using advance_hi [of ?r] by auto
    have none: "\<not> m u" if "sec t \<le> u" "u < hi (sec t)" for u
      using m_cell [of "sec t" u] that no cell_in [of "sec t"] by auto
    have lt: "sec t < hi (sec t)" using cell_in by blast
    have wr: "wrapped (advance ?r) \<longleftrightarrow> hi (sec t) = ohi (sec t)"
      using wrapped_olo [OF adv(1)] adv(2) outer_end by simp
    show ?thesis
    proof (cases "wrapped (advance ?r)")
      case True
      with adv wr lt none have "found t added True (advance ?r) True" by (simp add: found_def)
      with scan_wrap [of matches t wrapped advance added reset, OF False True] show ?thesis by blast
    next
      case nwr: False
      with wr nested [of "sec t"] have below: "hi (sec t) < ohi (sec t)" by force
      then have same: "ohi (hi (sec t)) = ohi (sec t)"
        using outer.cell_eq [of "sec t" "hi (sec t)"] nested [of "sec t"] cell_in [of "sec t"] by auto
      have "nat (ohi (sec (advance ?r)) - sec (advance ?r)) < nat (ohi (sec t) - sec t)"
        using adv(2) same lt below by simp
      moreover have "m (sec (advance ?r)) \<or> lo (sec (advance ?r)) = sec (advance ?r)"
        using adv(2) by simp
      ultimately obtain w t' added' where
        s: "scan matches reset advance wrapped (advance ?r) True = Some (w, t', added')" and
        f: "found (advance ?r) True w t' added'"
        using less.hyps [of "advance ?r" True] adv(1) by blast
      from s scan_step [of matches t wrapped advance added reset, OF False nwr]
      have "scan matches reset advance wrapped t added = Some (w, t', added')" by simp
      moreover have "found t added w t' added'"
        using f adv(2) same lt none unfolding found_def
        by (auto split: if_splits) (meson not_less)+
      ultimately show ?thesis by blast
    qed
  qed
qed

end

section \<open>The calendar's cells\<close>

definition block_lo :: "int \<Rightarrow> int \<Rightarrow> int" where "block_lo n l = l div n * n"
definition block_hi :: "int \<Rightarrow> int \<Rightarrow> int" where "block_hi n l = (l div n + 1) * n"

lemma block_bounds:
  fixes n l :: int
  assumes "0 < n"
  shows "l div n * n \<le> l \<and> l < (l div n + 1) * n"
proof -
  have "(l div n + 1) * n = l div n * n + n" by (simp add: distrib_right)
  then show ?thesis
    using div_mult_mod_eq [of l n] pos_mod_sign [OF assms, of l] pos_mod_bound [OF assms, of l]
    by linarith
qed

lemma block_eq:
  fixes n l k :: int
  assumes "0 < n" and "l div n * n \<le> k" and "k < (l div n + 1) * n"
  shows "k div n = l div n"
proof -
  have "k = n * (l div n) + (k - l div n * n)" by (simp add: mult.commute)
  from int_div_pos_eq [OF this] assms show ?thesis by (auto simp: distrib_right)
qed

lemma block_cells: "0 < n \<Longrightarrow> cells (block_lo n) (block_hi n)"
proof (rule cells.intro)
  fix l k :: int
  assume n: "0 < n"
  show "block_lo n l \<le> l \<and> l < block_hi n l"
    using block_bounds [OF n] by (simp only: block_lo_def block_hi_def)
  show "block_lo n k = block_lo n l \<and> block_hi n k = block_hi n l"
    if "block_lo n l \<le> k" "k < block_hi n l"
    using block_eq [OF n, of l k] that by (simp only: block_lo_def block_hi_def)
qed

lemma block_nested:
  fixes n k c l :: int
  assumes "0 < k" and "0 < c" and "n = k * c"
  shows "block_lo n l \<le> block_lo k l \<and> block_hi k l \<le> block_hi n l"
proof -
  have div: "l div n = l div k div c" using assms by (simp add: zdiv_zmult2_eq)
  have "l div k div c * c \<le> l div k" and "l div k + 1 \<le> (l div k div c + 1) * c"
    using block_bounds [OF assms(2), of "l div k"] by auto
  then have "l div k div c * c * k \<le> l div k * k" and "(l div k + 1) * k \<le> (l div k div c + 1) * c * k"
    using assms(1) by (simp_all only: mult_right_mono less_imp_le)
  moreover have "x * n = x * c * k" for x by (simp add: assms(3))
  ultimately show ?thesis by (simp only: block_lo_def block_hi_def div)
qed

definition month_lo :: "int \<Rightarrow> int" where
  "month_lo l = month_start (month_index (l div 86400)) * 86400"
definition month_hi :: "int \<Rightarrow> int" where
  "month_hi l = month_start (month_index (l div 86400) + 1) * 86400"
definition year_lo :: "int \<Rightarrow> int" where
  "year_lo l = year_start (year_of l) * 86400"
definition year_hi :: "int \<Rightarrow> int" where
  "year_hi l = year_start (year_of l + 1) * 86400"

lemma day_div_le: "a * 86400 \<le> l \<longleftrightarrow> a \<le> l div (86400 :: int)"
proof -
  have "a * 86400 \<le> l \<Longrightarrow> a \<le> l div 86400"
    using zdiv_mono1 [of "a * 86400" l 86400] by simp
  moreover have "a \<le> l div 86400 \<Longrightarrow> a * 86400 \<le> l"
    using block_bounds [of 86400 l] by simp
  ultimately show ?thesis by blast
qed

lemma day_div_less: "l < a * 86400 \<longleftrightarrow> l div (86400 :: int) < a"
  using day_div_le [of a l] by linarith

lemma month_cell_index:
  "month_lo l \<le> k \<Longrightarrow> k < month_hi l \<Longrightarrow> month_index (k div 86400) = month_index (l div 86400)"
  by (simp add: month_lo_def month_hi_def day_div_le day_div_less month_index_unique)

lemma year_cell_year: "year_lo l \<le> k \<Longrightarrow> k < year_hi l \<Longrightarrow> year_of k = year_of l"
  by (simp add: year_lo_def year_hi_def year_of_def day_div_le day_div_less year_of_day_unique)

interpretation month_cells: cells month_lo month_hi
proof
  fix l k :: int
  show "month_lo l \<le> l \<and> l < month_hi l"
    using month_index_bounds [of "l div 86400"]
    by (simp add: month_lo_def month_hi_def day_div_le day_div_less)
  show "month_lo k = month_lo l \<and> month_hi k = month_hi l"
    if "month_lo l \<le> k" "k < month_hi l"
    using month_cell_index [OF that] by (simp add: month_lo_def month_hi_def)
qed

interpretation year_cells: cells year_lo year_hi
proof
  fix l k :: int
  show "year_lo l \<le> l \<and> l < year_hi l"
    using year_of_day_bounds [of "l div 86400"]
    by (simp add: year_lo_def year_hi_def year_of_def day_div_le day_div_less)
  show "year_lo k = year_lo l \<and> year_hi k = year_hi l"
    if "year_lo l \<le> k" "k < year_hi l"
    using year_cell_year [OF that] by (simp add: year_lo_def year_hi_def)
qed

interpretation day_cells: cells "block_lo 86400" "block_hi 86400"
  by (rule block_cells) simp

interpretation hour_cells: cells "block_lo 3600" "block_hi 3600"
  by (rule block_cells) simp

interpretation minute_cells: cells "block_lo 60" "block_hi 60"
  by (rule block_cells) simp

interpretation second_cells: cells "block_lo 1" "block_hi 1"
  by (rule block_cells) simp

lemma month_offset_range:
  assumes "0 \<le> m" and "m < 12"
  shows "0 \<le> month_offset lp m \<and> month_offset lp (m + 1) \<le> month_offset lp 12"
  using month_cases [OF assms] by (elim disjE) (simp_all add: month_offset_def)

lemma month_in_year: "year_lo l \<le> month_lo l \<and> month_hi l \<le> year_hi l"
proof -
  let ?k = "month_index (l div 86400)"
  have y: "year_of l = ?k div 12" by (simp add: year_of_def year_of_day_month_index)
  have m: "0 \<le> ?k mod 12" "?k mod 12 < 12" by simp_all
  have "0 \<le> month_offset (leap (?k div 12)) (?k mod 12)"
    and "month_offset (leap (?k div 12)) (?k mod 12 + 1) \<le> month_offset (leap (?k div 12)) 12"
    using month_offset_range [OF m] by blast+
  moreover have "year_start (?k div 12 + 1) = year_start (?k div 12) + month_offset (leap (?k div 12)) 12"
    by (simp add: year_start_Suc month_offset_def)
  ultimately show ?thesis
    unfolding year_lo_def year_hi_def month_lo_def month_hi_def y month_start_Suc
    unfolding month_start_def by simp
qed

lemma day_in_month: "month_lo l \<le> block_lo 86400 l \<and> block_hi 86400 l \<le> month_hi l"
  using month_index_bounds [of "l div 86400"]
  by (simp add: month_lo_def month_hi_def block_lo_def block_hi_def)

lemma hour_in_day: "block_lo 86400 l \<le> block_lo 3600 l \<and> block_hi 3600 l \<le> block_hi 86400 l"
  by (rule block_nested [where c = 24]) simp_all

lemma minute_in_hour: "block_lo 3600 l \<le> block_lo 60 l \<and> block_hi 60 l \<le> block_hi 3600 l"
  by (rule block_nested [where c = 60]) simp_all

lemma second_in_minute: "block_lo 60 l \<le> block_lo 1 l \<and> block_hi 1 l \<le> block_hi 60 l"
  by (rule block_nested [where c = 60]) simp_all

interpretation month_nest: nested_cells month_lo month_hi year_lo year_hi
  by unfold_locales (rule month_in_year)

interpretation day_nest: nested_cells "block_lo 86400" "block_hi 86400" month_lo month_hi
  by unfold_locales (rule day_in_month)

interpretation hour_nest: nested_cells "block_lo 3600" "block_hi 3600" "block_lo 86400" "block_hi 86400"
  by unfold_locales (rule hour_in_day)

interpretation minute_nest: nested_cells "block_lo 60" "block_hi 60" "block_lo 3600" "block_hi 3600"
  by unfold_locales (rule minute_in_hour)

interpretation second_nest: nested_cells "block_lo 1" "block_hi 1" "block_lo 60" "block_hi 60"
  by unfold_locales (rule second_in_minute)

section \<open>The loops of the code are such searches\<close>

text \<open>A zone whose offset is \<open>z\<close> minutes, and the whole seconds.\<close>

abbreviation zone :: "int \<Rightarrow> location" where
  "zone z \<equiv> fixed_zone (60 * z)"

definition whole :: "int \<Rightarrow> bool" where
  "whole t \<longleftrightarrow> t mod nanos_per_sec = 0"

lemma whole_instant [simp]: "whole (instant off l)"
  by (simp add: whole_def)

lemma wholeE:
  assumes "whole t"
  obtains l where "t = instant off l"
  using that whole_second_instant [of t off] assms unfolding whole_def by blast

definition month_m :: "spec_schedule \<Rightarrow> int \<Rightarrow> bool" where
  "month_m s l \<longleftrightarrow> bit (Month s) (nat (month_of l))"
definition hour_m :: "spec_schedule \<Rightarrow> int \<Rightarrow> bool" where
  "hour_m s l \<longleftrightarrow> bit (Hour s) (nat (hour_of l))"
definition minute_m :: "spec_schedule \<Rightarrow> int \<Rightarrow> bool" where
  "minute_m s l \<longleftrightarrow> bit (Minute s) (nat (minute_of l))"
definition second_m :: "spec_schedule \<Rightarrow> int \<Rightarrow> bool" where
  "second_m s l \<longleftrightarrow> bit (Second s) (nat (second_of l))"

text \<open>A local second that the schedule selects.\<close>

definition selects :: "spec_schedule \<Rightarrow> int \<Rightarrow> bool" where
  "selects s l \<longleftrightarrow> month_m s l \<and> dayMatches s l \<and> hour_m s l \<and> minute_m s l \<and> second_m s l"

lemma probe_bit:
  "0 \<le> k \<Longrightarrow> k < 2 ^ 63 \<Longrightarrow> shl64 1 (word_of_int k) AND w = 0 \<longleftrightarrow> \<not> bit w (nat k)"
  by (simp add: and_shl64_one_eq_0 unat_word_of_int_small)

lemma field_ranges:
  "1 \<le> month_of l \<and> month_of l \<le> 12" "0 \<le> hour_of l \<and> hour_of l < 24"
  "0 \<le> minute_of l \<and> minute_of l < 60" "0 \<le> second_of l \<and> second_of l < 60"
  "0 \<le> weekday_of l \<and> weekday_of l < 7" "1 \<le> mday_of l \<and> mday_of l \<le> 31"
proof -
  show "1 \<le> month_of l \<and> month_of l \<le> 12"
    using pos_mod_sign [of 12 "month_index (l div 86400)"] pos_mod_bound [of 12 "month_index (l div 86400)"]
    unfolding month_of_def by linarith
  have "l mod 86400 div 3600 < 24" and "0 \<le> l mod 86400 div 3600"
    by (simp_all add: div_less_iff_less_mult pos_imp_zdiv_nonneg_iff)
  then show "0 \<le> hour_of l \<and> hour_of l < 24" by (simp add: hour_of_def)
  have "l mod 3600 div 60 < 60" and "0 \<le> l mod 3600 div 60"
    by (simp_all add: div_less_iff_less_mult pos_imp_zdiv_nonneg_iff)
  then show "0 \<le> minute_of l \<and> minute_of l < 60" by (simp add: minute_of_def)
  show "0 \<le> second_of l \<and> second_of l < 60" by (simp add: second_of_def)
  show "0 \<le> weekday_of l \<and> weekday_of l < 7" by (simp add: weekday_of_def)
  show "1 \<le> mday_of l \<and> mday_of l \<le> 31"
    using month_index_bounds [of "l div 86400"] month_start_step [of "month_index (l div 86400)"]
    unfolding mday_of_def by linarith
qed

lemma field_of_blocks:
  "hour_of l = l div 3600 mod 24" "minute_of l = l div 60 mod 60" "second_of l = l mod 60"
proof -
  have "l mod (3600 * 24) = 3600 * (l div 3600 mod 24) + l mod 3600"
    by (rule zmod_zmult2_eq) simp
  then show "hour_of l = l div 3600 mod 24" by (simp add: hour_of_def)
  have "l mod (60 * 60) = 60 * (l div 60 mod 60) + l mod 60"
    by (rule zmod_zmult2_eq) simp
  then show "minute_of l = l div 60 mod 60" by (simp add: minute_of_def)
qed (simp add: second_of_def)

lemma block_lo_minus: "block_lo n l = l - l mod n"
  using div_mult_mod_eq [of l n] unfolding block_lo_def by linarith

lemma block_hi_minus: "block_hi n l = l - l mod n + n"
  using block_lo_minus [of n l] by (simp add: block_lo_def block_hi_def distrib_right)

lemma block_aligned: "block_lo n l = l \<longleftrightarrow> l mod n = 0"
  by (simp add: block_lo_minus)

lemma month_rest: "l - month_lo l = (mday_of l - 1) * 86400 + hour_of l * 3600 + minute_of l * 60 + second_of l"
proof -
  have "(month_start (month_index (l div 86400)) + (mday_of l - 1)) * 86400 =
      month_lo l + (mday_of l - 1) * 86400"
    unfolding month_lo_def by (rule distrib_right)
  with date_fields [of l] show ?thesis unfolding month_index_fields by linarith
qed

lemma add_date_fixed:
  "add_date (zone z) (instant (60 * z) l) 0 mons days =
     instant (60 * z) ((month_start (month_index (l div 86400) + mons) + (mday_of l + days - 1)) * 86400 +
       hour_of l * 3600 + minute_of l * 60 + second_of l)"
proof -
  have "12 * (year_of l + 0) + (month_of l + mons - 1) = month_index (l div 86400) + mons"
    by (simp add: month_index_fields [symmetric])
  moreover have "mday_of l + days - 1 = (mday_of l + days) - 1" by simp
  ultimately show ?thesis
    by (simp only: add_date_def Let_def local_secs_instant instant_mod go_date_fixed)
qed

lemma month_reset_lo: "month_reset (zone z) (instant (60 * z) l) = instant (60 * z) (month_lo l)"
  by (simp add: month_reset_def Let_def go_date_fixed month_index_fields month_lo_def)

lemma month_advance_hi:
  assumes "month_lo l = l"
  shows "month_advance (zone z) (instant (60 * z) l) = instant (60 * z) (month_hi l)"
proof -
  have "(month_start (month_index (l div 86400) + 1) + (mday_of l + 0 - 1)) * 86400 =
      month_hi l + (mday_of l - 1) * 86400"
    unfolding month_hi_def add_0_right by (rule distrib_right)
  with month_rest [of l] assms show ?thesis
    unfolding month_advance_def add_date_fixed by simp
qed

lemma month_wrapped_olo:
  assumes "month_lo l = l"
  shows "month_wrapped (zone z) (instant (60 * z) l) \<longleftrightarrow> year_lo l = l"
proof
  assume "month_wrapped (zone z) (instant (60 * z) l)"
  then have "month_index (l div 86400) = 12 * year_of l"
    using month_index_fields [of l] by (simp add: month_wrapped_def)
  with assms show "year_lo l = l" by (simp add: month_lo_def year_lo_def month_start_January)
next
  assume "year_lo l = l"
  then have "l div 86400 = month_start (12 * year_of l)"
    by (metis year_lo_def month_start_January nonzero_mult_div_cancel_right zero_neq_numeral)
  with month_start_less [of "12 * year_of l" "12 * year_of l + 1"]
  have "month_index (l div 86400) = 12 * year_of l" by (intro month_index_unique) auto
  then show "month_wrapped (zone z) (instant (60 * z) l)"
    using month_index_fields [of l] by (simp add: month_wrapped_def)
qed

lemma day_reset_lo: "day_reset (zone z) (instant (60 * z) l) = instant (60 * z) (block_lo 86400 l)"
  unfolding day_reset_def Let_def go_date_fixed local_secs_instant month_index_fields mday_of_def
  by (simp add: block_lo_def)

lemma day_advance_hi:
  assumes "block_lo 86400 l = l"
  shows "day_advance (zone z) (instant (60 * z) l) = instant (60 * z) (block_hi 86400 l)"
proof -
  have "(month_start (month_index (l div 86400)) + (mday_of l + 1 - 1)) * 86400 =
      month_lo l + (mday_of l - 1) * 86400 + 86400"
    unfolding month_lo_def by (simp add: algebra_simps)
  with month_rest [of l] have "(month_start (month_index (l div 86400) + 0) + (mday_of l + 1 - 1)) * 86400 +
      hour_of l * 3600 + minute_of l * 60 + second_of l = l + 86400"
    unfolding add_0_right by linarith
  moreover have "block_hi 86400 l = l + 86400" using assms by (simp add: block_hi_minus block_aligned)
  ultimately show ?thesis unfolding day_advance_def add_date_fixed by simp
qed

lemma day_wrapped_olo:
  assumes "block_lo 86400 l = l"
  shows "day_wrapped (zone z) (instant (60 * z) l) \<longleftrightarrow> month_lo l = l"
  using assms by (auto simp: day_wrapped_def mday_of_def month_lo_def block_lo_def)

lemma hour_split: "l mod 86400 = hour_of l * 3600 + l mod 3600"
  using div_mult_mod_eq [of "l mod 86400" 3600] by (simp add: hour_of_def mod_mod_cancel)

lemma minute_split: "l mod 3600 = minute_of l * 60 + l mod 60"
  using div_mult_mod_eq [of "l mod 3600" 60] by (simp add: minute_of_def mod_mod_cancel)

lemma hour_reset_lo: "hour_reset (zone z) (instant (60 * z) l) = instant (60 * z) (block_lo 3600 l)"
proof -
  have "block_lo 3600 l = l div 86400 * 86400 + hour_of l * 3600"
    using hour_split [of l] div_mult_mod_eq [of l 86400] unfolding block_lo_minus by linarith
  then show ?thesis
    unfolding hour_reset_def Let_def go_date_fixed local_secs_instant month_index_fields mday_of_def
    by simp
qed

lemma hour_advance_hi:
  assumes "block_lo 3600 l = l"
  shows "hour_advance (zone z) (instant (60 * z) l) = instant (60 * z) (block_hi 3600 l)"
  using assms by (simp add: hour_advance_def instant_add_secs block_hi_minus block_aligned)

lemma hour_wrapped_olo:
  assumes "block_lo 3600 l = l"
  shows "hour_wrapped (zone z) (instant (60 * z) l) \<longleftrightarrow> block_lo 86400 l = l"
  using assms hour_split [of l] field_ranges(2) [of l]
  by (auto simp: hour_wrapped_def block_aligned)

lemma truncate_fixed:
  assumes "0 < k" and "k dvd 60"
  shows "go_truncate (instant (60 * z) l) (k * nanos_per_sec) = instant (60 * z) (block_lo k l)"
proof -
  obtain c where c: "60 = k * c" using assms(2) by (rule dvdE)
  have "instant (60 * z) l - zero_time = (l + 60 * (1035593280 - z)) * nanos_per_sec"
    by (simp add: instant_def zero_time_def algebra_simps)
  also have "\<dots> mod (k * nanos_per_sec) = (l + 60 * (1035593280 - z)) mod k * nanos_per_sec"
    by (simp add: mod_mult_mult2)
  also have "(l + 60 * (1035593280 - z)) mod k = l mod k"
    unfolding c by (simp add: mult.assoc)
  finally show ?thesis
    using assms(1)
    by (simp add: go_truncate_def block_lo_minus instant_def mult_le_0_iff algebra_simps
        not_le nanos_per_sec_def)
qed

lemma minute_reset_lo: "minute_reset (zone z) (instant (60 * z) l) = instant (60 * z) (block_lo 60 l)"
  using truncate_fixed [of 60] by (simp add: minute_reset_def)

lemma second_reset_lo: "second_reset (zone z) (instant (60 * z) l) = instant (60 * z) (block_lo 1 l)"
  using truncate_fixed [of 1] by (simp add: second_reset_def)

lemma minute_advance_hi:
  assumes "block_lo 60 l = l"
  shows "minute_advance (zone z) (instant (60 * z) l) = instant (60 * z) (block_hi 60 l)"
  using assms by (simp add: minute_advance_def instant_add_secs block_hi_minus block_aligned)

lemma second_advance_hi:
  "second_advance (zone z) (instant (60 * z) l) = instant (60 * z) (block_hi 1 l)"
  using instant_add_secs [of "60 * z" l 1] by (simp add: second_advance_def block_hi_minus)

lemma minute_wrapped_olo:
  assumes "block_lo 60 l = l"
  shows "minute_wrapped (zone z) (instant (60 * z) l) \<longleftrightarrow> block_lo 3600 l = l"
  using assms minute_split [of l] by (auto simp: minute_wrapped_def block_aligned)

lemma second_wrapped_olo:
  "second_wrapped (zone z) (instant (60 * z) l) \<longleftrightarrow> block_lo 60 l = l"
  by (simp add: second_wrapped_def block_aligned second_of_def)

end
