(* ===== verification/Cron_Correct.thy ===== *)
theory Cron_Correct
  imports Cron_Search
begin

text \<open>
  What \<open>SpecSchedule.Next\<close> returns: the five loops as interpretations of the search
  contract, and their composition around the label \<open>WRAP\<close>.
\<close>

section \<open>The five loops\<close>

context scan_level begin

lemma m_stay: "m l \<Longrightarrow> l \<le> k \<Longrightarrow> k < hi l \<Longrightarrow> m k"
  using m_cell [of l k] cell_in [of l] by auto

lemma m_keep: "m l \<Longrightarrow> l \<le> k \<Longrightarrow> k \<le> hi l \<Longrightarrow> m k \<or> lo k = k"
  using m_stay [of l k] by (cases "k = hi l") auto

lemma scan_bind:
  assumes "ok t" and "added \<Longrightarrow> m (sec t) \<or> lo (sec t) = sec t"
    and "\<And>t'. found t added True t' True \<Longrightarrow> P (f (True, t', True))"
    and "\<And>t' a. found t added False t' a \<Longrightarrow> P (f (False, t', a))"
  shows "P (Option.bind (scan matches reset advance wrapped t added) f)"
proof -
  from scan_found [OF assms(1,2)] obtain w t' a where
    s: "scan matches reset advance wrapped t added = Some (w, t', a)" and f: "found t added w t' a"
    by blast
  show ?thesis
  proof (cases w)
    case True
    with f have "a" by (simp add: found_def)
    with True f s assms(3) show ?thesis by simp
  next
    case False
    with f s assms(4) show ?thesis by simp
  qed
qed

end

lemma cell_div:
  assumes "0 < n" and "block_lo n l \<le> k" and "k < block_hi n l"
  shows "k div n = l div n"
  using block_eq [of n l k] assms by (simp add: block_lo_def block_hi_def)

lemma month_m_cell: "month_lo l \<le> k \<Longrightarrow> k < month_hi l \<Longrightarrow> month_m s k = month_m s l"
  using month_cell_index [of l k] by (simp add: month_m_def month_of_def)

lemma dayMatches_cell:
  "block_lo 86400 l \<le> k \<Longrightarrow> k < block_hi 86400 l \<Longrightarrow> dayMatches s k = dayMatches s l"
  using cell_div [of 86400 l k] by (simp add: dayMatches_def mday_of_def weekday_of_def)

lemma hour_m_cell: "block_lo 3600 l \<le> k \<Longrightarrow> k < block_hi 3600 l \<Longrightarrow> hour_m s k = hour_m s l"
  using cell_div [of 3600 l k] by (simp add: hour_m_def field_of_blocks)

lemma minute_m_cell: "block_lo 60 l \<le> k \<Longrightarrow> k < block_hi 60 l \<Longrightarrow> minute_m s k = minute_m s l"
  using cell_div [of 60 l k] by (simp add: minute_m_def field_of_blocks)

lemma second_m_cell: "block_lo 1 l \<le> k \<Longrightarrow> k < block_hi 1 l \<Longrightarrow> second_m s k = second_m s l"
  using cell_div [of 1 l k] by simp

text \<open>The state of a loop: a whole second, read as a local second count.\<close>

abbreviation secs :: "int \<Rightarrow> int \<Rightarrow> int" where
  "secs z \<equiv> local_secs (zone z)"

interpretation months: scan_level month_lo month_hi year_lo year_hi "month_m s" whole "secs z"
  "month_matches (zone z) s" "month_reset (zone z)" "month_advance (zone z)" "month_wrapped (zone z)"
  for z s
proof unfold_locales
  fix l k t :: int
  show "month_lo l \<le> k \<Longrightarrow> k < month_hi l \<Longrightarrow> month_m s k = month_m s l" by (rule month_m_cell)
  assume "whole t"
  then obtain l where t: "t = instant (60 * z) l" by (rule wholeE)
  show "month_matches (zone z) s t = month_m s (secs z t)"
    using field_ranges(1) [of l] by (simp add: t month_matches_def month_m_def probe_bit)
  show "whole (month_reset (zone z) t) \<and> secs z (month_reset (zone z) t) = month_lo (secs z t)"
    by (simp add: t month_reset_lo)
  assume "month_lo (secs z t) = secs z t"
  then show "whole (month_advance (zone z) t) \<and> secs z (month_advance (zone z) t) = month_hi (secs z t)"
    and "month_wrapped (zone z) t \<longleftrightarrow> year_lo (secs z t) = secs z t"
    by (simp_all add: t month_advance_hi month_wrapped_olo)
qed

interpretation days: scan_level "block_lo 86400" "block_hi 86400" month_lo month_hi "dayMatches s"
  whole "secs z" "day_matches (zone z) s" "day_reset (zone z)" "day_advance (zone z)"
  "day_wrapped (zone z)"
  for z s
proof unfold_locales
  fix l k t :: int
  show "block_lo 86400 l \<le> k \<Longrightarrow> k < block_hi 86400 l \<Longrightarrow> dayMatches s k = dayMatches s l"
    by (rule dayMatches_cell)
  assume "whole t"
  then obtain l where t: "t = instant (60 * z) l" by (rule wholeE)
  show "day_matches (zone z) s t = dayMatches s (secs z t)" by (simp add: day_matches_def)
  show "whole (day_reset (zone z) t) \<and> secs z (day_reset (zone z) t) = block_lo 86400 (secs z t)"
    by (simp add: t day_reset_lo)
  assume "block_lo 86400 (secs z t) = secs z t"
  then show "whole (day_advance (zone z) t) \<and> secs z (day_advance (zone z) t) = block_hi 86400 (secs z t)"
    and "day_wrapped (zone z) t \<longleftrightarrow> month_lo (secs z t) = secs z t"
    by (simp_all add: t day_advance_hi day_wrapped_olo)
qed

interpretation hours: scan_level "block_lo 3600" "block_hi 3600" "block_lo 86400" "block_hi 86400"
  "hour_m s" whole "secs z" "hour_matches (zone z) s" "hour_reset (zone z)" "hour_advance (zone z)"
  "hour_wrapped (zone z)"
  for z s
proof unfold_locales
  fix l k t :: int
  show "block_lo 3600 l \<le> k \<Longrightarrow> k < block_hi 3600 l \<Longrightarrow> hour_m s k = hour_m s l"
    by (rule hour_m_cell)
  assume "whole t"
  then obtain l where t: "t = instant (60 * z) l" by (rule wholeE)
  show "hour_matches (zone z) s t = hour_m s (secs z t)"
    using field_ranges(2) [of l] by (simp add: t hour_matches_def hour_m_def probe_bit)
  show "whole (hour_reset (zone z) t) \<and> secs z (hour_reset (zone z) t) = block_lo 3600 (secs z t)"
    by (simp add: t hour_reset_lo)
  assume "block_lo 3600 (secs z t) = secs z t"
  then show "whole (hour_advance (zone z) t) \<and> secs z (hour_advance (zone z) t) = block_hi 3600 (secs z t)"
    and "hour_wrapped (zone z) t \<longleftrightarrow> block_lo 86400 (secs z t) = secs z t"
    by (simp_all add: t hour_advance_hi hour_wrapped_olo)
qed

interpretation minutes: scan_level "block_lo 60" "block_hi 60" "block_lo 3600" "block_hi 3600"
  "minute_m s" whole "secs z" "minute_matches (zone z) s" "minute_reset (zone z)"
  "minute_advance (zone z)" "minute_wrapped (zone z)"
  for z s
proof unfold_locales
  fix l k t :: int
  show "block_lo 60 l \<le> k \<Longrightarrow> k < block_hi 60 l \<Longrightarrow> minute_m s k = minute_m s l"
    by (rule minute_m_cell)
  assume "whole t"
  then obtain l where t: "t = instant (60 * z) l" by (rule wholeE)
  show "minute_matches (zone z) s t = minute_m s (secs z t)"
    using field_ranges(3) [of l] by (simp add: t minute_matches_def minute_m_def probe_bit)
  show "whole (minute_reset (zone z) t) \<and> secs z (minute_reset (zone z) t) = block_lo 60 (secs z t)"
    by (simp add: t minute_reset_lo)
  assume "block_lo 60 (secs z t) = secs z t"
  then show "whole (minute_advance (zone z) t) \<and> secs z (minute_advance (zone z) t) = block_hi 60 (secs z t)"
    and "minute_wrapped (zone z) t \<longleftrightarrow> block_lo 3600 (secs z t) = secs z t"
    by (simp_all add: t minute_advance_hi minute_wrapped_olo)
qed

interpretation seconds: scan_level "block_lo 1" "block_hi 1" "block_lo 60" "block_hi 60"
  "second_m s" whole "secs z" "second_matches (zone z) s" "second_reset (zone z)"
  "second_advance (zone z)" "second_wrapped (zone z)"
  for z s
proof unfold_locales
  fix l k t :: int
  show "block_lo 1 l \<le> k \<Longrightarrow> k < block_hi 1 l \<Longrightarrow> second_m s k = second_m s l"
    by (rule second_m_cell)
  assume "whole t"
  then obtain l where t: "t = instant (60 * z) l" by (rule wholeE)
  show "second_matches (zone z) s t = second_m s (secs z t)"
    using field_ranges(4) [of l] by (simp add: t second_matches_def second_m_def probe_bit)
  show "whole (second_reset (zone z) t) \<and> secs z (second_reset (zone z) t) = block_lo 1 (secs z t)"
    by (simp add: t second_reset_lo)
  assume "block_lo 1 (secs z t) = secs z t"
  then show "whole (second_advance (zone z) t) \<and> secs z (second_advance (zone z) t) = block_hi 1 (secs z t)"
    and "second_wrapped (zone z) t \<longleftrightarrow> block_lo 60 (secs z t) = secs z t"
    by (simp_all add: t second_advance_hi second_wrapped_olo)
qed

section \<open>The composition\<close>

text \<open>
  Once something has been added, every field either matches or stands at the start of its
  cell, so that no reset is missed when a loop is entered with \<open>added\<close> already set.
\<close>

definition lined :: "spec_schedule \<Rightarrow> bool \<Rightarrow> int \<Rightarrow> bool" where
  "lined s added l \<longleftrightarrow> (added \<longrightarrow>
     (month_m s l \<or> month_lo l = l) \<and> (dayMatches s l \<or> block_lo 86400 l = l) \<and>
     (hour_m s l \<or> block_lo 3600 l = l) \<and> (minute_m s l \<or> block_lo 60 l = l) \<and>
     (second_m s l \<or> block_lo 1 l = l))"

text \<open>What holds of the result of the code from \<open>WRAP\<close> on, started at local second \<open>l\<close>.\<close>

definition next_ok :: "int \<Rightarrow> spec_schedule \<Rightarrow> int \<Rightarrow> int \<Rightarrow> int option \<Rightarrow> bool" where
  "next_ok z s Y l r \<longleftrightarrow>
     (\<exists>u. r = Some (instant (60 * z) u) \<and> l \<le> u \<and> year_of u \<le> Y \<and> selects s u \<and>
        (\<forall>v. l \<le> v \<and> v < u \<longrightarrow> \<not> selects s v)) \<or>
     r = Some zero_time \<and> (\<forall>v. l \<le> v \<and> year_of v \<le> Y \<longrightarrow> \<not> selects s v)"

lemma next_ok_skip:
  assumes "next_ok z s Y k r" and "l \<le> k" and "\<And>v. l \<le> v \<Longrightarrow> v < k \<Longrightarrow> \<not> selects s v"
  shows "next_ok z s Y l r"
  using assms unfolding next_ok_def by (metis (full_types) not_less order_trans)

lemma year_le_less: "year_of l \<le> Y \<longleftrightarrow> l < year_start (Y + 1) * 86400"
proof -
  have b: "year_start (year_of l) \<le> l div 86400 \<and> l div 86400 < year_start (year_of l + 1)"
    using year_of_day_bounds by (simp add: year_of_def)
  have "year_of l \<le> Y \<longleftrightarrow> l div 86400 < year_start (Y + 1)"
    using b year_start_mono [of "year_of l + 1" "Y + 1"] year_start_mono [of "Y + 1" "year_of l"]
    by linarith
  then show ?thesis by (simp add: day_div_less)
qed

lemma year_of_mono: "k \<le> l \<Longrightarrow> year_of k \<le> year_of l"
  using year_le_less [of l "year_of l"] year_le_less [of k "year_of l"] by simp

lemmas aligned_down =
  month_nest.aligned_inner day_nest.aligned_inner hour_nest.aligned_inner
  minute_nest.aligned_inner second_nest.aligned_inner

lemma lined_month: "month_lo l = l \<Longrightarrow> lined s a l"
  using aligned_down [of l] by (simp add: lined_def)

text \<open>The matches a position already has when it is at the loop of each level.\<close>

definition reached :: "nat \<Rightarrow> spec_schedule \<Rightarrow> int \<Rightarrow> bool" where
  "reached k s l \<longleftrightarrow> (0 < k \<longrightarrow> month_m s l) \<and> (1 < k \<longrightarrow> dayMatches s l) \<and>
     (2 < k \<longrightarrow> hour_m s l) \<and> (3 < k \<longrightarrow> minute_m s l)"

text \<open>What a loop hands on: to the next loop, or to \<open>WRAP\<close> when it wrapped.\<close>

definition hands_on :: "int \<Rightarrow> spec_schedule \<Rightarrow> int \<Rightarrow> nat \<Rightarrow> int \<Rightarrow> bool \<Rightarrow> bool" where
  "hands_on z s l k t added \<longleftrightarrow>
     whole t \<and> l \<le> secs z t \<and> lined s added (secs z t) \<and> reached k s (secs z t) \<and>
     (0 < k \<longrightarrow> year_of (secs z t) = year_of l) \<and>
     (\<forall>v. l \<le> v \<and> v < secs z t \<longrightarrow> \<not> selects s v)"

lemmas cell_bounds =
  month_nest.nested day_nest.nested hour_nest.nested minute_nest.nested second_nest.nested

lemma hi_chain:
  "block_hi 60 l \<le> block_hi 3600 l" "block_hi 3600 l \<le> block_hi 86400 l"
  "block_hi 86400 l \<le> month_hi l" "month_hi l \<le> year_hi l"
  using cell_bounds by blast+

lemma year_stay: "l \<le> k \<Longrightarrow> k < year_hi l \<Longrightarrow> year_of k = year_of l"
  using year_cell_year [of l k] year_cells.cell_in [of l] by auto

lemma month_hands_on:
  assumes "months.found s z t a w t' a'" and "lined s a (secs z t)"
  shows "w \<Longrightarrow> hands_on z s (secs z t) 0 t' a' \<and> secs z t < secs z t'"
    and "\<not> w \<Longrightarrow> hands_on z s (secs z t) 1 t' a'"
proof -
  let ?l = "secs z t" and ?k = "secs z t'"
  from assms(1) have f: "whole t'" "?l \<le> ?k" "\<forall>v. ?l \<le> v \<and> v < ?k \<longrightarrow> \<not> selects s v"
    by (auto simp: months.found_def selects_def)
  show "hands_on z s ?l 0 t' a' \<and> ?l < ?k" if w
  proof -
    from that assms(1) have "?k = year_hi ?l" by (simp add: months.found_def)
    with f year_cells.cell_in [of ?l] aligned_down(1) [of ?k] show ?thesis
      by (simp add: hands_on_def reached_def lined_month)
  qed
  show "hands_on z s ?l 1 t' a'" if "\<not> w"
  proof -
    from that assms(1) have k: "?k < year_hi ?l" "month_m s ?k"
      "t' = t \<and> a' = a \<or> month_lo ?k = ?k" by (auto simp: months.found_def)
    from k(3) assms(2) have "lined s a' ?k" by (auto simp: lined_month)
    with f k year_stay [of ?l ?k] show ?thesis by (simp add: hands_on_def reached_def)
  qed
qed

lemma day_hands_on:
  assumes "days.found s z t a w t' a'" and "lined s a (secs z t)" and "month_m s (secs z t)"
  shows "w \<Longrightarrow> hands_on z s (secs z t) 0 t' a' \<and> secs z t < secs z t'"
    and "\<not> w \<Longrightarrow> hands_on z s (secs z t) 2 t' a'"
proof -
  let ?l = "secs z t" and ?k = "secs z t'"
  from assms(1) have f: "whole t'" "?l \<le> ?k" "\<forall>v. ?l \<le> v \<and> v < ?k \<longrightarrow> \<not> selects s v"
    by (auto simp: days.found_def selects_def)
  show "hands_on z s ?l 0 t' a' \<and> ?l < ?k" if w
  proof -
    from that assms(1) have "?k = month_hi ?l" by (simp add: days.found_def)
    with f month_cells.cell_in [of ?l] show ?thesis
      by (simp add: hands_on_def reached_def lined_month)
  qed
  show "hands_on z s ?l 2 t' a'" if "\<not> w"
  proof -
    from that assms(1) have k: "?k < month_hi ?l" "dayMatches s ?k"
      "t' = t \<and> a' = a \<or> block_lo 86400 ?k = ?k" by (auto simp: days.found_def)
    have m: "month_m s ?k" by (rule months.m_stay [OF assms(3) f(2) k(1)])
    from k(3) assms(2) m aligned_down(3-5) [of ?k] have "lined s a' ?k" by (auto simp: lined_def)
    with f k m year_stay [of ?l ?k] hi_chain [of ?l] show ?thesis
      by (simp add: hands_on_def reached_def)
  qed
qed

lemma hour_hands_on:
  assumes "hours.found s z t a w t' a'" and "lined s a (secs z t)"
    and "month_m s (secs z t)" and "dayMatches s (secs z t)"
  shows "w \<Longrightarrow> hands_on z s (secs z t) 0 t' a' \<and> secs z t < secs z t'"
    and "\<not> w \<Longrightarrow> hands_on z s (secs z t) 3 t' a'"
proof -
  let ?l = "secs z t" and ?k = "secs z t'"
  from assms(1) have f: "whole t'" "?l \<le> ?k" "\<forall>v. ?l \<le> v \<and> v < ?k \<longrightarrow> \<not> selects s v"
    by (auto simp: hours.found_def selects_def)
  show "hands_on z s ?l 0 t' a' \<and> ?l < ?k" if w
  proof -
    from that assms(1) have k: "?k = block_hi 86400 ?l" by (simp add: hours.found_def)
    have "month_m s ?k \<or> month_lo ?k = ?k"
      using months.m_keep [OF assms(3) f(2)] k hi_chain [of ?l] by simp
    moreover have "block_lo 86400 ?k = ?k" by (simp add: k)
    ultimately have "lined s a' ?k" using aligned_down(3-5) [of ?k] by (simp add: lined_def)
    with f k day_cells.cell_in [of ?l] show ?thesis by (simp add: hands_on_def reached_def)
  qed
  show "hands_on z s ?l 3 t' a'" if "\<not> w"
  proof -
    from that assms(1) have k: "?k < block_hi 86400 ?l" "hour_m s ?k"
      "t' = t \<and> a' = a \<or> block_lo 3600 ?k = ?k" by (auto simp: hours.found_def)
    have m: "month_m s ?k" "dayMatches s ?k"
      using months.m_stay [OF assms(3) f(2)] days.m_stay [OF assms(4) f(2)] k(1) hi_chain [of ?l]
      by simp_all
    from k(3) assms(2) m aligned_down(4,5) [of ?k] have "lined s a' ?k" by (auto simp: lined_def)
    with f k m year_stay [of ?l ?k] hi_chain [of ?l] show ?thesis
      by (simp add: hands_on_def reached_def)
  qed
qed

lemma minute_hands_on:
  assumes "minutes.found s z t a w t' a'" and "lined s a (secs z t)" and "reached 3 s (secs z t)"
  shows "w \<Longrightarrow> hands_on z s (secs z t) 0 t' a' \<and> secs z t < secs z t'"
    and "\<not> w \<Longrightarrow> hands_on z s (secs z t) 4 t' a'"
proof -
  let ?l = "secs z t" and ?k = "secs z t'"
  from assms(1) have f: "whole t'" "?l \<le> ?k" "\<forall>v. ?l \<le> v \<and> v < ?k \<longrightarrow> \<not> selects s v"
    by (auto simp: minutes.found_def selects_def)
  from assms(3) have r: "month_m s ?l" "dayMatches s ?l" "hour_m s ?l" by (simp_all add: reached_def)
  show "hands_on z s ?l 0 t' a' \<and> ?l < ?k" if w
  proof -
    from that assms(1) have k: "?k = block_hi 3600 ?l" by (simp add: minutes.found_def)
    have "month_m s ?k \<or> month_lo ?k = ?k" "dayMatches s ?k \<or> block_lo 86400 ?k = ?k"
      using months.m_keep [OF r(1) f(2)] days.m_keep [OF r(2) f(2)] k hi_chain [of ?l] by simp_all
    moreover have "block_lo 3600 ?k = ?k" by (simp add: k)
    ultimately have "lined s a' ?k" using aligned_down(4,5) [of ?k] by (simp add: lined_def)
    with f k hour_cells.cell_in [of ?l] show ?thesis by (simp add: hands_on_def reached_def)
  qed
  show "hands_on z s ?l 4 t' a'" if "\<not> w"
  proof -
    from that assms(1) have k: "?k < block_hi 3600 ?l" "minute_m s ?k"
      "t' = t \<and> a' = a \<or> block_lo 60 ?k = ?k" by (auto simp: minutes.found_def)
    have m: "month_m s ?k" "dayMatches s ?k" "hour_m s ?k"
      using months.m_stay [OF r(1) f(2)] days.m_stay [OF r(2) f(2)] hours.m_stay [OF r(3) f(2)]
        k(1) hi_chain [of ?l] by simp_all
    from k(3) assms(2) m aligned_down(5) [of ?k] have "lined s a' ?k" by (auto simp: lined_def)
    with f k m year_stay [of ?l ?k] hi_chain [of ?l] show ?thesis
      by (simp add: hands_on_def reached_def)
  qed
qed

lemma second_hands_on:
  assumes "seconds.found s z t a w t' a'" and "lined s a (secs z t)" and "reached 4 s (secs z t)"
  shows "w \<Longrightarrow> hands_on z s (secs z t) 0 t' a' \<and> secs z t < secs z t'"
    and "\<not> w \<Longrightarrow> hands_on z s (secs z t) 4 t' a' \<and> selects s (secs z t')"
proof -
  let ?l = "secs z t" and ?k = "secs z t'"
  from assms(1) have f: "whole t'" "?l \<le> ?k" "\<forall>v. ?l \<le> v \<and> v < ?k \<longrightarrow> \<not> selects s v"
    by (auto simp: seconds.found_def selects_def)
  from assms(3) have r: "month_m s ?l" "dayMatches s ?l" "hour_m s ?l" "minute_m s ?l"
    by (simp_all add: reached_def)
  show "hands_on z s ?l 0 t' a' \<and> ?l < ?k" if w
  proof -
    from that assms(1) have k: "?k = block_hi 60 ?l" by (simp add: seconds.found_def)
    have "month_m s ?k \<or> month_lo ?k = ?k" "dayMatches s ?k \<or> block_lo 86400 ?k = ?k"
      "hour_m s ?k \<or> block_lo 3600 ?k = ?k"
      using months.m_keep [OF r(1) f(2)] days.m_keep [OF r(2) f(2)] hours.m_keep [OF r(3) f(2)]
        k hi_chain [of ?l] by simp_all
    moreover have "block_lo 60 ?k = ?k" by (simp add: k)
    ultimately have "lined s a' ?k" using aligned_down(5) [of ?k] by (simp add: lined_def)
    with f k minute_cells.cell_in [of ?l] show ?thesis by (simp add: hands_on_def reached_def)
  qed
  show "hands_on z s ?l 4 t' a' \<and> selects s ?k" if "\<not> w"
  proof -
    from that assms(1) have k: "?k < block_hi 60 ?l" "second_m s ?k"
      by (auto simp: seconds.found_def)
    have m: "month_m s ?k" "dayMatches s ?k" "hour_m s ?k" "minute_m s ?k"
      using months.m_stay [OF r(1) f(2)] days.m_stay [OF r(2) f(2)] hours.m_stay [OF r(3) f(2)]
        minutes.m_stay [OF r(4) f(2)] k(1) hi_chain [of ?l] by simp_all
    with f k year_stay [of ?l ?k] hi_chain [of ?l] show ?thesis
      by (simp add: hands_on_def reached_def lined_def selects_def)
  qed
qed

text \<open>The code after each loop, as a function of what the loop returns.\<close>

definition after_loop ::
  "(int \<Rightarrow> bool \<Rightarrow> int option) \<Rightarrow> (int \<Rightarrow> bool \<Rightarrow> int option) \<Rightarrow> bool \<times> int \<times> bool \<Rightarrow> int option" where
  "after_loop W f = (\<lambda>(w, t, added). if w then W t added else f t added)"

lemma after_loop_simps [simp]:
  "after_loop W f (True, t, a) = W t a" "after_loop W f (False, t, a) = f t a"
  by (simp_all add: after_loop_def)

definition from_second where
  "from_second loc s W = (\<lambda>t a. Option.bind (second_loop loc s t a) (after_loop W (\<lambda>t a. Some t)))"
definition from_minute where
  "from_minute loc s W = (\<lambda>t a. Option.bind (minute_loop loc s t a) (after_loop W (from_second loc s W)))"
definition from_hour where
  "from_hour loc s W = (\<lambda>t a. Option.bind (hour_loop loc s t a) (after_loop W (from_minute loc s W)))"
definition from_day where
  "from_day loc s W = (\<lambda>t a. Option.bind (day_loop loc s t a) (after_loop W (from_hour loc s W)))"
definition from_month where
  "from_month loc s W = (\<lambda>t a. Option.bind (month_loop loc s t a) (after_loop W (from_day loc s W)))"

lemma next_wrap_unfold:
  "next_wrap loc s Y t a =
     (if Y < year_of (local_secs loc t) then Some zero_time
      else from_month loc s (next_wrap loc s Y) t a)"
  by (subst next_wrap.simps)
    (simp add: from_month_def from_day_def from_hour_def from_minute_def from_second_def after_loop_def)

text \<open>The code from one of the loops on is right when the code from \<open>WRAP\<close> on is.\<close>

definition wrap_ok :: "int \<Rightarrow> spec_schedule \<Rightarrow> int \<Rightarrow> int \<Rightarrow> (int \<Rightarrow> bool \<Rightarrow> int option) \<Rightarrow> bool" where
  "wrap_ok z s Y l W \<longleftrightarrow>
     (\<forall>t a. whole t \<and> lined s a (secs z t) \<and> l < secs z t \<longrightarrow> next_ok z s Y (secs z t) (W t a))"

definition loop_ok where
  "loop_ok z s Y l k f \<longleftrightarrow>
     (\<forall>t a. whole t \<and> lined s a (secs z t) \<and> l \<le> secs z t \<and> reached k s (secs z t) \<and>
        year_of (secs z t) \<le> Y \<longrightarrow> next_ok z s Y (secs z t) (f t a))"

lemma hands_on_wrap:
  assumes "hands_on z s (secs z t) 0 t' a' \<and> secs z t < secs z t'" and "wrap_ok z s Y l W"
    and "l \<le> secs z t"
  shows "next_ok z s Y (secs z t) (W t' a')"
proof (rule next_ok_skip)
  from assms(1) have h: "whole t'" "lined s a' (secs z t')" "secs z t < secs z t'"
    and none: "\<forall>v. secs z t \<le> v \<and> v < secs z t' \<longrightarrow> \<not> selects s v"
    unfolding hands_on_def by blast+
  from h assms(3) have "l < secs z t'" by linarith
  with h assms(2) show "next_ok z s Y (secs z t') (W t' a')" unfolding wrap_ok_def by blast
  show "secs z t \<le> secs z t'" using h(3) by simp
  show "\<not> selects s v" if "secs z t \<le> v" "v < secs z t'" for v using none that by blast
qed

lemma hands_on_loop:
  assumes "hands_on z s (secs z t) (Suc k) t' a'" and "loop_ok z s Y l (Suc k) f"
    and "l \<le> secs z t" and "year_of (secs z t) \<le> Y"
  shows "next_ok z s Y (secs z t) (f t' a')"
proof (rule next_ok_skip)
  from assms(1) have h: "whole t'" "lined s a' (secs z t')" "reached (Suc k) s (secs z t')"
    and le: "secs z t \<le> secs z t'" and y: "year_of (secs z t') = year_of (secs z t)"
    and none: "\<forall>v. secs z t \<le> v \<and> v < secs z t' \<longrightarrow> \<not> selects s v"
    unfolding hands_on_def by blast+
  from le assms(3) have "l \<le> secs z t'" by linarith
  moreover from y assms(4) have "year_of (secs z t') \<le> Y" by simp
  ultimately show "next_ok z s Y (secs z t') (f t' a')"
    using h assms(2) unfolding loop_ok_def by blast
  show "secs z t \<le> secs z t'" by (rule le)
  show "\<not> selects s v" if "secs z t \<le> v" "v < secs z t'" for v using none that by blast
qed

lemma from_second_ok:
  assumes "wrap_ok z s Y l W"
  shows "loop_ok z s Y l 4 (from_second (zone z) s W)"
  unfolding loop_ok_def from_second_def second_loop_def
proof (intro allI impI, elim conjE, rule seconds.scan_bind)
  fix t a
  assume t: "whole t" "lined s a (secs z t)" "l \<le> secs z t" "reached 4 s (secs z t)"
    "year_of (secs z t) \<le> Y"
  show "whole t" by (rule t)
  show "second_m s (secs z t) \<or> block_lo 1 (secs z t) = secs z t" if a using t(2) that by (simp add: lined_def)
  show "next_ok z s Y (secs z t) (after_loop W (\<lambda>t a. Some t) (True, t', True))"
    if "seconds.found s z t a True t' True" for t'
    using hands_on_wrap [OF second_hands_on(1) [OF that t(2,4)] assms t(3)] by simp
  show "next_ok z s Y (secs z t) (after_loop W (\<lambda>t a. Some t) (False, t', a'))"
    if "seconds.found s z t a False t' a'" for t' a'
  proof -
    from second_hands_on(2) [OF that t(2,4)]
    have h: "hands_on z s (secs z t) 4 t' a'" and sel: "selects s (secs z t')" by simp_all
    from h have "whole t'" by (simp add: hands_on_def)
    then obtain k where "t' = instant (60 * z) k" by (rule wholeE)
    with h sel t(5) show ?thesis by (auto simp: next_ok_def hands_on_def)
  qed
qed

lemma from_minute_ok:
  assumes "wrap_ok z s Y l W"
  shows "loop_ok z s Y l 3 (from_minute (zone z) s W)"
  unfolding loop_ok_def from_minute_def minute_loop_def
proof (intro allI impI, elim conjE, rule minutes.scan_bind)
  fix t a
  assume t: "whole t" "lined s a (secs z t)" "l \<le> secs z t" "reached 3 s (secs z t)"
    "year_of (secs z t) \<le> Y"
  show "whole t" by (rule t)
  show "minute_m s (secs z t) \<or> block_lo 60 (secs z t) = secs z t" if a using t(2) that by (simp add: lined_def)
  show "next_ok z s Y (secs z t) (after_loop W (from_second (zone z) s W) (True, t', True))"
    if "minutes.found s z t a True t' True" for t'
    using hands_on_wrap [OF minute_hands_on(1) [OF that t(2,4)] assms t(3)] by simp
  show "next_ok z s Y (secs z t) (after_loop W (from_second (zone z) s W) (False, t', a'))"
    if "minutes.found s z t a False t' a'" for t' a'
    using hands_on_loop [of z s t 3 t' a' Y l] minute_hands_on(2) [OF that t(2,4)]
      from_second_ok [OF assms] t(3,5) by simp
qed

lemma from_hour_ok:
  assumes "wrap_ok z s Y l W"
  shows "loop_ok z s Y l 2 (from_hour (zone z) s W)"
  unfolding loop_ok_def from_hour_def hour_loop_def
proof (intro allI impI, elim conjE, rule hours.scan_bind)
  fix t a
  assume t: "whole t" "lined s a (secs z t)" "l \<le> secs z t" "reached 2 s (secs z t)"
    "year_of (secs z t) \<le> Y"
  from t(4) have r: "month_m s (secs z t)" "dayMatches s (secs z t)" by (simp_all add: reached_def)
  show "whole t" by (rule t)
  show "hour_m s (secs z t) \<or> block_lo 3600 (secs z t) = secs z t" if a using t(2) that by (simp add: lined_def)
  show "next_ok z s Y (secs z t) (after_loop W (from_minute (zone z) s W) (True, t', True))"
    if "hours.found s z t a True t' True" for t'
    using hands_on_wrap [OF hour_hands_on(1) [OF that t(2) r] assms t(3)] by simp
  show "next_ok z s Y (secs z t) (after_loop W (from_minute (zone z) s W) (False, t', a'))"
    if "hours.found s z t a False t' a'" for t' a'
    using hands_on_loop [of z s t 2 t' a' Y l] hour_hands_on(2) [OF that t(2) r]
      from_minute_ok [OF assms] t(3,5) by simp
qed

lemma from_day_ok:
  assumes "wrap_ok z s Y l W"
  shows "loop_ok z s Y l 1 (from_day (zone z) s W)"
  unfolding loop_ok_def from_day_def day_loop_def
proof (intro allI impI, elim conjE, rule days.scan_bind)
  fix t a
  assume t: "whole t" "lined s a (secs z t)" "l \<le> secs z t" "reached 1 s (secs z t)"
    "year_of (secs z t) \<le> Y"
  from t(4) have r: "month_m s (secs z t)" by (simp add: reached_def)
  show "whole t" by (rule t)
  show "dayMatches s (secs z t) \<or> block_lo 86400 (secs z t) = secs z t" if a using t(2) that by (simp add: lined_def)
  show "next_ok z s Y (secs z t) (after_loop W (from_hour (zone z) s W) (True, t', True))"
    if "days.found s z t a True t' True" for t'
    using hands_on_wrap [OF day_hands_on(1) [OF that t(2) r] assms t(3)] by simp
  show "next_ok z s Y (secs z t) (after_loop W (from_hour (zone z) s W) (False, t', a'))"
    if "days.found s z t a False t' a'" for t' a'
    using hands_on_loop [of z s t 1 t' a' Y l] day_hands_on(2) [OF that t(2) r]
      from_hour_ok [OF assms] t(3,5) by (simp add: numeral_2_eq_2)
qed

lemma from_month_ok:
  assumes "wrap_ok z s Y l W"
  shows "loop_ok z s Y l 0 (from_month (zone z) s W)"
  unfolding loop_ok_def from_month_def month_loop_def
proof (intro allI impI, elim conjE, rule months.scan_bind)
  fix t a
  assume t: "whole t" "lined s a (secs z t)" "l \<le> secs z t" "year_of (secs z t) \<le> Y"
  show "whole t" by (rule t)
  show "month_m s (secs z t) \<or> month_lo (secs z t) = secs z t" if a using t(2) that by (simp add: lined_def)
  show "next_ok z s Y (secs z t) (after_loop W (from_day (zone z) s W) (True, t', True))"
    if "months.found s z t a True t' True" for t'
    using hands_on_wrap [OF month_hands_on(1) [OF that t(2)] assms t(3)] by simp
  show "next_ok z s Y (secs z t) (after_loop W (from_day (zone z) s W) (False, t', a'))"
    if "months.found s z t a False t' a'" for t' a'
    using hands_on_loop [of z s t 0 t' a' Y l] month_hands_on(2) [OF that t(2)]
      from_day_ok [OF assms] t(3,4) by simp
qed

lemma next_wrap_ok:
  assumes "whole t" and "lined s a (secs z t)"
  shows "next_ok z s Y (secs z t) (next_wrap (zone z) s Y t a)"
  using assms
proof (induction "nat (year_start (Y + 1) * 86400 - secs z t)" arbitrary: t a rule: less_induct)
  case less
  show ?case
  proof (cases "Y < year_of (secs z t)")
    case True
    then show ?thesis
      using year_of_mono [of "secs z t"] by (subst next_wrap_unfold) (fastforce simp: next_ok_def)
  next
    case False
    then have below: "secs z t < year_start (Y + 1) * 86400" by (simp add: year_le_less not_less)
    have "wrap_ok z s Y (secs z t) (next_wrap (zone z) s Y)"
      unfolding wrap_ok_def using less.hyps below by auto
    from from_month_ok [OF this] less.prems False show ?thesis
      by (subst next_wrap_unfold) (simp add: loop_ok_def reached_def)
  qed
qed

section \<open>Next\<close>

lemma upcoming_second:
  "whole (t + (1 * nanos_per_sec - t mod nanos_per_sec))"
  "secs z (t + (1 * nanos_per_sec - t mod nanos_per_sec)) = secs z t + 1"
proof -
  have t: "t + (1 * nanos_per_sec - t mod nanos_per_sec) = (t div nanos_per_sec + 1) * nanos_per_sec"
    using div_mult_mod_eq [of t nanos_per_sec] unfolding distrib_right by linarith
  show "whole (t + (1 * nanos_per_sec - t mod nanos_per_sec))" unfolding t whole_def by simp
  show "secs z (t + (1 * nanos_per_sec - t mod nanos_per_sec)) = secs z t + 1"
    unfolding t by (simp add: local_secs_def unix_secs_def fixed_zone_def nanos_per_sec_def)
qed

lemma spec_next_ok:
  "next_ok z s (year_of (secs z t + 1) + 5) (secs z t + 1) (spec_next (zone z) s t)"
  using next_wrap_ok [OF upcoming_second(1) [of t], where a = False]
  unfolding spec_next_def Let_def upcoming_second(2) by (simp add: lined_def)

lemma unix_secs_less: "unix_secs t < k \<Longrightarrow> t < k * nanos_per_sec"
proof -
  assume "unix_secs t < k"
  then have "(unix_secs t + 1) * nanos_per_sec \<le> k * nanos_per_sec"
    by (intro mult_right_mono) (simp_all add: nanos_per_sec_def)
  with div_mult_mod_eq [of t nanos_per_sec] pos_mod_bound [OF nanos_per_sec_pos, of t]
  show ?thesis unfolding unix_secs_def distrib_right mult_1_left by linarith
qed

lemma instant_later: "secs z t < u \<Longrightarrow> t < instant (60 * z) u"
  unfolding instant_def by (rule unix_secs_less) (simp add: local_secs_def fixed_zone_def)

lemma spec_next_later:
  "\<exists>r. spec_next (zone z) s t = Some r \<and> (r = zero_time \<or> t < r \<and> whole r)"
  using spec_next_ok [of z s t] unfolding next_ok_def
  by (metis instant_later whole_instant zless_add1_eq less_le_trans order.strict_iff_not linorder_not_le)

lemma constant_next_bounds:
  assumes "d mod nanos_per_sec = 0" and "0 < d"
  shows "t < constant_next d t" and "whole (constant_next d t)"
    and "constant_next d t \<le> t + d" and "t + d < constant_next d t + nanos_per_sec"
proof -
  have b: "0 \<le> t mod nanos_per_sec" "t mod nanos_per_sec < nanos_per_sec" by simp_all
  from assms obtain k where d: "d = nanos_per_sec * k" by (auto simp: mod_eq_0_iff_dvd elim: dvdE)
  with assms(2) have "0 < k" by (simp add: nanos_per_sec_def)
  then have "nanos_per_sec \<le> d" by (simp add: d nanos_per_sec_def)
  with b show "t < constant_next d t" unfolding constant_next_def by linarith
  have "constant_next d t = (k + t div nanos_per_sec) * nanos_per_sec"
    using div_mult_mod_eq [of t nanos_per_sec] by (simp add: constant_next_def d algebra_simps)
  then show "whole (constant_next d t)" by (simp add: whole_def)
  show "constant_next d t \<le> t + d" and "t + d < constant_next d t + nanos_per_sec"
    using b by (simp_all add: constant_next_def)
qed

text \<open>A second of a given month, day and clock reading.\<close>

definition second_at :: "int \<Rightarrow> int \<Rightarrow> int \<Rightarrow> int \<Rightarrow> int \<Rightarrow> int \<Rightarrow> int" where
  "second_at y m d h mi s =
     (month_start (12 * y + (m - 1)) + (d - 1)) * 86400 + (h * 3600 + mi * 60 + s)"

lemma second_at_fields:
  fixes y m d h mi s :: int
  assumes "1 \<le> m" "m \<le> 12" and "1 \<le> d" "d \<le> 28" and "0 \<le> h" "h < 24"
    and "0 \<le> mi" "mi < 60" and "0 \<le> s" "s < 60"
    and l_def: "l = second_at y m d h mi s"
  shows "year_of l = y" and "month_of l = m" and "mday_of l = d" and "hour_of l = h"
    and "minute_of l = mi" and "second_of l = s"
proof -
  let ?D = "month_start (12 * y + (m - 1)) + (d - 1)"
  let ?r = "h * 3600 + mi * 60 + s"
  have r: "0 \<le> ?r" "?r < 86400" using assms by auto
  have l: "l = 86400 * ?D + ?r" by (simp add: l_def second_at_def)
  have day: "l div 86400 = ?D" using int_div_pos_eq [OF l] r by simp
  have mod: "l mod 86400 = ?r" using int_mod_pos_eq [OF l] r by simp
  have k: "month_index ?D = 12 * y + (m - 1)"
    using month_start_step [of "12 * y + (m - 1)"] assms(3,4)
    by (intro month_index_unique) auto
  have m: "(12 * y + (m - 1)) div 12 = y" "(12 * y + (m - 1)) mod 12 = m - 1"
    using assms(1,2) by simp_all
  show "year_of l = y" using m by (simp add: year_of_def day year_of_day_month_index k)
  show "month_of l = m" using m by (simp add: month_of_def day k)
  show "mday_of l = d" by (simp add: mday_of_def day k)
  have "?r = 3600 * h + (mi * 60 + s)" "0 \<le> mi * 60 + s" "mi * 60 + s < 3600" using assms by auto
  then show "hour_of l = h" using int_div_pos_eq [of ?r 3600 h "mi * 60 + s"]
    by (simp add: hour_of_def mod)
  have "l = 3600 * (24 * ?D + h) + (mi * 60 + s)" unfolding l by (simp add: algebra_simps)
  with assms have "l mod 3600 = mi * 60 + s"
    using int_mod_pos_eq [of l 3600 "24 * ?D + h" "mi * 60 + s"] by simp
  moreover have "(mi * 60 + s) div 60 = mi" using assms by simp
  ultimately show "minute_of l = mi" by (simp add: minute_of_def)
  have "l = 60 * (60 * (24 * ?D + h) + mi) + s" unfolding l by (simp add: algebra_simps)
  with assms show "second_of l = s" using int_mod_pos_eq [of l 60 "60 * (24 * ?D + h) + mi" s]
    by (simp only: second_of_def)
qed

end
