(* ===== verification/Cron_Text.thy ===== *)
theory Cron_Text
  imports Cron_Correct
begin

text \<open>
  What the texts of the fields mean: numbers, ranges with a step, and whole patterns built
  from them, up to the local seconds the parsed schedule selects.
\<close>

section \<open>Numerals in a field\<close>

lemma to_lower_digits: "list_all is_digit s \<Longrightarrow> to_lower s = s"
proof (induction s)
  case Nil
  then show ?case by simp
next
  case (Cons c s)
  then have c: "48 \<le> (of_char c :: int)" "(of_char c :: int) \<le> 57" by (simp_all add: is_digit_def)
  then have "c \<noteq> CHR 0xC4" "c \<noteq> CHR 0xE2" by auto
  moreover have "lower_char c = c"
  proof -
    have "(of_char c :: int) = int (of_char c :: nat)" by (simp add: of_nat_of_char)
    with c(2) have "(of_char c :: nat) \<le> 57" by linarith
    then show ?thesis by (simp add: lower_char_def)
  qed
  ultimately show ?case using Cons by (simp add: has_prefix_def)
qed

lemma digits_no_sep:
  "list_all is_digit s \<Longrightarrow> c \<in> set s \<Longrightarrow> is_digit c"
  by (auto simp: list_all_iff)

lemma numeral_chars:
  assumes "0 \<le> a"
  shows "show_int a = show_digits a" and "list_all is_digit (show_int a)" and "show_int a \<noteq> []"
    and "CHR '','' \<notin> set (show_int a)" and "CHR ''-'' \<notin> set (show_int a)"
    and "CHR ''/'' \<notin> set (show_int a)" and "show_int a \<noteq> ''*''" and "show_int a \<noteq> ''?''"
proof -
  show s: "show_int a = show_digits a" using assms by (simp add: show_int_def)
  show d: "list_all is_digit (show_int a)" "show_int a \<noteq> []"
    using show_digits_correct [OF assms] unfolding s by blast+
  have "\<not> is_digit CHR '',''" "\<not> is_digit CHR ''-''" "\<not> is_digit CHR ''/''"
    by (simp_all add: is_digit_def)
  with digits_no_sep [OF d(1)]
  show "CHR '','' \<notin> set (show_int a)" and "CHR ''-'' \<notin> set (show_int a)"
    and "CHR ''/'' \<notin> set (show_int a)" by blast+
  from d(1) show "show_int a \<noteq> ''*''" and "show_int a \<noteq> ''?''" by (auto simp: is_digit_def)
qed

lemmas numeral_text = numeral_chars(2-8)

lemma must_parse_numeral:
  "0 \<le> a \<Longrightarrow> a < 2 ^ 63 \<Longrightarrow> must_parse_int (show_int a) = Inr (word_of_int a)"
  by (simp add: must_parse_int_def atoi_show_int)

lemma parse_numeral:
  assumes "wf_bounds r" and "0 \<le> a" and "a < 2 ^ 63"
  shows "parse_int_or_name (show_int a) (names r) = Inr (word_of_int a)"
proof (cases "names r")
  case None
  then show ?thesis using assms by (simp add: parse_int_or_name_def must_parse_numeral)
next
  case (Some m)
  have "map_of m (show_int a) = None"
  proof (rule ccontr)
    assume "map_of m (show_int a) \<noteq> None"
    then obtain v where "(show_int a, v) \<in> set m" using map_of_SomeD by fastforce
    with Some assms(1) have "\<not> list_all is_digit (show_int a)"
      by (auto simp: wf_bounds_def list_all_iff)
    with numeral_chars(2) [OF assms(2)] show False by simp
  qed
  with Some assms show ?thesis
    by (simp add: parse_int_or_name_def to_lower_digits numeral_text must_parse_numeral)
qed

lemma get_field_single:
  "CHR '','' \<notin> set f \<Longrightarrow> f \<noteq> [] \<Longrightarrow> get_field f r = rbind (get_range f r) Inr"
  by (simp add: get_field_def fields_func_def go_split_no_sep)

lemma get_bits_word:
  assumes "0 \<le> c" and "c < 2 ^ 63"
  shows "unat (word_of_int c :: u64) = nat c"
  using assms by (rule unat_word_of_int_small)

lemma check_range_accepts:
  assumes r: "wf_bounds r" and c: "0 < unat step" "unat step < 2 ^ 63"
    and "unat (bmin r) \<le> unat start" "unat start \<le> unat en" "unat en \<le> unat (bmax r)"
  shows "\<exists>w. check_range expr start en step extra r = Inr w"
proof -
  have "0 < unat step \<and> unat step < 2 ^ 63 \<and> unat en < 64"
    using assms by (simp add: wf_bounds_def)
  then obtain b where "get_bits start en step = Some b"
    using get_bits_correct [of step en start] by blast
  with assms show ?thesis
    by (auto simp: check_range_def word_less_nat_alt)
qed

lemma range_text_denotes:
  assumes r: "wf_bounds r" and a: "unat (bmin r) \<le> nat a" "0 \<le> a" and b: "a \<le> b" "nat b \<le> unat (bmax r)"
    and c: "0 < c" "c < 2 ^ 63"
  shows "\<exists>w. get_range (show_int a @ ''-'' @ show_int b @ ''/'' @ show_int c) r = Inr w \<and>
    range_denotes (nat a) (nat b) (nat c) False w"
proof -
  let ?e = "show_int a @ ''-'' @ show_int b @ ''/'' @ show_int c"
  from r b(2) have "nat b < 63" by (simp add: wf_bounds_def)
  with a b have small: "0 \<le> b" "b < 2 ^ 63" "a < 2 ^ 63" by auto
  note w = get_bits_word [OF a(2) small(3)] get_bits_word [OF small(1,2)]
    get_bits_word [OF less_imp_le [OF c(1)] c(2)]
  have slash: "go_split CHR ''/'' ?e = [show_int a @ ''-'' @ show_int b, show_int c]"
    using go_split_append [of "CHR ''/''" "show_int a @ ''-'' @ show_int b" "show_int c"] a small c
    by (simp add: numeral_text go_split_no_sep)
  have dash: "go_split CHR ''-'' (show_int a @ ''-'' @ show_int b) = [show_int a, show_int b]"
    using go_split_append [of "CHR ''-''" "show_int a" "show_int b"] a small
    by (simp add: numeral_text go_split_no_sep)
  have eq: "get_range ?e r = check_range ?e (word_of_int a) (word_of_int b) (word_of_int c) 0 r"
    unfolding get_range_def Let_def slash list.sel dash
    using a small c r
    by (simp add: range_ends_def range_step_def numeral_text parse_numeral must_parse_numeral)
  have step: "unat (word_of_int c :: u64) < 2 ^ 63" "0 < unat (word_of_int c :: u64)"
    using c w by (simp_all add: nat_less_iff)
  obtain v where v: "get_range ?e r = Inr v"
    using check_range_accepts [OF r step(2,1), of "word_of_int a" "word_of_int b"] a b w
    unfolding eq by (auto simp: nat_le_eq_zle)
  moreover have "range_denotes (nat a) (nat b) (nat c) False v"
    using check_range_correct [OF r step(1), where expr = ?e and start = "word_of_int a"
        and en = "word_of_int b" and extra = 0] v w
      \<open>nat b < 63\<close>
    unfolding eq by (auto simp: range_denotes_def)
  ultimately show ?thesis by blast
qed

lemma number_text_denotes:
  assumes r: "wf_bounds r" and a: "unat (bmin r) \<le> nat a" "0 \<le> a" "nat a \<le> unat (bmax r)"
  shows "\<exists>w. get_range (show_int a) r = Inr w \<and> range_denotes (nat a) (nat a) 1 False w"
proof -
  from r a(3) have "nat a < 63" by (simp add: wf_bounds_def)
  then have small: "a < 2 ^ 63" by auto
  note w = get_bits_word [OF a(2) small]
  have eq: "get_range (show_int a) r = check_range (show_int a) (word_of_int a) (word_of_int a) 1 0 r"
    using a small r
    by (simp add: get_range_def Let_def range_ends_def range_step_def numeral_text go_split_no_sep
        parse_numeral)
  have step: "unat (1 :: u64) < 2 ^ 63" "0 < unat (1 :: u64)" by simp_all
  obtain v where v: "get_range (show_int a) r = Inr v"
    using check_range_accepts [OF r step(2,1), of "word_of_int a" "word_of_int a"] a w
    unfolding eq by auto
  moreover have "range_denotes (nat a) (nat a) 1 False v"
    using check_range_correct [OF r step(1), where expr = "show_int a"
        and start = "word_of_int a" and en = "word_of_int a" and extra = 0] v w
      \<open>nat a < 63\<close>
    unfolding eq by (auto simp: range_denotes_def)
  ultimately show ?thesis by blast
qed

lemma field_range_text:
  assumes "wf_bounds r" and "unat (bmin r) \<le> nat a" "0 \<le> a" "a \<le> b" "nat b \<le> unat (bmax r)"
    and "0 < c" "c < 2 ^ 63"
  shows "\<exists>w. get_field (show_int a @ ''-'' @ show_int b @ ''/'' @ show_int c) r = Inr w \<and>
    range_denotes (nat a) (nat b) (nat c) False w"
proof -
  have "CHR '','' \<notin> set (show_int a @ ''-'' @ show_int b @ ''/'' @ show_int c)"
    using assms numeral_chars(4) [of a] numeral_chars(4) [of b] numeral_chars(4) [of c] by simp
  with range_text_denotes [OF assms] get_field_single show ?thesis by fastforce
qed

lemma field_number_text:
  assumes "wf_bounds r" and "unat (bmin r) \<le> nat a" "0 \<le> a" "nat a \<le> unat (bmax r)"
  shows "\<exists>w. get_field (show_int a) r = Inr w \<and> range_denotes (nat a) (nat a) 1 False w"
  using number_text_denotes [OF assms] numeral_chars(3,4) [OF assms(3)] by (simp add: get_field_single) auto

section \<open>Selected seconds, read off the bits\<close>

lemma word_pos: "(0 :: u64) < w \<longleftrightarrow> w \<noteq> 0"
  by (simp add: word_greater_zero_iff)

lemma and_starBit: "w AND starBit = 0 \<longleftrightarrow> \<not> bit w 63"
proof -
  have "starBit = shl64 1 63" by (simp add: starBit_def shl64_def)
  then have "w AND starBit = shl64 1 63 AND w" by (simp only: and.commute)
  moreover have "shl64 1 63 AND w = 0 \<longleftrightarrow> \<not> bit w 63"
    using and_shl64_one_eq_0 [of 63 w] by simp
  ultimately show ?thesis by simp
qed

lemma dayMatches_bits:
  "dayMatches s l \<longleftrightarrow>
     (let dm = bit (Dom s) (nat (mday_of l)); dw = bit (Dow s) (nat (weekday_of l))
      in if bit (Dom s) 63 \<or> bit (Dow s) 63 then dm \<and> dw else dm \<or> dw)"
  using field_ranges(5,6) [of l]
  by (simp add: dayMatches_def Let_def word_pos and_starBit probe_bit)

lemma selects_bits:
  "selects s l \<longleftrightarrow> bit (Month s) (nat (month_of l)) \<and> dayMatches s l \<and>
     bit (Hour s) (nat (hour_of l)) \<and> bit (Minute s) (nat (minute_of l)) \<and>
     bit (Second s) (nat (second_of l))"
  by (simp add: selects_def month_m_def hour_m_def minute_m_def second_m_def)

lemma second_at_selected:
  assumes "1 \<le> m" "m \<le> 12" and "1 \<le> d" "d \<le> 28" and "0 \<le> h" "h < 24"
    and "0 \<le> mi" "mi < 60" and "0 \<le> s" "s < 60"
    and "bit (Month sch) (nat m)" and "bit (Dom sch) (nat d)" and "\<forall>w<7. bit (Dow sch) w"
    and "bit (Hour sch) (nat h)" and "bit (Minute sch) (nat mi)" and "bit (Second sch) (nat s)"
  shows "selects sch (second_at y m d h mi s)"
proof -
  have "nat (weekday_of (second_at y m d h mi s)) < 7"
    using field_ranges(5) [of "second_at y m d h mi s"] by (simp add: nat_less_iff)
  with assms show ?thesis
    using second_at_fields [OF assms(1-10) refl, of y]
    by (simp add: selects_bits dayMatches_bits Let_def)
qed

lemma year_of_second_at:
  assumes "1 \<le> m" "m \<le> 12" and "1 \<le> d" "d \<le> 28" and "0 \<le> h" "h < 24"
    and "0 \<le> mi" "mi < 60" and "0 \<le> s" "s < 60"
  shows "year_of (second_at y m d h mi s) = y"
  using second_at_fields(1) [OF assms refl] .

text \<open>A selected second in every year bounds the search by the end of the next year.\<close>

lemma spec_next_found:
  assumes "\<And>y. \<exists>v. selects s v \<and> year_of v = y"
  shows "\<exists>u. spec_next (zone z) s t = Some (instant (60 * z) u) \<and> secs z t < u \<and> selects s u \<and>
    year_of u \<le> year_of (secs z t + 1) + 1 \<and> (\<forall>v. secs z t < v \<and> v < u \<longrightarrow> \<not> selects s v)"
proof -
  let ?L = "secs z t + 1"
  obtain v where v: "selects s v" "year_of v = year_of ?L + 1" using assms by blast
  have later: "?L \<le> v" using year_of_mono [of v ?L] v(2) by fastforce
  from spec_next_ok [of z s t] v later obtain u where
    u: "spec_next (zone z) s t = Some (instant (60 * z) u)" "?L \<le> u" "selects s u"
      "\<forall>v. ?L \<le> v \<and> v < u \<longrightarrow> \<not> selects s v"
    unfolding next_ok_def by fastforce
  from u(4) v(1) later have "u \<le> v" by (meson not_less)
  with year_of_mono [of u v] v(2) u show ?thesis by (auto simp: zless_iff_Suc_zadd add1_zle_eq)
qed

section \<open>A pattern of five numbers\<close>

definition number_pattern :: "int \<Rightarrow> int \<Rightarrow> int \<Rightarrow> int \<Rightarrow> int \<Rightarrow> string" where
  "number_pattern s mi h d m = show_int s @ '' '' @ show_int mi @ '' '' @ show_int h @ '' '' @
     show_int d @ '' '' @ show_int m @ '' *''"

lemma numeral_graphic: "0 \<le> a \<Longrightarrow> list_all graphic (show_int a)"
proof -
  have "is_digit c \<Longrightarrow> graphic c" for c
  proof -
    assume "is_digit c"
    then have "48 \<le> int (of_char c :: nat)" "int (of_char c :: nat) \<le> 57"
      by (simp_all add: is_digit_def of_nat_of_char)
    then show ?thesis by (simp add: graphic_def)
  qed
  then show "0 \<le> a \<Longrightarrow> list_all graphic (show_int a)"
    using numeral_chars(2) by (auto simp: list_all_iff)
qed

lemma go_fields_star: "go_fields ''*'' = [''*'']"
  using fields_from_word [of "''*''" "[]" "[]"] by (simp add: go_fields_def graphic_def)

lemma number_pattern_fields:
  assumes "0 \<le> s" "0 \<le> mi" "0 \<le> h" "0 \<le> d" "0 \<le> m"
  shows "go_fields (number_pattern s mi h d m) =
    [show_int s, show_int mi, show_int h, show_int d, show_int m, ''*'']"
proof -
  have step: "go_fields (show_int a @ CHR '' '' # r) = show_int a # go_fields r" if "0 \<le> a" for a r
    by (rule go_fields_word_blank [OF numeral_graphic [OF that] numeral_chars(3) [OF that]])
  show ?thesis unfolding number_pattern_def using assms by (simp add: step go_fields_star)
qed

lemma trim_right_take: "\<exists>k. trim_right s = take k s"
proof (induction s rule: trim_right.induct)
  case (1 s)
  show ?case
  proof (cases "trail_space s = 0 \<or> s = []")
    case True
    then have "trim_right s = s" by (subst trim_right.simps) (simp add: Let_def)
    then have "trim_right s = take (length s) s" by simp
    then show ?thesis by blast
  next
    case False
    then have "trim_right s = trim_right (take (length s - trail_space s) s)"
      by (subst trim_right.simps) (simp add: Let_def)
    moreover from False "1.IH" [OF refl] obtain k where
      "trim_right (take (length s - trail_space s) s) = take k (take (length s - trail_space s) s)" by blast
    ultimately show ?thesis by (metis take_take)
  qed
qed

lemma no_at_prefix:
  assumes "graphic c" and "c \<noteq> CHR ''@''"
  shows "\<not> has_prefix ''@'' (trim_space (c # s))"
proof -
  have "trim_left (c # s) = c # s"
    using lead_space_graphic [OF assms(1)] by (subst trim_left.simps) (simp add: Let_def)
  moreover obtain k where "trim_right (c # s) = take k (c # s)" using trim_right_take by blast
  ultimately show ?thesis using assms(2) by (cases k) (auto simp: trim_space_def has_prefix_def)
qed

lemma star_field:
  assumes "wf_bounds r"
  shows "\<exists>w. get_field ''*'' r = Inr w \<and>
    range_denotes (unat (bmin r)) (unat (bmax r)) 1 True w"
proof -
  have eq: "get_range ''*'' r = check_range ''*'' (bmin r) (bmax r) 1 starBit r"
    by (simp add: get_range_def Let_def range_ends_def range_step_def)
  have step: "unat (1 :: u64) < 2 ^ 63" "0 < unat (1 :: u64)" by simp_all
  have b: "unat (bmin r) \<le> unat (bmax r)" "unat (bmax r) < 63" using assms by (simp_all add: wf_bounds_def)
  obtain v where v: "get_range ''*'' r = Inr v"
    using check_range_accepts [OF assms step(2,1) order_refl b(1) order_refl] unfolding eq by blast
  moreover have "range_denotes (unat (bmin r)) (unat (bmax r)) 1 True v"
    using check_range_correct [OF assms step(1), where expr = "''*''" and start = "bmin r"
        and en = "bmax r" and extra = starBit] v b(2)
    unfolding eq by (auto simp: range_denotes_def)
  ultimately show ?thesis using get_field_single [of "''*''" r] by simp
qed

lemma code_bounds:
  "unat (bmin seconds) = 0" "unat (bmax seconds) = 59" "unat (bmin minutes) = 0"
  "unat (bmax minutes) = 59" "unat (bmin hours) = 0" "unat (bmax hours) = 23"
  "unat (bmin dom_bounds) = 1" "unat (bmax dom_bounds) = 31" "unat (bmin months) = 1"
  "unat (bmax months) = 12" "unat (bmin dow_bounds) = 0" "unat (bmax dow_bounds) = 6"
  by (simp_all add: bounds_defs)

lemma number_pattern_parse:
  assumes "0 \<le> s" "s < 60" and "0 \<le> mi" "mi < 60" and "0 \<le> h" "h < 24"
    and "1 \<le> d" "d \<le> 31" and "1 \<le> m" "m \<le> 12"
  shows "\<exists>sch. Parse (number_pattern s mi h d m) = Inr (SpecSchedule sch) \<and>
    (\<forall>l. selects sch l \<longleftrightarrow> month_of l = m \<and> mday_of l = d \<and> hour_of l = h \<and>
       minute_of l = mi \<and> second_of l = s)"
proof -
  have nonneg: "0 \<le> d" "0 \<le> m" using assms by simp_all
  obtain c r where c: "show_int s = c # r" using numeral_chars(3) [OF assms(1)] by (cases "show_int s") auto
  have "graphic c \<and> c \<noteq> CHR ''@''"
    using numeral_graphic [OF assms(1)] numeral_chars(2) [OF assms(1)] unfolding c
    by (auto simp: is_digit_def)
  then have "\<not> has_prefix ''@'' (trim_space (number_pattern s mi h d m))"
    using no_at_prefix by (simp add: number_pattern_def c)
  then have parse: "Parse (number_pattern s mi h d m) =
      build_schedule [show_int s, show_int mi, show_int h, show_int d, show_int m, ''*'']"
    using Parse_six [of "number_pattern s mi h d m"] assms nonneg by (simp add: number_pattern_fields)
  obtain ws where ws: "get_field (show_int s) seconds = Inr ws" "range_denotes (nat s) (nat s) 1 False ws"
    using field_number_text [of seconds s] assms by (auto simp: code_bounds nat_le_iff le_nat_iff simp del: One_nat_def)
  obtain wmi where wmi: "get_field (show_int mi) minutes = Inr wmi" "range_denotes (nat mi) (nat mi) 1 False wmi"
    using field_number_text [of minutes mi] assms by (auto simp: code_bounds nat_le_iff le_nat_iff simp del: One_nat_def)
  obtain wh where wh: "get_field (show_int h) hours = Inr wh" "range_denotes (nat h) (nat h) 1 False wh"
    using field_number_text [of hours h] assms by (auto simp: code_bounds nat_le_iff le_nat_iff simp del: One_nat_def)
  obtain wd where wd: "get_field (show_int d) dom_bounds = Inr wd" "range_denotes (nat d) (nat d) 1 False wd"
    using field_number_text [of dom_bounds d] assms by (auto simp: code_bounds nat_le_iff le_nat_iff simp del: One_nat_def)
  obtain wm where wm: "get_field (show_int m) months = Inr wm" "range_denotes (nat m) (nat m) 1 False wm"
    using field_number_text [of months m] assms by (auto simp: code_bounds nat_le_iff le_nat_iff simp del: One_nat_def)
  obtain ww where ww: "get_field ''*'' dow_bounds = Inr ww" "range_denotes 0 6 1 True ww"
    using star_field [of dow_bounds] by (auto simp: code_bounds nat_le_iff le_nat_iff simp del: One_nat_def)
  let ?sch = "\<lparr>Second = ws, Minute = wmi, Hour = wh, Dom = wd, Month = wm, Dow = ww\<rparr>"
  have "Parse (number_pattern s mi h d m) = Inr (SpecSchedule ?sch)"
    unfolding parse by (simp add: build_schedule_def ws(1) wmi(1) wh(1) wd(1) wm(1) ww(1))
  moreover have "selects ?sch l \<longleftrightarrow> month_of l = m \<and> mday_of l = d \<and> hour_of l = h \<and>
       minute_of l = mi \<and> second_of l = s" for l
  proof -
    have bits: "bit w (nat k) \<longleftrightarrow> k = a" if "range_denotes (nat a) (nat a) 1 False w" "0 \<le> k" "k < 63" "0 \<le> a" for w k a
      using that by (auto simp: range_denotes_def)
    have "bit ww (nat (weekday_of l))" and "bit ww 63" using ww(2) field_ranges(5) [of l] by (auto simp: range_denotes_def)
    moreover have "bit wd (nat (mday_of l)) \<longleftrightarrow> mday_of l = d"
      using bits [OF wd(2), of "mday_of l"] field_ranges(6) [of l] nonneg by auto
    moreover have "bit wm (nat (month_of l)) \<longleftrightarrow> month_of l = m"
      using bits [OF wm(2), of "month_of l"] field_ranges(1) [of l] nonneg by auto
    moreover have "bit wh (nat (hour_of l)) \<longleftrightarrow> hour_of l = h"
      using bits [OF wh(2), of "hour_of l"] field_ranges(2) [of l] assms by auto
    moreover have "bit wmi (nat (minute_of l)) \<longleftrightarrow> minute_of l = mi"
      using bits [OF wmi(2), of "minute_of l"] field_ranges(3) [of l] assms by auto
    moreover have "bit ws (nat (second_of l)) \<longleftrightarrow> second_of l = s"
      using bits [OF ws(2), of "second_of l"] field_ranges(4) [of l] assms by auto
    ultimately show ?thesis by (auto simp: selects_bits dayMatches_bits Let_def)
  qed
  ultimately show ?thesis by blast
qed

end
