(* ===== verification/Cron_Theorems.thy ===== *)
theory Cron_Theorems
  imports Cron_Text
begin

text \<open>
  The properties of the schedule parser and of \<open>Next\<close>: \<open>delayquene/parser.go\<close> and
  \<open>delayquene/spec.go\<close>.
\<close>

section \<open>Next\<close>

text \<open>C1: \<open>SpecSchedule.Next\<close> always returns, in every zone whose offset is a fixed number of
  minutes, and its result is exact: it is the first second after the argument that the schedule
  selects, if there is one up to the end of the fifth year after the upcoming second's, and the
  zero time if there is none.\<close>

theorem next_is_earliest:
  "case spec_next (zone z) s t of
     None \<Rightarrow> False
   | Some r \<Rightarrow>
       (let l = local_secs (zone z) t; yearLimit = year_of (l + 1) + 5 in
        (\<exists>u. r = instant (60 * z) u \<and> l < u \<and> year_of u \<le> yearLimit \<and> selects s u \<and>
             (\<forall>v. l < v \<and> v < u \<longrightarrow> \<not> selects s v)) \<or>
        (r = zero_time \<and> (\<forall>v. l < v \<and> year_of v \<le> yearLimit \<longrightarrow> \<not> selects s v)))"
  using spec_next_ok [of z s t] unfolding next_ok_def by (auto simp: Let_def)

lemma selects_everything: "selects \<lparr>Second = -1, Minute = -1, Hour = -1, Dom = -1, Month = -1, Dow = -1\<rparr> l"
  using field_ranges [of l] by (simp add: selects_bits dayMatches_bits Let_def nat_less_iff)

theorem next_is_earliest_witness:
  "spec_next (zone 0) \<lparr>Second = -1, Minute = -1, Hour = -1, Dom = -1, Month = -1, Dow = -1\<rparr> 0 =
     Some (instant 0 1)"
proof -
  let ?s = "\<lparr>Second = -1, Minute = -1, Hour = -1, Dom = -1, Month = -1, Dow = -1\<rparr> :: spec_schedule"
  have l: "local_secs (zone 0) 0 = 0" by (simp add: local_secs_def fixed_zone_def unix_secs_def)
  obtain r where r: "spec_next (zone 0) ?s 0 = Some r"
    using next_is_earliest [where z = 0 and s = ?s and t = 0] by (cases "spec_next (zone 0) ?s 0") auto
  with next_is_earliest [where z = 0 and s = ?s and t = 0] l year_of_mono [of 1 "1 :: int"] consider
      u where "r = instant 0 u" "0 < u" "\<forall>v. 0 < v \<and> v < u \<longrightarrow> \<not> selects ?s v"
    | "\<forall>v. 0 < v \<and> year_of v \<le> year_of 1 + 5 \<longrightarrow> \<not> selects ?s v"
    by (auto simp: Let_def)
  then show ?thesis
  proof cases
    case 1
    then have "\<not> 1 < u" using selects_everything [of 1] by fastforce
    with 1 r show ?thesis by simp
  next
    case 2
    then show ?thesis using selects_everything [of 1] by (auto dest: spec [of _ 1])
  qed
qed

text \<open>C11: a schedule with a second, a minute, an hour, a month and a day up to the 28th, and no
  restriction on weekdays, always has a next activation, no later than the end of the next
  calendar year; the zero time is not returned.\<close>

theorem next_exists:
  assumes "1 \<le> m" "m \<le> 12" and "1 \<le> d" "d \<le> 28" and "0 \<le> h" "h < 24"
    and "0 \<le> mi" "mi < 60" and "0 \<le> sec" "sec < 60"
    and "bit (Month s) (nat m)" and "bit (Dom s) (nat d)" and "\<forall>w<7. bit (Dow s) w"
    and "bit (Hour s) (nat h)" and "bit (Minute s) (nat mi)" and "bit (Second s) (nat sec)"
  shows "\<exists>u. spec_next (zone z) s t = Some (instant (60 * z) u) \<and> local_secs (zone z) t < u \<and>
    selects s u \<and> year_of u \<le> year_of (local_secs (zone z) t + 1) + 1"
proof -
  have "\<exists>v. selects s v \<and> year_of v = y" for y
    using second_at_selected [OF assms, of y] year_of_second_at [OF assms(1-10), of y] by blast
  from spec_next_found [OF this] show ?thesis by blast
qed

theorem next_exists_witness:
  "\<exists>u. spec_next (zone 480) \<lparr>Second = 1, Minute = 1, Hour = 1, Dom = 2, Month = 2, Dow = 0xFF\<rparr> 0 =
     Some (instant (60 * 480) u) \<and> local_secs (zone 480) 0 < u \<and>
     selects \<lparr>Second = 1, Minute = 1, Hour = 1, Dom = 2, Month = 2, Dow = 0xFF\<rparr> u \<and>
     year_of u \<le> year_of (local_secs (zone 480) 0 + 1) + 1"
proof -
  have "\<forall>w<7. bit (0xFF :: u64) w" by (simp add: All_less_Suc numeral_eq_Suc)
  then show ?thesis
    using next_exists [of 1 1 0 0 0 "\<lparr>Second = 1, Minute = 1, Hour = 1, Dom = 2, Month = 2, Dow = 0xFF\<rparr>" 480 0]
    by simp
qed

lemma sched_next_later:
  assumes "Parse p = Inr sch"
  shows "\<exists>r. sched_next (zone z) sch t = Some r \<and>
    (r = zero_time \<or> (t < r \<and> r mod nanos_per_sec = 0))"
proof (cases sch)
  case (SpecSchedule s)
  then show ?thesis using spec_next_later [of z s t] by (auto simp: sched_next_def whole_def)
next
  case (ConstantDelaySchedule d)
  with Parse_correct [of p] assms have "wf_delay d" by (simp add: wf_sched_def)
  then have "d mod nanos_per_sec = 0" "0 < d" by (auto simp: wf_delay_def nanos_per_sec_def mod_eq_0_iff_dvd)
  from constant_next_bounds [OF this] ConstantDelaySchedule show ?thesis
    by (simp add: sched_next_def whole_def)
qed

text \<open>C10: whatever pattern the parser accepts, asking its schedule for the next activation
  returns, and the answer is either the zero time or a whole second strictly after the
  argument: a job never advances to the time it is at.\<close>

theorem parsed_next_later:
  assumes "Parse p = Inr sch"
  shows "\<exists>r. sched_next (zone z) sch t = Some r \<and>
    (r = zero_time \<or> (t < r \<and> r mod nanos_per_sec = 0))"
  using assms by (rule sched_next_later)

theorem parsed_next_later_witness:
  "\<exists>r. sched_next (zone 0) (ConstantDelaySchedule 90000000000) 5 = Some r \<and>
    (r = zero_time \<or> (5 < r \<and> r mod nanos_per_sec = 0))"
  by (rule parsed_next_later [of "''@every 90s''"]) code_simp



lemma february_30: "\<not> (month_of l = 2 \<and> mday_of l = 30)"
proof
  assume a: "month_of l = 2 \<and> mday_of l = 30"
  let ?k = "month_index (l div 86400)"
  from a have m: "?k mod 12 = 1" by (simp add: month_of_def)
  then have "month_start (?k + 1) \<le> month_start ?k + 29"
    by (simp add: month_start_Suc) (simp add: month_start_def month_offset_def)
  moreover from a have "l div 86400 = month_start ?k + 29" by (simp add: mday_of_def)
  ultimately show False using month_index_bounds [of "l div 86400"] by linarith
qed

lemma february_30_next:
  "\<exists>sch. Parse ''0 0 0 30 2 *'' = Inr (SpecSchedule sch) \<and>
     (\<forall>z t. spec_next (zone z) sch t = Some zero_time)"
proof -
  have pat: "number_pattern 0 0 0 30 2 = ''0 0 0 30 2 *''" by code_simp
  from number_pattern_parse [of 0 0 0 30 2] obtain sch where
    p: "Parse (number_pattern 0 0 0 30 2) = Inr (SpecSchedule sch)" and
    "\<forall>l. selects sch l \<longleftrightarrow> month_of l = 2 \<and> mday_of l = 30 \<and> hour_of l = 0 \<and>
       minute_of l = 0 \<and> second_of l = 0" by auto
  with february_30 have "\<not> selects sch l" for l by blast
  then have "spec_next (zone z) sch t = Some zero_time" for z t
    using spec_next_ok [of z sch t] by (auto simp: next_ok_def)
  with p pat show ?thesis by auto
qed

text \<open>The 30th of February is accepted as a pattern, and its \<open>Next\<close> is the zero time from
  every instant and in every zone: validating a pattern does not show that it ever fires.\<close>

theorem accepted_never_fires:
  "\<exists>sch. Parse ''0 0 0 30 2 *'' = Inr (SpecSchedule sch) \<and>
     (\<forall>z t. spec_next (zone z) sch t = Some zero_time)"
  by (rule february_30_next)

section \<open>A zone whose clock jumps over midnight\<close>

text \<open>
  A clock that goes from 00:00 to 01:00 on 4 November 2018 (03:00 UTC), from offset -3 to
  offset -2 hours, as in Sao Paulo.
\<close>

definition gap_zone :: location where
  "gap_zone s =
     (if s < 1541300400 then (- 10800, - 9223372036854775808, 1541300400)
      else (- 7200, 1541300400, 9223372036854775807))"

definition nov4 :: spec_schedule where
  "nov4 = \<lparr>Second = 1, Minute = 1073741824, Hour = 4096, Dom = 16, Month = 2048,
     Dow = 9223372036854775935\<rparr>"

text \<open>The loops, one by one, from 3 November 2018, 10:00:01.\<close>

lemma gap_step_1:
  "month_loop gap_zone nov4 1541250001000000000 False = Some (False, 1541250001000000000, False)"
  by code_simp

lemma gap_step_2:
  "day_loop gap_zone nov4 1541250001000000000 False = Some (False, 1541379600000000000, True)"
  by code_simp

lemma gap_step_3:
  "hour_loop gap_zone nov4 1541379600000000000 True = Some (True, 1541383200000000000, True)"
  by code_simp

lemma gap_step_4:
  "month_loop gap_zone nov4 1541383200000000000 True = Some (False, 1541383200000000000, True)"
  by code_simp

lemma gap_step_5:
  "day_loop gap_zone nov4 1541383200000000000 True = Some (True, 1543629600000000000, True)"
  by code_simp

lemma gap_step_6:
  "month_loop gap_zone nov4 1543629600000000000 True = Some (True, 1546308000000000000, True)"
  by code_simp

lemma gap_step_7:
  "month_loop gap_zone nov4 1546308000000000000 True = Some (False, 1572573600000000000, True)"
  by code_simp

lemma gap_step_8:
  "day_loop gap_zone nov4 1572573600000000000 True = Some (False, 1572832800000000000, True)"
  by code_simp

lemma gap_step_9:
  "hour_loop gap_zone nov4 1572832800000000000 True = Some (False, 1572876000000000000, True)"
  by code_simp

lemma gap_step_10:
  "minute_loop gap_zone nov4 1572876000000000000 True = Some (False, 1572877800000000000, True)"
  by code_simp

lemma gap_step_11:
  "second_loop gap_zone nov4 1572877800000000000 True = Some (False, 1572877800000000000, True)"
  by code_simp

lemmas gap_steps = gap_step_1 gap_step_2 gap_step_3 gap_step_4 gap_step_5 gap_step_6
  gap_step_7 gap_step_8 gap_step_9 gap_step_10 gap_step_11

lemma gap_years:
  "year_of (local_secs gap_zone 1541250001000000000) = 2018"
  "year_of (local_secs gap_zone 1541383200000000000) = 2018"
  "year_of (local_secs gap_zone 1543629600000000000) = 2018"
  "year_of (local_secs gap_zone 1546308000000000000) = 2019"
  by code_simp+

text \<open>In such a zone \<open>Next\<close> is not the earliest match. Asked on 3 November 2018 at 10:00:00
  for 12:30 on 4 November, the loop over days steps from midnight of the 3rd to 23:00 of the 4th,
  wraps, and answers 4 November 2019: the match on the next day is lost for a year.\<close>

theorem gap_loses_a_year:
  "Parse ''30 12 4 11 *'' = Inr (SpecSchedule nov4) \<and>
   selects nov4 (local_secs gap_zone 1541341800000000000) \<and>
   (1541250000000000000 :: int) < 1541341800000000000 \<and>
   spec_next gap_zone nov4 1541250000000000000 = Some 1572877800000000000 \<and>
   (1541341800000000000 :: int) < 1572877800000000000"
proof (intro conjI)
  show "Parse ''30 12 4 11 *'' = Inr (SpecSchedule nov4)" by code_simp
  show "selects nov4 (local_secs gap_zone 1541341800000000000)" by code_simp
  have "1541250000000000000 + (1 * nanos_per_sec - 1541250000000000000 mod nanos_per_sec) =
      1541250001000000000" by (simp add: nanos_per_sec_def)
  then show "spec_next gap_zone nov4 1541250000000000000 = Some 1572877800000000000"
    by (simp add: spec_next_def Let_def gap_years next_wrap_unfold from_month_def from_day_def
        from_hour_def from_minute_def from_second_def gap_steps)
qed simp_all

section \<open>The parser\<close>

text \<open>C9: \<open>Parse\<close> returns on every text: no loop of it runs forever and no index is out of range,
  and what it accepts is well-formed. A bit of a field lies in the field's bounds, and a constant
  delay is a whole number of seconds, at least one.\<close>

theorem Parse_returns:
  "case Parse spec of
     Inl e \<Rightarrow> e \<noteq> Diverges \<and> e \<noteq> Panics
   | Inr (SpecSchedule s) \<Rightarrow> wf_schedule s
   | Inr (ConstantDelaySchedule d) \<Rightarrow> nanos_per_sec \<le> d \<and> d < 2 ^ 63 \<and> nanos_per_sec dvd d"
  using Parse_correct [of spec]
  by (auto simp: wf_sched_def wf_delay_def split: sum.splits schedule.splits)

text \<open>C15: a pattern of five fields means the same as the six-field pattern that starts with
  second 0.\<close>

theorem five_fields_start_at_second_0:
  assumes "length (go_fields spec) = 5" and "\<not> has_prefix ''@'' (trim_space spec)"
  shows "Parse spec = Parse (''0 '' @ spec)"
proof -
  have f: "go_fields (''0 '' @ spec) = ''0'' # go_fields spec"
    using go_fields_word_blank [of "''0''" spec] by (simp add: graphic_def)
  have "\<not> has_prefix ''@'' (trim_space (''0 '' @ spec))"
    using no_at_prefix [of "CHR ''0''" "'' '' @ spec"] by (simp add: graphic_def)
  then have "Parse (''0 '' @ spec) = build_schedule (''0'' # go_fields spec)"
    using Parse_six [of "''0 '' @ spec"] f assms(1) by simp
  with Parse_five [OF assms] show ?thesis by simp
qed

theorem five_fields_start_at_second_0_witness:
  "Parse ''*/5 9-17 * * mon-fri'' = Parse (''0 '' @ ''*/5 9-17 * * mon-fri'')"
proof (rule five_fields_start_at_second_0)
  show "length (go_fields ''*/5 9-17 * * mon-fri'') = 5" by code_simp
  show "\<not> has_prefix ''@'' (trim_space ''*/5 9-17 * * mon-fri'')" by code_simp
qed

text \<open>The field \<open>a-b/c\<close>, for numbers within the bounds, is the set of every \<open>c\<close>-th number
  from \<open>a\<close> to \<open>b\<close>, without the star bit.\<close>

theorem range_field_denotes:
  assumes "r = seconds \<or> r = minutes \<or> r = hours \<or> r = dom_bounds \<or> r = months \<or> r = dow_bounds"
    and "uint (bmin r) \<le> a" "a \<le> b" "b \<le> uint (bmax r)" and "0 < c" "c < 2 ^ 63"
  shows "\<exists>w. get_field (show_int a @ ''-'' @ show_int b @ ''/'' @ show_int c) r = Inr w \<and>
    range_denotes (nat a) (nat b) (nat c) False w"
proof (rule field_range_text)
  show "wf_bounds r" using assms(1) by auto
  have "0 \<le> uint (bmin r)" by simp
  with assms(2) show "0 \<le> a" by (rule order_trans [rotated])
  show "unat (bmin r) \<le> nat a" using assms(2) by (simp only: unat_eq_nat_uint nat_mono)
  show "nat b \<le> unat (bmax r)" using assms(4) by (simp only: unat_eq_nat_uint nat_mono)
qed (use assms in simp_all)

theorem range_field_denotes_witness:
  "\<exists>w. get_field (show_int 9 @ ''-'' @ show_int 17 @ ''/'' @ show_int 2) hours = Inr w \<and>
    range_denotes (nat 9) (nat 17) (nat 2) False w"
  by (rule range_field_denotes) (simp_all add: hours_def)

lemma case_sum_Inr_iff:
  "(case x of Inl e \<Rightarrow> False | Inr b \<Rightarrow> P b) \<longleftrightarrow> (\<exists>b. x = Inr b \<and> P b)"
  by (cases x) auto

text \<open>A field with commas is the union of its ranges: \<open>getField\<close> accepts it only when it
  accepts every non-empty piece, and then a bit is set if and only if one of the pieces sets it.\<close>

theorem field_is_union:
  assumes "get_field f r = Inr w"
    and "r = seconds \<or> r = minutes \<or> r = hours \<or> r = dom_bounds \<or> r = months \<or> r = dow_bounds"
  shows "list_all (\<lambda>expr. \<not> isl (get_range expr r)) (fields_func CHR '','' f) \<and>
    (bit w n \<longleftrightarrow> list_ex (\<lambda>expr. case get_range expr r of Inl e \<Rightarrow> False | Inr b \<Rightarrow> bit b n)
       (fields_func CHR '','' f))"
proof -
  have r: "wf_bounds r" using assms(2) by auto
  have "\<not> isl (get_range expr r)" if "expr \<in> set (fields_func CHR '','' f)" for expr
    using get_field_loop_ranges_ok [OF assms(1) [unfolded get_field_def] that] by auto
  moreover have "bit w n \<longleftrightarrow> list_ex (\<lambda>expr. case get_range expr r of Inl e \<Rightarrow> False | Inr b \<Rightarrow> bit b n)
       (fields_func CHR '','' f)"
    using get_field_loop_correct [OF r, of 0 "fields_func CHR '','' f"] assms(1)
    unfolding get_field_def by (simp add: list_ex_iff case_sum_Inr_iff)
  ultimately show ?thesis by (simp add: list_all_iff)
qed

theorem field_is_union_witness:
  "list_all (\<lambda>expr. \<not> isl (get_range expr dow_bounds)) (fields_func CHR '','' ''mon,wed,fri'') \<and>
    (bit (42 :: u64) 3 \<longleftrightarrow> list_ex (\<lambda>expr. case get_range expr dow_bounds of Inl e \<Rightarrow> False | Inr b \<Rightarrow> bit b 3)
       (fields_func CHR '','' ''mon,wed,fri''))"
  by (rule field_is_union) (code_simp, simp)

text \<open>\<open>getBits(min, max, step)\<close> returns for every positive step below 2^63 and every maximum
  below 64, and sets exactly the bits \<open>min, min + step, ...\<close> up to \<open>max\<close>, on both of its paths,
  the shifted masks for step 1 and the loop for the others.\<close>

theorem get_bits_exact:
  assumes "0 < step" and "step < 2 ^ 63" and "hi < 64"
  shows "case get_bits lo hi step of None \<Rightarrow> False
    | Some b \<Rightarrow> bit b n = (unat lo \<le> n \<and> n \<le> unat hi \<and> unat step dvd (n - unat lo))"
proof -
  have "0 < unat step" "unat step < 2 ^ 63" "unat hi < 64"
    using assms by (simp_all add: word_less_nat_alt unat_gt_0)
  from get_bits_correct [OF this, of lo] show ?thesis by auto
qed

theorem get_bits_exact_witness:
  "case get_bits 1 31 7 of None \<Rightarrow> False
    | Some b \<Rightarrow> bit b 29 = (unat (1 :: u64) \<le> 29 \<and> 29 \<le> unat (31 :: u64) \<and> unat (7 :: u64) dvd (29 - unat (1 :: u64)))"
  by (rule get_bits_exact) simp_all

text \<open>C16: \<open>@every\<close> with a duration the standard library reads is accepted, and each activation
  follows the one before it by the duration cut down to whole seconds, one second at least.\<close>

theorem every_interval:
  assumes "parse_duration text = Some d"
  shows "\<exists>k. parse_descriptor (''@every '' @ text) = Inr (ConstantDelaySchedule k) \<and>
    0 < k \<and> k mod nanos_per_sec = 0 \<and> k \<le> max d nanos_per_sec \<and> max d nanos_per_sec - k < nanos_per_sec \<and>
    constant_next k (n * nanos_per_sec) = n * nanos_per_sec + k"
proof -
  have none: "map_of descriptor_table (''@every '' @ text) = None"
    by (simp add: descriptor_table_def Let_def)
  have "d < 2 ^ 63" using parse_duration_range [OF assms] by simp
  from Every_wf [OF this] obtain k where k: "Every d = ConstantDelaySchedule k" "wf_delay k"
    "k \<le> max d nanos_per_sec" "max d nanos_per_sec - k < nanos_per_sec" by blast
  have "parse_descriptor (''@every '' @ text) = Inr (Every d)"
    using assms none by (simp add: parse_descriptor_def has_prefix_def)
  with k show ?thesis by (auto simp: wf_delay_def constant_next_def nanos_per_sec_def mod_eq_0_iff_dvd)
qed

theorem every_interval_witness:
  "\<exists>k. parse_descriptor (''@every '' @ ''1h30m500ms'') = Inr (ConstantDelaySchedule k) \<and>
    0 < k \<and> k mod nanos_per_sec = 0 \<and> k \<le> max 5400500000000 nanos_per_sec \<and>
    max 5400500000000 nanos_per_sec - k < nanos_per_sec \<and>
    constant_next k (7 * nanos_per_sec) = 7 * nanos_per_sec + k"
  by (rule every_interval) code_simp

lemma yearly_value_1:
  "Parse ''@yearly'' = Inr (SpecSchedule \<lparr>Second = 1, Minute = 1, Hour = 1,
     Dom = 2, Month = 2, Dow = 9223372036854775935\<rparr>)"
  by code_simp

lemma yearly_value_2:
  "Parse ''@annually'' = Inr (SpecSchedule \<lparr>Second = 1, Minute = 1, Hour = 1,
     Dom = 2, Month = 2, Dow = 9223372036854775935\<rparr>)"
  by code_simp

lemma yearly_value:
  "Parse ''0 0 1 1 *'' = Inr (SpecSchedule \<lparr>Second = 1, Minute = 1, Hour = 1,
     Dom = 2, Month = 2, Dow = 9223372036854775935\<rparr>)"
  by code_simp

lemma monthly_value_1:
  "Parse ''@monthly'' = Inr (SpecSchedule \<lparr>Second = 1, Minute = 1, Hour = 1,
     Dom = 2, Month = 9223372036854783998, Dow = 9223372036854775935\<rparr>)"
  by code_simp

lemma monthly_value:
  "Parse ''0 0 1 * *'' = Inr (SpecSchedule \<lparr>Second = 1, Minute = 1, Hour = 1,
     Dom = 2, Month = 9223372036854783998, Dow = 9223372036854775935\<rparr>)"
  by code_simp

lemma weekly_value_1:
  "Parse ''@weekly'' = Inr (SpecSchedule \<lparr>Second = 1, Minute = 1, Hour = 1,
     Dom = 9223372041149743102, Month = 9223372036854783998, Dow = 1\<rparr>)"
  by code_simp

lemma weekly_value:
  "Parse ''0 0 * * 0'' = Inr (SpecSchedule \<lparr>Second = 1, Minute = 1, Hour = 1,
     Dom = 9223372041149743102, Month = 9223372036854783998, Dow = 1\<rparr>)"
  by code_simp

lemma daily_value_1:
  "Parse ''@daily'' = Inr (SpecSchedule \<lparr>Second = 1, Minute = 1, Hour = 1,
     Dom = 9223372041149743102, Month = 9223372036854783998, Dow = 9223372036854775935\<rparr>)"
  by code_simp

lemma daily_value_2:
  "Parse ''@midnight'' = Inr (SpecSchedule \<lparr>Second = 1, Minute = 1, Hour = 1,
     Dom = 9223372041149743102, Month = 9223372036854783998, Dow = 9223372036854775935\<rparr>)"
  by code_simp

lemma daily_value:
  "Parse ''0 0 * * *'' = Inr (SpecSchedule \<lparr>Second = 1, Minute = 1, Hour = 1,
     Dom = 9223372041149743102, Month = 9223372036854783998, Dow = 9223372036854775935\<rparr>)"
  by code_simp

lemma hourly_value_1:
  "Parse ''@hourly'' = Inr (SpecSchedule \<lparr>Second = 1, Minute = 1, Hour = 9223372036871553023,
     Dom = 9223372041149743102, Month = 9223372036854783998, Dow = 9223372036854775935\<rparr>)"
  by code_simp

lemma hourly_value:
  "Parse ''0 * * * *'' = Inr (SpecSchedule \<lparr>Second = 1, Minute = 1, Hour = 9223372036871553023,
     Dom = 9223372041149743102, Month = 9223372036854783998, Dow = 9223372036854775935\<rparr>)"
  by code_simp

lemmas descriptor_values =
  yearly_value_1 yearly_value_2 yearly_value monthly_value_1 monthly_value weekly_value_1
  weekly_value daily_value_1 daily_value_2 daily_value hourly_value_1 hourly_value

text \<open>C17: each descriptor means the pattern its documentation gives for it.\<close>

theorem descriptors_are_patterns:
  "Parse ''@yearly'' = Parse ''0 0 1 1 *'' \<and> Parse ''@annually'' = Parse ''0 0 1 1 *'' \<and>
   Parse ''@monthly'' = Parse ''0 0 1 * *'' \<and> Parse ''@weekly'' = Parse ''0 0 * * 0'' \<and>
   Parse ''@daily'' = Parse ''0 0 * * *'' \<and> Parse ''@midnight'' = Parse ''0 0 * * *'' \<and>
   Parse ''@hourly'' = Parse ''0 * * * *''"
  by (simp only: descriptor_values)

end
