(* ===== verification/Job_Types.thy ===== *)
theory Job_Types
  imports Cron_Parser
begin

text \<open>
  The types and validation shared by the layers, \<open>delayquene/types.go\<close>, with the stored job of
  \<open>proto\<close> and the error values of \<open>delayquene/riverquene.go\<close>. An error value is a constructor
  per message of the source; \<open>sentinel_of\<close> is what \<open>errors.Is\<close> finds in it.
\<close>

section \<open>Errors\<close>

datatype sentinel = ErrInvalid | ErrNotFound | ErrDuplicate

datatype gua_error =
    BadRequestURL
  | BadName string
  | NameTooLong string
  | BadPattern cron_error
  | NameRequired
  | ExecTimeNegative
  | TimeoutNegative
  | UnknownDelivery int
  | TargetRequired
  | GroupNotFound
  | JobNotFound
  | GroupExists
  | JobIdExists
  | StorageError

fun sentinel_of :: "gua_error \<Rightarrow> sentinel option" where
  "sentinel_of BadRequestURL = Some ErrInvalid"
| "sentinel_of (BadName _) = Some ErrInvalid"
| "sentinel_of (NameTooLong _) = Some ErrInvalid"
| "sentinel_of (BadPattern _) = Some ErrInvalid"
| "sentinel_of NameRequired = Some ErrInvalid"
| "sentinel_of ExecTimeNegative = Some ErrInvalid"
| "sentinel_of TimeoutNegative = Some ErrInvalid"
| "sentinel_of (UnknownDelivery _) = Some ErrInvalid"
| "sentinel_of TargetRequired = Some ErrInvalid"
| "sentinel_of GroupNotFound = Some ErrNotFound"
| "sentinel_of JobNotFound = Some ErrNotFound"
| "sentinel_of GroupExists = Some ErrDuplicate"
| "sentinel_of JobIdExists = Some ErrDuplicate"
| "sentinel_of StorageError = None"

definition errors_Is :: "gua_error \<Rightarrow> sentinel \<Rightarrow> bool" where
  "errors_Is e s \<longleftrightarrow> sentinel_of e = Some s"

section \<open>Request URLs\<close>

text \<open>
  \<open>UrlRe\<close>, \<open>^(HTTP|GRPC)@(\S+)$\<close>. In Go's syntax \<open>\S\<close> is every character but tab, newline,
  form feed, carriage return and blank, and \<open>$\<close> is the end of the text. The separators are
  ASCII, so bytes can be read instead of characters.
\<close>

definition re_space :: "char \<Rightarrow> bool" where
  "re_space c \<longleftrightarrow> c \<in> {CHR 0x09, CHR 0x0A, CHR 0x0C, CHR 0x0D, CHR '' ''}"

definition url_target :: "string \<Rightarrow> string \<Rightarrow> (string \<times> string) option" where
  "url_target kind s =
     (if has_prefix (kind @ ''@'') s \<and> drop (length kind + 1) s \<noteq> [] \<and>
         list_all (\<lambda>c. \<not> re_space c) (drop (length kind + 1) s)
      then Some (kind, drop (length kind + 1) s) else None)"

definition SplitRequestURL :: "string \<Rightarrow> gua_error + string \<times> string" where
  "SplitRequestURL requestURL =
     (case url_target ''HTTP'' requestURL of
        Some r \<Rightarrow> Inr r
      | None \<Rightarrow> (case url_target ''GRPC'' requestURL of
          Some r \<Rightarrow> Inr r
        | None \<Rightarrow> Inl BadRequestURL))"

section \<open>Names and patterns\<close>

definition name_char :: "char \<Rightarrow> bool" where
  "name_char c = (let n = of_char c :: nat in
     (97 \<le> n \<and> n \<le> 122) \<or> (65 \<le> n \<and> n \<le> 90) \<or> (48 \<le> n \<and> n \<le> 57) \<or> n = 95)"

definition MaxNameLen :: nat where
  "MaxNameLen = 22"

definition ValidateName :: "string \<Rightarrow> string \<Rightarrow> gua_error + unit" where
  "ValidateName field s =
     (if \<not> (s \<noteq> [] \<and> list_all name_char s) then Inl (BadName field)
      else if length s > MaxNameLen then Inl (NameTooLong field)
      else Inr ())"

definition IsOnce :: "string \<Rightarrow> bool" where
  "IsOnce pattern \<longleftrightarrow> pattern = [] \<or> pattern = ''@once''"

definition ValidatePattern :: "string \<Rightarrow> gua_error + unit" where
  "ValidatePattern pattern =
     (if IsOnce pattern then Inr ()
      else (case Parse pattern of
          Inl err \<Rightarrow> Inl (BadPattern err)
        | Inr _ \<Rightarrow> Inr ()))"

section \<open>Records\<close>

text \<open>\<open>guaproto.Job\<close>, the row of \<open>gua_jobs\<close>.\<close>

record job =
  job_id :: string
  group_name :: string
  job_name :: string
  request_url :: string
  payload :: string
  interval_pattern :: string
  timeout :: int
  exectime :: int
  active :: bool
  memo :: string

record stats =
  st_now :: int
  st_ready :: nat
  st_running :: nat
  st_retryable :: nat
  st_active :: nat
  st_paused :: nat

record history_entry =
  h_seq :: nat
  h_job_id :: string
  h_group :: string
  h_type :: string
  h_plan :: int
  h_exec :: int
  h_finish :: int
  h_success :: bool
  h_message :: string
  h_error :: string
  h_host :: string

record trigger_envelope =
  e_job_id :: string
  e_job_name :: string
  e_group :: string
  e_plan :: int
  e_exec :: int
  e_payload :: string
  e_key :: string

section \<open>Facts\<close>

lemma valid_name_iff:
  "ValidateName field s = Inr () \<longleftrightarrow> s \<noteq> [] \<and> list_all name_char s \<and> length s \<le> 22"
  by (auto simp: ValidateName_def MaxNameLen_def)

lemma ValidateName_error: "ValidateName field s = Inl e \<Longrightarrow> errors_Is e ErrInvalid"
  by (auto simp: ValidateName_def errors_Is_def split: if_splits)

lemma ValidatePattern_error: "ValidatePattern p = Inl e \<Longrightarrow> errors_Is e ErrInvalid"
  by (auto simp: ValidatePattern_def errors_Is_def split: if_splits sum.splits)

lemma SplitRequestURL_error: "SplitRequestURL u = Inl e \<Longrightarrow> e = BadRequestURL"
  by (auto simp: SplitRequestURL_def split: option.splits)

lemma url_target_build:
  assumes "t \<noteq> []" and "list_all (\<lambda>c. \<not> re_space c) t"
  shows "url_target kind (kind @ ''@'' @ t) = Some (kind, t)"
  using assms by (simp add: url_target_def has_prefix_def)

lemma url_target_SomeD:
  assumes "url_target kind s = Some (k, t)"
  shows "k = kind \<and> s = kind @ ''@'' @ t \<and> t \<noteq> [] \<and> list_all (\<lambda>c. \<not> re_space c) t"
proof -
  let ?n = "length kind + 1"
  from assms have c: "has_prefix (kind @ ''@'') s" "k = kind" "t = drop ?n s" "t \<noteq> []"
      "list_all (\<lambda>c. \<not> re_space c) t"
    unfolding url_target_def by (auto split: if_split_asm)
  have "take ?n s = kind @ ''@''" using c(1) by (simp add: has_prefix_def)
  moreover have "s = take ?n s @ t" unfolding c(3) by (rule append_take_drop_id [symmetric])
  ultimately have "s = (kind @ ''@'') @ t" by metis
  with c(2,4,5) show ?thesis by simp
qed

lemma SplitRequestURL_iff:
  "SplitRequestURL u = Inr (k, t) \<longleftrightarrow>
     (k = ''HTTP'' \<or> k = ''GRPC'') \<and> u = k @ ''@'' @ t \<and> t \<noteq> [] \<and> list_all (\<lambda>c. \<not> re_space c) t"
proof
  assume "SplitRequestURL u = Inr (k, t)"
  then have "url_target ''HTTP'' u = Some (k, t) \<or> url_target ''GRPC'' u = Some (k, t)"
    by (auto simp: SplitRequestURL_def split: option.splits)
  then show "(k = ''HTTP'' \<or> k = ''GRPC'') \<and> u = k @ ''@'' @ t \<and> t \<noteq> [] \<and> list_all (\<lambda>c. \<not> re_space c) t"
    using url_target_SomeD by blast
next
  assume a: "(k = ''HTTP'' \<or> k = ''GRPC'') \<and> u = k @ ''@'' @ t \<and> t \<noteq> [] \<and> list_all (\<lambda>c. \<not> re_space c) t"
  then have "url_target k u = Some (k, t)" using url_target_build by blast
  moreover have "url_target ''HTTP'' (''GRPC@'' @ t) = None"
    by (simp add: url_target_def has_prefix_def)
  ultimately show "SplitRequestURL u = Inr (k, t)"
    using a by (auto simp: SplitRequestURL_def)
qed

end
