(* ===== verification/Pg_Store.thy ===== *)
theory Pg_Store
  imports Job_Types Go_Time
begin

text \<open>
  The store: the tables \<open>migrate\<close> creates, River's job table, and the SQL statements of
  \<open>delayquene/riverquene.go\<close> as functions on them. A statement may fail, or take effect with
  the client seeing an error (the connection is lost); \<open>fate\<close> lists what happens to the
  statements to come, and every list is possible. Transactions see their own effects and lose
  them when they are not committed; sequences are not rolled back.
\<close>

section \<open>Tables\<close>

text \<open>The arguments of River jobs, \<open>guaJobArgs\<close> and \<open>pruneArgs\<close>, and their \<open>Kind\<close>.\<close>

datatype river_args = guaJobArgs (arg_job: string) (arg_group: string) (arg_plan: int) | pruneArgs

fun Kind :: "river_args \<Rightarrow> string" where
  "Kind (guaJobArgs _ _ _) = ''gua_delivery''"
| "Kind pruneArgs = ''gua_history_prune''"

datatype river_state =
  Available | Scheduled | Retryable | Pending | Running | Completed | Cancelled | Discarded

definition pendingStates :: "river_state list" where
  "pendingStates = [Available, Scheduled, Retryable, Pending]"

record river_row =
  r_id :: nat
  r_args :: river_args
  r_state :: river_state
  r_attempt :: nat
  r_max :: nat
  r_at :: int

text \<open>\<open>gua_executions\<close> rows are history entries with the time they were created.\<close>

record tables =
  gua_groups :: "string list"
  gua_jobs :: "job list"
  river_job :: "river_row list"
  gua_executions :: "(history_entry \<times> int) list"

datatype outcome = Works | Fails | Lost

text \<open>
  The state of a node and its store: the tables, the sequences of \<open>river_job\<close> and
  \<open>gua_executions\<close>, the clock (the time the \<open>n\<close>-th reading shows, in nanoseconds, with the
  number of readings so far), and the fate of the statements to come.
\<close>

record world =
  db :: tables
  next_row :: nat
  next_seq :: nat
  clock :: "nat \<Rightarrow> int"
  reads :: nat
  fate :: "outcome list"

definition time_Now :: "world \<Rightarrow> int \<times> world" where
  "time_Now w = (clock w (reads w), w\<lparr>reads := Suc (reads w)\<rparr>)"

definition next_fate :: "world \<Rightarrow> outcome \<times> world" where
  "next_fate w =
     (case fate w of [] \<Rightarrow> (Works, w) | f # fs \<Rightarrow> (f, w\<lparr>fate := fs\<rparr>))"

section \<open>Operations that can fail\<close>

type_synonym 'a op = "world \<Rightarrow> (gua_error + 'a) \<times> world"

definition op_return :: "'a \<Rightarrow> 'a op" where
  "op_return x w = (Inr x, w)"

definition op_fail :: "gua_error \<Rightarrow> 'a op" where
  "op_fail e w = (Inl e, w)"

text \<open>\<open>if err != nil { return err }\<close>\<close>

definition op_bind :: "'a op \<Rightarrow> ('a \<Rightarrow> 'b op) \<Rightarrow> 'b op" where
  "op_bind m f w = (case m w of (Inl e, w') \<Rightarrow> (Inl e, w') | (Inr x, w') \<Rightarrow> f x w')"

definition op_lift :: "gua_error + 'a \<Rightarrow> 'a op" where
  "op_lift r w = (r, w)"

text \<open>A change of the store that returns a value, such as the number of affected rows.\<close>

type_synonym 'a stmt = "world \<Rightarrow> 'a \<times> world"

text \<open>A statement outside a transaction, inside one, and one that only reads.\<close>

definition pool_exec :: "'a stmt \<Rightarrow> 'a op" where
  "pool_exec f w =
     (case next_fate w of
        (Works, w1) \<Rightarrow> (case f w1 of (x, w2) \<Rightarrow> (Inr x, w2))
      | (Fails, w1) \<Rightarrow> (Inl StorageError, w1)
      | (Lost, w1) \<Rightarrow> (Inl StorageError, snd (f w1)))"

definition tx_exec :: "'a stmt \<Rightarrow> 'a op" where
  "tx_exec f w =
     (case next_fate w of
        (Works, w1) \<Rightarrow> (case f w1 of (x, w2) \<Rightarrow> (Inr x, w2))
      | (_, w1) \<Rightarrow> (Inl StorageError, w1))"

definition query :: "(tables \<Rightarrow> 'a) \<Rightarrow> 'a op" where
  "query f w =
     (case next_fate w of
        (Works, w1) \<Rightarrow> (Inr (f (db w1)), w1)
      | (_, w1) \<Rightarrow> (Inl StorageError, w1))"

text \<open>
  A transaction: \<open>Begin\<close>, the body, and \<open>Commit\<close> unless the body returns before it
  (with an error, or with \<open>Leave\<close> for an early \<open>return nil\<close>), in which case the deferred
  \<open>Rollback\<close> restores the tables.
\<close>

datatype 'a tx_end = Commit 'a | Leave 'a

definition run_tx :: "'a tx_end op \<Rightarrow> 'a op" where
  "run_tx body w =
     (case next_fate w of
        (Works, w1) \<Rightarrow>
          (case body w1 of
             (Inl e, w2) \<Rightarrow> (Inl e, w2\<lparr>db := db w1\<rparr>)
           | (Inr (Leave x), w2) \<Rightarrow> (Inr x, w2\<lparr>db := db w1\<rparr>)
           | (Inr (Commit x), w2) \<Rightarrow>
               (case next_fate w2 of
                  (Works, w3) \<Rightarrow> (Inr x, w3)
                | (Fails, w3) \<Rightarrow> (Inl StorageError, w3\<lparr>db := db w1\<rparr>)
                | (Lost, w3) \<Rightarrow> (Inl StorageError, w3)))
      | (_, w1) \<Rightarrow> (Inl StorageError, w1))"

section \<open>Statements\<close>

definition update_jobs :: "(job \<Rightarrow> bool) \<Rightarrow> (job \<Rightarrow> job) \<Rightarrow> nat stmt" where
  "update_jobs P f w =
     (length (filter P (gua_jobs (db w))),
      w\<lparr>db := (db w)\<lparr>gua_jobs := map (\<lambda>j. if P j then f j else j) (gua_jobs (db w))\<rparr>\<rparr>)"

definition delete_jobs :: "(job \<Rightarrow> bool) \<Rightarrow> nat stmt" where
  "delete_jobs P w =
     (length (filter P (gua_jobs (db w))),
      w\<lparr>db := (db w)\<lparr>gua_jobs := filter (\<lambda>j. \<not> P j) (gua_jobs (db w))\<rparr>\<rparr>)"

text \<open>\<open>INSERT INTO gua_jobs ... VALUES (..., true, ...) ON CONFLICT (id) DO NOTHING\<close>\<close>

definition insert_job :: "job \<Rightarrow> nat stmt" where
  "insert_job j w =
     (if job_id j \<in> set (map job_id (gua_jobs (db w))) then (0, w)
      else (1, w\<lparr>db := (db w)\<lparr>gua_jobs := gua_jobs (db w) @ [j\<lparr>active := True\<rparr>]\<rparr>\<rparr>))"

definition insert_group :: "string \<Rightarrow> nat stmt" where
  "insert_group g w =
     (if g \<in> set (gua_groups (db w)) then (0, w)
      else (1, w\<lparr>db := (db w)\<lparr>gua_groups := gua_groups (db w) @ [g]\<rparr>\<rparr>))"

definition delete_group :: "string \<Rightarrow> nat stmt" where
  "delete_group g w =
     (length (filter ((=) g) (gua_groups (db w))),
      w\<lparr>db := (db w)\<lparr>gua_groups := filter ((\<noteq>) g) (gua_groups (db w))\<rparr>\<rparr>)"

text \<open>
  River's insert for \<open>InsertOpts{ScheduledAt: at}\<close>: a job with a time is \<open>scheduled\<close>, one
  with the zero time is \<open>available\<close> at once. River validates nothing here that gua's values can
  violate; the attempt limit is the client's.
\<close>

definition insert_occurrence :: "nat \<Rightarrow> river_args \<Rightarrow> int \<Rightarrow> unit stmt" where
  "insert_occurrence max_attempts args at w =
     (let (t, w1) = (if at = zero_time then time_Now w else (at, w));
          row = \<lparr>r_id = next_row w1, r_args = args,
            r_state = (if at = zero_time then Available else Scheduled),
            r_attempt = 0, r_max = max_attempts, r_at = t\<rparr>
      in ((), w1\<lparr>next_row := Suc (next_row w1),
               db := (db w1)\<lparr>river_job := river_job (db w1) @ [row]\<rparr>\<rparr>))"

definition pending_delivery :: "river_row \<Rightarrow> bool" where
  "pending_delivery r \<longleftrightarrow> Kind (r_args r) = ''gua_delivery'' \<and> r_state r \<in> set pendingStates"

definition delete_occurrences :: "(river_row \<Rightarrow> bool) \<Rightarrow> nat stmt" where
  "delete_occurrences P w =
     (length (filter (\<lambda>r. pending_delivery r \<and> P r) (river_job (db w))),
      w\<lparr>db := (db w)\<lparr>river_job :=
        filter (\<lambda>r. \<not> (pending_delivery r \<and> P r)) (river_job (db w))\<rparr>\<rparr>)"

definition insert_execution :: "history_entry \<Rightarrow> int \<Rightarrow> unit stmt" where
  "insert_execution h created w =
     ((), w\<lparr>next_seq := Suc (next_seq w),
        db := (db w)\<lparr>gua_executions := gua_executions (db w) @ [(h\<lparr>h_seq := next_seq w\<rparr>, created)]\<rparr>\<rparr>)"

section \<open>Facts\<close>

lemma op_simps [simp]:
  "op_return x w = (Inr x, w)" "op_fail e w = (Inl e, w)" "op_lift r w = (r, w)"
  by (simp_all add: op_return_def op_fail_def op_lift_def)

lemma next_fate_db [simp]: "next_fate w = (f, w') \<Longrightarrow> db w' = db w"
  by (auto simp: next_fate_def split: list.splits)

lemma next_fate_works: "fate w = [] \<Longrightarrow> next_fate w = (Works, w)"
  by (simp add: next_fate_def)

end
