(* ===== verification/River_Config.thy ===== *)
theory River_Config
  imports Go_Strings Go_Time
begin

text \<open>
  Configuration: the environment readers of \<open>logging.go\<close>, what \<open>startRiver\<close> of
  \<open>cmdriver.go\<close> reads, and the defaults \<open>NewRiver\<close> of \<open>delayquene/riverquene.go\<close> applies.
  The environment is a function from names to values, unset being the empty text.
\<close>

type_synonym environment = "string \<Rightarrow> string"

section \<open>Reading the environment\<close>

definition envInt :: "environment \<Rightarrow> string \<Rightarrow> int \<Rightarrow> int" where
  "envInt env key dflt =
     (let v = trim_space (env key) in
      if v \<noteq> [] then (case atoi v of Some n \<Rightarrow> n | None \<Rightarrow> dflt) else dflt)"

text \<open>\<open>strconv.ParseBool\<close>\<close>

definition parse_bool :: "string \<Rightarrow> bool option" where
  "parse_bool s =
     (if s \<in> {''1'', ''t'', ''T'', ''true'', ''TRUE'', ''True''} then Some True
      else if s \<in> {''0'', ''f'', ''F'', ''false'', ''FALSE'', ''False''} then Some False
      else None)"

definition envBool :: "environment \<Rightarrow> string \<Rightarrow> bool \<Rightarrow> bool" where
  "envBool env key dflt =
     (let v = trim_space (env key) in
      if v \<noteq> [] then (case parse_bool v of Some b \<Rightarrow> b | None \<Rightarrow> dflt) else dflt)"

section \<open>The logger's settings\<close>

datatype log_writer = Stdout | Lumberjack string int int int bool
datatype log_level = LevelDebug | LevelInfo | LevelWarn | LevelError
text \<open>The levels are ordered as in \<open>slog\<close>; a handler drops what is below its level.\<close>

fun log_rank :: "log_level \<Rightarrow> int" where
  "log_rank LevelDebug = - 4" | "log_rank LevelInfo = 0" | "log_rank LevelWarn = 4" | "log_rank LevelError = 8"

instantiation log_level :: linorder
begin

definition less_eq_log_level :: "log_level \<Rightarrow> log_level \<Rightarrow> bool" where
  "less_eq_log_level a b \<longleftrightarrow> log_rank a \<le> log_rank b"

definition less_log_level :: "log_level \<Rightarrow> log_level \<Rightarrow> bool" where
  "less_log_level a b \<longleftrightarrow> log_rank a < log_rank b"

instance
proof
  fix a b c :: log_level
  show "a < b \<longleftrightarrow> a \<le> b \<and> \<not> b \<le> a" "a \<le> a" "a \<le> b \<Longrightarrow> b \<le> c \<Longrightarrow> a \<le> c" "a \<le> b \<or> b \<le> a"
    by (auto simp: less_eq_log_level_def less_log_level_def)
  show "a \<le> b \<Longrightarrow> b \<le> a \<Longrightarrow> a = b"
    by (cases a; cases b) (simp_all add: less_eq_log_level_def)
qed

end

datatype log_handler = TextHandler | JSONHandler

record log_setup =
  writers :: "log_writer list"
  level :: log_level
  handler :: log_handler

definition setupLogger :: "environment \<Rightarrow> log_setup" where
  "setupLogger env =
     (let out0 = to_lower (trim_space (env ''LOG_OUTPUT''));
          out = (if out0 = [] then ''stdout'' else out0);
          path0 = trim_space (env ''LOG_FILE'');
          path = (if path0 = [] then ''gua.log'' else path0);
          wantStdout = (out = ''stdout'' \<or> out = ''both'');
          wantFile = (out = ''file'' \<or> out = ''both'');
          ws = (if wantStdout then [Stdout] else []) @
            (if wantFile then [Lumberjack path (envInt env ''LOG_ROTATE_MAX_SIZE_MB'' 100)
               (envInt env ''LOG_ROTATE_MAX_BACKUPS'' 7) (envInt env ''LOG_ROTATE_MAX_AGE_DAYS'' 30)
               (envBool env ''LOG_ROTATE_COMPRESS'' False)] else []);
          lv = to_lower (trim_space (env ''LOG_LEVEL''))
      in \<lparr>writers = (if ws = [] then [Stdout] else ws),
          level = (if lv = ''debug'' then LevelDebug
            else if lv = ''warn'' \<or> lv = ''warning'' then LevelWarn
            else if lv = ''error'' then LevelError else LevelInfo),
          handler = (if to_lower (trim_space (env ''LOG_FORMAT'')) = ''text'' then TextHandler
            else JSONHandler)\<rparr>)"

text \<open>Errors pass whatever the settings; debug output needs to be asked for.\<close>

definition logged :: "environment \<Rightarrow> log_level \<Rightarrow> bool" where
  "logged env lv \<longleftrightarrow> level (setupLogger env) \<le> lv"

lemma errors_logged: "logged env LevelError" and debug_logged:
  "logged env LevelDebug \<longleftrightarrow> to_lower (trim_space (env ''LOG_LEVEL'')) = ''debug''"
  by (auto simp: logged_def setupLogger_def Let_def less_eq_log_level_def)

section \<open>The queue's configuration\<close>

text \<open>Durations are in nanoseconds, \<open>int64\<close> as in Go; \<open>HistoryTTL\<close> is in seconds.\<close>

record config =
  MaxWorkers :: int
  MaxAttempts :: int
  DeliveryTimeout :: int
  MachineHost :: string
  HistoryTTL :: int
  PruneInterval :: int

definition wrap_int64 :: "int \<Rightarrow> int" where
  "wrap_int64 x = (x + 2 ^ 63) mod 2 ^ 64 - 2 ^ 63"

definition defaultMaxWorkers :: int where "defaultMaxWorkers = 50"
definition defaultMaxAttempts :: int where "defaultMaxAttempts = 25"
definition defaultDeliveryTimeout :: int where "defaultDeliveryTimeout = 30 * nanos_per_sec"
definition defaultPruneInterval :: int where "defaultPruneInterval = 10 * 60 * nanos_per_sec"
definition MaxDeliveryTimeout :: int where "MaxDeliveryTimeout = 10 * 60 * nanos_per_sec"
definition riverJobTimeout :: int where "riverJobTimeout = MaxDeliveryTimeout + 30 * nanos_per_sec"
definition rescueAfter :: int where "rescueAfter = 15 * 60 * nanos_per_sec"

lemmas duration_consts = defaultDeliveryTimeout_def defaultPruneInterval_def MaxDeliveryTimeout_def
  riverJobTimeout_def rescueAfter_def defaultMaxWorkers_def defaultMaxAttempts_def

text \<open>The first half of \<open>NewRiver\<close>.\<close>

definition with_defaults :: "config \<Rightarrow> config" where
  "with_defaults c0 =
     (let c1 = (if MaxWorkers c0 \<le> 0 then c0\<lparr>MaxWorkers := defaultMaxWorkers\<rparr> else c0);
          c2 = (if MaxAttempts c1 \<le> 0 then c1\<lparr>MaxAttempts := defaultMaxAttempts\<rparr> else c1);
          c3 = (if DeliveryTimeout c2 \<le> 0 then c2\<lparr>DeliveryTimeout := defaultDeliveryTimeout\<rparr> else c2);
          c4 = (if DeliveryTimeout c3 > MaxDeliveryTimeout
                then c3\<lparr>DeliveryTimeout := MaxDeliveryTimeout\<rparr> else c3)
      in (if PruneInterval c4 \<le> 0 then c4\<lparr>PruneInterval := defaultPruneInterval\<rparr> else c4))"

text \<open>
  What \<open>startRiver\<close> makes of the environment: \<open>None\<close> is the fatal exit when a required
  variable is missing. The product with \<open>time.Second\<close> is an \<open>int64\<close>.
\<close>

definition river_config :: "environment \<Rightarrow> string \<Rightarrow> config option" where
  "river_config env host =
     (if env ''GRPC_LISTEN'' = [] \<or> env ''HTTP_LISTEN'' = [] \<or> env ''PG_DSN'' = [] then None
      else Some (with_defaults
        \<lparr>MaxWorkers = envInt env ''GUA_MAX_WORKERS'' 0,
         MaxAttempts = envInt env ''GUA_MAX_ATTEMPTS'' 0,
         DeliveryTimeout = wrap_int64 (envInt env ''GUA_DELIVERY_TIMEOUT'' 0 * nanos_per_sec),
         MachineHost = host,
         HistoryTTL = envInt env ''GUA_HISTORY_TTL'' (5 * 24 * 3600),
         PruneInterval = 0\<rparr>))"

text \<open>The River client's configuration, the second half of \<open>NewRiver\<close>.\<close>

record client_config =
  cc_workers :: int
  cc_attempts :: int
  cc_timeout :: int
  cc_rescue :: int
  cc_periodic :: "(int \<times> bool) list"

definition river_client :: "config \<Rightarrow> client_config" where
  "river_client c =
     \<lparr>cc_workers = MaxWorkers c, cc_attempts = MaxAttempts c, cc_timeout = riverJobTimeout,
      cc_rescue = rescueAfter,
      cc_periodic = (if HistoryTTL c > 0 then [(PruneInterval c, True)] else [])\<rparr>"

definition wf_config :: "config \<Rightarrow> bool" where
  "wf_config c \<longleftrightarrow> 0 < MaxWorkers c \<and> 0 < MaxAttempts c \<and> 0 < DeliveryTimeout c \<and>
     DeliveryTimeout c \<le> MaxDeliveryTimeout \<and> 0 < PruneInterval c"

lemma with_defaults_wf: "wf_config (with_defaults c)"
  by (simp add: wf_config_def with_defaults_def Let_def duration_consts nanos_per_sec_def)

lemma with_defaults_id: "wf_config c \<Longrightarrow> with_defaults c = c"
  by (simp add: wf_config_def with_defaults_def Let_def)

section \<open>A delivery's timeout\<close>

text \<open>\<open>time.Duration(def.Timeout) * time.Second\<close> in \<open>deliver\<close>, with its default and its cap.\<close>

definition delivery_timeout :: "config \<Rightarrow> int \<Rightarrow> int" where
  "delivery_timeout cfg secs =
     (let t = wrap_int64 (secs * nanos_per_sec);
          t = (if t \<le> 0 then DeliveryTimeout cfg else t)
      in if t > MaxDeliveryTimeout then MaxDeliveryTimeout else t)"

lemma delivery_timeout_bounds:
  "wf_config cfg \<Longrightarrow> 0 < delivery_timeout cfg s \<and> delivery_timeout cfg s \<le> MaxDeliveryTimeout \<and>
     delivery_timeout cfg s < riverJobTimeout \<and> riverJobTimeout \<le> rescueAfter"
  by (simp add: delivery_timeout_def Let_def wf_config_def duration_consts nanos_per_sec_def)

lemma delivery_timeout_small:
  assumes "0 < s" and "s \<le> 9223372036"
  shows "delivery_timeout cfg s = min (s * nanos_per_sec) MaxDeliveryTimeout"
proof -
  have "wrap_int64 (s * nanos_per_sec) = s * nanos_per_sec"
    using assms by (simp add: wrap_int64_def nanos_per_sec_def)
  with assms show ?thesis by (simp add: delivery_timeout_def Let_def nanos_per_sec_def)
qed

end
