(* ===== verification/Queue_Ops.thy ===== *)
theory Queue_Ops
  imports Pg_Store River_Config
begin

text \<open>
  The scheduler surface: \<open>riverQuene\<close>'s implementation of the \<open>Quene\<close> interface in
  \<open>delayquene/riverquene.go\<close>, one definition per method, over the store of \<open>Pg_Store\<close>.
  Instants outside the range of PostgreSQL's \<open>timestamptz\<close>, and texts it does not store, make
  a statement fail, which is one of the fates every statement can have.
\<close>

definition now_unix :: "int op" where
  "now_unix w = (case time_Now w of (t, w') \<Rightarrow> (Inr (unix_secs t), w'))"

definition insertOccurrenceTx :: "config \<Rightarrow> string \<Rightarrow> string \<Rightarrow> int \<Rightarrow> unit op" where
  "insertOccurrenceTx cfg jobId grp at =
     tx_exec (insert_occurrence (nat (MaxAttempts cfg)) (guaJobArgs jobId grp (unix_secs at)) at)"

definition of_job :: "string \<Rightarrow> river_row \<Rightarrow> bool" where
  "of_job jobId r \<longleftrightarrow> (case r_args r of guaJobArgs i g p \<Rightarrow> i = jobId | pruneArgs \<Rightarrow> False)"

definition of_group :: "string \<Rightarrow> river_row \<Rightarrow> bool" where
  "of_group grp r \<longleftrightarrow> (case r_args r of guaJobArgs i g p \<Rightarrow> g = grp | pruneArgs \<Rightarrow> False)"

definition cancelOccurrencesTx :: "string \<Rightarrow> nat op" where
  "cancelOccurrencesTx jobId = tx_exec (delete_occurrences (of_job jobId))"

definition loadJob :: "string \<Rightarrow> job op" where
  "loadJob jobId =
     op_bind (query (\<lambda>d. find (\<lambda>j. job_id j = jobId) (gua_jobs d)))
       (\<lambda>r. case r of None \<Rightarrow> op_fail JobNotFound | Some j \<Rightarrow> op_return j)"

text \<open>\<open>rand.Read\<close> gives eight bytes; \<open>hex.EncodeToString\<close> writes two digits for each.\<close>

definition hex_digit :: "nat \<Rightarrow> char" where
  "hex_digit n = (if n < 10 then char_of (48 + n) else char_of (87 + n))"

fun hex_encode :: "8 word list \<Rightarrow> string" where
  "hex_encode [] = []"
| "hex_encode (b # bs) = hex_digit (unat b div 16) # hex_digit (unat b mod 16) # hex_encode bs"

definition genID :: "(nat \<Rightarrow> 8 word) \<Rightarrow> string" where
  "genID rand = hex_encode (map rand [0..<8])"

section \<open>Push\<close>

text \<open>The checks, in their order, and the two defaults they fill in.\<close>

definition Push_checks :: "job \<Rightarrow> job op" where
  "Push_checks j =
     op_bind (op_lift (ValidateName ''group_name'' (group_name j))) (\<lambda>_.
     op_bind (op_lift (ValidateName ''job_id'' (job_id j))) (\<lambda>_.
     op_bind (if job_name j = [] then op_fail NameRequired else op_return ()) (\<lambda>_.
     op_bind (op_lift (SplitRequestURL (request_url j))) (\<lambda>_.
     op_bind (op_return (if interval_pattern j = [] then j\<lparr>interval_pattern := ''@once''\<rparr> else j)) (\<lambda>j.
     op_bind (op_lift (ValidatePattern (interval_pattern j))) (\<lambda>_.
     op_bind (if exectime j < 0 then op_fail ExecTimeNegative else op_return ()) (\<lambda>_.
     op_bind (if exectime j = 0 then op_bind now_unix (\<lambda>t. op_return (j\<lparr>exectime := t\<rparr>))
              else op_return j) (\<lambda>j.
     if timeout j < 0 then op_fail TimeoutNegative else op_return j))))))))"

definition Push_tx :: "config \<Rightarrow> job \<Rightarrow> unit op" where
  "Push_tx cfg j = run_tx
     (op_bind (query (\<lambda>d. group_name j \<in> set (gua_groups d))) (\<lambda>found.
      if \<not> found then op_fail GroupNotFound
      else op_bind (tx_exec (insert_job j)) (\<lambda>n.
      if n = 0 then op_fail JobIdExists
      else op_bind (insertOccurrenceTx cfg (job_id j) (group_name j) (exectime j * nanos_per_sec)) (\<lambda>_.
      op_return (Commit ())))))"

definition Push :: "config \<Rightarrow> job \<Rightarrow> unit op" where
  "Push cfg j = op_bind (Push_checks j) (Push_tx cfg)"

section \<open>Edit, Active, Pause, Delete\<close>

definition is_job :: "string \<Rightarrow> string \<Rightarrow> job \<Rightarrow> bool" where
  "is_job jobId grp j \<longleftrightarrow> job_id j = jobId \<and> group_name j = grp"

definition Edit :: "string \<Rightarrow> string \<Rightarrow> string \<Rightarrow> string \<Rightarrow> unit op" where
  "Edit grp jobId requestUrl pl =
     op_bind (op_lift (SplitRequestURL requestUrl)) (\<lambda>_.
     op_bind (pool_exec (update_jobs (is_job jobId grp)
         (\<lambda>j. j\<lparr>request_url := requestUrl, payload := pl\<rparr>))) (\<lambda>n.
     if n = 0 then op_fail JobNotFound else op_return ()))"

definition Active_tx :: "config \<Rightarrow> string \<Rightarrow> string \<Rightarrow> int \<Rightarrow> unit op" where
  "Active_tx cfg grp jobId t = run_tx
     (op_bind (tx_exec (update_jobs (is_job jobId grp)
         (\<lambda>j. j\<lparr>active := True, exectime := t\<rparr>))) (\<lambda>n.
      if n = 0 then op_fail JobNotFound
      else op_bind (cancelOccurrencesTx jobId) (\<lambda>_.
      op_bind (insertOccurrenceTx cfg jobId grp (t * nanos_per_sec)) (\<lambda>_.
      op_return (Commit ())))))"

definition Active :: "config \<Rightarrow> string \<Rightarrow> string \<Rightarrow> int \<Rightarrow> unit op" where
  "Active cfg grp jobId t =
     op_bind (if t < 0 then op_fail ExecTimeNegative else op_return ()) (\<lambda>_.
     op_bind (if t = 0 then now_unix else op_return t) (\<lambda>t.
     Active_tx cfg grp jobId t))"

definition Pause :: "string \<Rightarrow> string \<Rightarrow> unit op" where
  "Pause grp jobId = run_tx
     (op_bind (tx_exec (update_jobs (is_job jobId grp) (\<lambda>j. j\<lparr>active := False\<rparr>))) (\<lambda>n.
      if n = 0 then op_fail JobNotFound
      else op_bind (cancelOccurrencesTx jobId) (\<lambda>_. op_return (Commit ()))))"

definition Delete :: "string \<Rightarrow> string \<Rightarrow> unit op" where
  "Delete grp jobId = run_tx
     (op_bind (tx_exec (delete_jobs (is_job jobId grp))) (\<lambda>n.
      if n = 0 then op_fail JobNotFound
      else op_bind (cancelOccurrencesTx jobId) (\<lambda>_. op_return (Commit ()))))"

text \<open>The one statement of \<open>DeleteJobs\<close>: both deletions see the tables as they were.\<close>

definition in_group_named :: "string \<Rightarrow> string \<Rightarrow> job \<Rightarrow> bool" where
  "in_group_named grp name j \<longleftrightarrow> group_name j = grp \<and> (name = [] \<or> job_name j = name)"

definition delete_jobs_stmt :: "string \<Rightarrow> string \<Rightarrow> nat stmt" where
  "delete_jobs_stmt grp name w =
     (let del = map job_id (filter (in_group_named grp name) (gua_jobs (db w)));
          (n, w1) = delete_jobs (in_group_named grp name) w;
          (_, w2) = delete_occurrences (\<lambda>r. of_group grp r \<and> arg_job (r_args r) \<in> set del) w1
      in (n, w2))"

definition DeleteJobs :: "string \<Rightarrow> string \<Rightarrow> nat op" where
  "DeleteJobs grp name = pool_exec (delete_jobs_stmt grp name)"

section \<open>Groups\<close>

definition RegisterGroup :: "string \<Rightarrow> unit op" where
  "RegisterGroup groupName =
     op_bind (op_lift (ValidateName ''group_name'' groupName)) (\<lambda>_.
     op_bind (pool_exec (insert_group groupName)) (\<lambda>n.
     if n = 0 then op_fail GroupExists else op_return ()))"

definition RemoveGroup :: "string \<Rightarrow> unit op" where
  "RemoveGroup groupName = run_tx
     (op_bind (tx_exec (delete_jobs (\<lambda>j. group_name j = groupName))) (\<lambda>_.
      op_bind (tx_exec (delete_occurrences (of_group groupName))) (\<lambda>_.
      op_bind (tx_exec (delete_group groupName)) (\<lambda>n.
      if n = 0 then op_fail GroupNotFound else op_return (Commit ())))))"

definition ExistsGroup :: "string \<Rightarrow> bool op" where
  "ExistsGroup groupName = query (\<lambda>d. length (filter ((=) groupName) (gua_groups d)) > 0)"

definition GroupInfo :: "string \<Rightarrow> string op" where
  "GroupInfo groupName =
     op_bind (query (\<lambda>d. find ((=) groupName) (gua_groups d)))
       (\<lambda>r. case r of None \<Rightarrow> op_fail GroupNotFound | Some g \<Rightarrow> op_return g)"

section \<open>Reading\<close>

text \<open>
  \<open>ORDER BY group_name\<close> follows the database's collation, given by its sort keys. Rows that
  tie are in one of the orders the database may return them in.
\<close>

definition QueryGroups :: "(string \<Rightarrow> 'k::linorder) \<Rightarrow> string list op" where
  "QueryGroups collate = query (\<lambda>d. sort_key collate (gua_groups d))"

definition List_jobs :: "string \<Rightarrow> job list op" where
  "List_jobs grp = query (\<lambda>d. sort_key exectime (filter (\<lambda>j. group_name j = grp) (gua_jobs d)))"

definition count_rows :: "(river_row \<Rightarrow> bool) \<Rightarrow> tables \<Rightarrow> nat" where
  "count_rows P d = length (filter (\<lambda>r. Kind (r_args r) = ''gua_delivery'' \<and>
     r_state r \<in> {Available, Scheduled, Retryable, Pending, Running} \<and> P r) (river_job d))"

definition Stats :: "stats op" where
  "Stats =
     op_bind now_unix (\<lambda>t.
     op_bind (query (\<lambda>d. (count_rows (\<lambda>r. r_state r \<in> set pendingStates) d,
        count_rows (\<lambda>r. r_state r = Running) d, count_rows (\<lambda>r. r_state r = Retryable) d)))
       (\<lambda>(ready, running, retry).
     op_bind (query (\<lambda>d. (length (filter active (gua_jobs d)),
        length (filter (\<lambda>j. \<not> active j) (gua_jobs d))))) (\<lambda>(act, paused).
     op_return \<lparr>st_now = t, st_ready = ready, st_running = running, st_retryable = retry,
       st_active = act, st_paused = paused\<rparr>)))"

definition history_limit :: "int \<Rightarrow> nat" where
  "history_limit lim = (if lim \<le> 0 \<or> lim > 1000 then 100 else nat lim)"

definition History :: "string \<Rightarrow> int \<Rightarrow> history_entry list op" where
  "History grp lim =
     query (\<lambda>d. take (history_limit lim)
       (rev (sort_key h_seq (filter (\<lambda>h. h_group h = grp) (map fst (gua_executions d))))))"

definition Ping :: "unit op" where
  "Ping = query (\<lambda>_. ())"

end
