(* ===== verification/Atomic_Ops.thy ===== *)
theory Atomic_Ops
  imports Pg_Store
begin

text \<open>
  The contract between the store and the operations built on it. Each operation is compared
  with its calm run, in which no statement fails: it either does the same, or it reports a
  storage error having done nothing or all of it. The laws are locales; the closure lemmas say
  which compositions of statements keep them.
\<close>

section \<open>Calm runs\<close>

definition calm :: "world \<Rightarrow> world" where
  "calm w = w\<lparr>fate := []\<rparr>"

definition grows :: "world \<Rightarrow> world \<Rightarrow> bool" where
  "grows w w' \<longleftrightarrow> next_row w \<le> next_row w' \<and> next_seq w \<le> next_seq w' \<and> clock w' = clock w \<and>
     reads w \<le> reads w'"

lemma calm_simps [simp]:
  "fate (calm w) = []" "db (calm w) = db w" "next_row (calm w) = next_row w"
  "next_seq (calm w) = next_seq w" "clock (calm w) = clock w" "reads (calm w) = reads w"
  "calm (w\<lparr>fate := fs\<rparr>) = calm w" "(calm w)\<lparr>fate := fs\<rparr> = w\<lparr>fate := fs\<rparr>"
  "w\<lparr>fate := fate w\<rparr> = w"
  by (simp_all add: calm_def)

lemma calm_id [simp]: "fate w = [] \<Longrightarrow> calm w = w"
  by (simp add: calm_def)

lemma grows_refl [simp]: "grows w w" and grows_fate [simp]: "grows w (w\<lparr>fate := fs\<rparr>)"
  by (simp_all add: grows_def)

lemma grows_fate_right [simp]: "grows w (w'\<lparr>fate := fs\<rparr>) \<longleftrightarrow> grows w w'"
  and grows_fate_left [simp]: "grows (w\<lparr>fate := fs\<rparr>) w' \<longleftrightarrow> grows w w'"
  and grows_calm_left [simp]: "grows (calm w) w' \<longleftrightarrow> grows w w'"
  and grows_db_right [simp]: "grows w (w'\<lparr>db := d\<rparr>) \<longleftrightarrow> grows w w'"
  by (simp_all add: grows_def)

lemma grows_trans [trans]: "grows u v \<Longrightarrow> grows v w \<Longrightarrow> grows u w"
  by (auto simp: grows_def)

lemma next_fate_split: "\<exists>fs. next_fate w = (fst (next_fate w), w\<lparr>fate := fs\<rparr>)"
  by (cases "fate w") (auto simp: next_fate_def intro: exI [of _ "fate w"])

lemma next_fate_cases:
  obtains f fs where "next_fate w = (f, w\<lparr>fate := fs\<rparr>)"
  using next_fate_split by blast

lemma next_fate_calm [simp]: "next_fate (calm w) = (Works, calm w)"
  by (simp add: next_fate_def)

section \<open>Statements\<close>

text \<open>A statement does not depend on the fate of later ones, and never rewinds a sequence.\<close>

locale statement =
  fixes f :: "world \<Rightarrow> 'a \<times> world"
  assumes blind: "f (w\<lparr>fate := fs\<rparr>) = (fst (f w), (snd (f w))\<lparr>fate := fs\<rparr>)"
    and grow: "grows w (snd (f w))"
begin

lemma blind_calm: "f (calm w) = (fst (f w), calm (snd (f w)))"
  using blind [where w = w and fs = "[]"] by (simp add: calm_def)

end

lemma statement_update_jobs: "statement (update_jobs P f)"
  by unfold_locales (simp_all add: update_jobs_def grows_def)

lemma statement_delete_jobs: "statement (delete_jobs P)"
  by unfold_locales (simp_all add: delete_jobs_def grows_def)

lemma statement_insert_job: "statement (insert_job j)"
  by unfold_locales (simp_all add: insert_job_def grows_def)

lemma statement_insert_group: "statement (insert_group g)"
  by unfold_locales (simp_all add: insert_group_def grows_def)

lemma statement_delete_group: "statement (delete_group g)"
  by unfold_locales (simp_all add: delete_group_def grows_def)

lemma statement_delete_occurrences: "statement (delete_occurrences P)"
  by unfold_locales (simp_all add: delete_occurrences_def grows_def)

lemma statement_insert_occurrence: "statement (insert_occurrence m a t)"
  by unfold_locales (simp_all add: insert_occurrence_def grows_def time_Now_def Let_def)

lemma statement_insert_execution: "statement (insert_execution h c)"
  by unfold_locales (simp_all add: insert_execution_def grows_def)

lemmas statements = statement_update_jobs statement_delete_jobs statement_insert_job
  statement_insert_group statement_delete_group statement_delete_occurrences
  statement_insert_occurrence statement_insert_execution

section \<open>Bodies of transactions\<close>

locale steady =
  fixes m :: "world \<Rightarrow> (gua_error + 'a) \<times> world"
  assumes steady: "\<exists>fs. m w = (fst (m (calm w)), (snd (m (calm w)))\<lparr>fate := fs\<rparr>) \<or>
      fst (m w) = Inl StorageError"
    and calm_end: "fate (snd (m (calm w))) = []"
    and grow: "grows w (snd (m w))"

text \<open>The parts that only read.\<close>

locale reading = steady m for m :: "world \<Rightarrow> (gua_error + 'a) \<times> world" +
  assumes same_db: "db (snd (m w)) = db w"

lemma steady_tx_exec:
  assumes "statement f"
  shows "steady (tx_exec f)"
proof -
  note blind = statement.blind [OF assms] and blind_calm = statement.blind_calm [OF assms]
    and grow = statement.grow [OF assms]
  show ?thesis
  proof
    fix w
    obtain fa fs where n: "next_fate w = (fa, w\<lparr>fate := fs\<rparr>)" by (rule next_fate_cases)
    have c: "tx_exec f (calm w) = (Inr (fst (f w)), calm (snd (f w)))"
      by (simp add: tx_exec_def blind_calm)
    then show "fate (snd (tx_exec f (calm w))) = []" by simp
    show "\<exists>fs. tx_exec f w = (fst (tx_exec f (calm w)), (snd (tx_exec f (calm w)))\<lparr>fate := fs\<rparr>) \<or>
        fst (tx_exec f w) = Inl StorageError"
      using n unfolding c by (cases fa) (auto simp: tx_exec_def blind)
    show "grows w (snd (tx_exec f w))"
      using n grow [of w] by (cases fa) (auto simp: tx_exec_def blind)
  qed
qed

lemma reading_query: "reading (query f)"
proof
  fix w
  obtain fa fs where n: "next_fate w = (fa, w\<lparr>fate := fs\<rparr>)" by (rule next_fate_cases)
  show "\<exists>fs. query f w = (fst (query f (calm w)), (snd (query f (calm w)))\<lparr>fate := fs\<rparr>) \<or>
      fst (query f w) = Inl StorageError"
    using n by (cases fa) (auto simp: query_def)
  show "fate (snd (query f (calm w))) = []" by (simp add: query_def)
  show "grows w (snd (query f w))" and "db (snd (query f w)) = db w"
    using n by (cases fa; auto simp: query_def)+
qed

lemma self_fate: "\<exists>fs. w = w\<lparr>fate := fs\<rparr>"
  by (rule exI [of _ "fate w"]) simp

lemma reading_pure: "reading (op_return x)" "reading (op_fail e)" "reading (op_lift r)"
  by unfold_locales (auto simp: self_fate)

lemma reading_if: "reading m \<Longrightarrow> reading n \<Longrightarrow> reading (if b then m else n)"
  by simp

lemma steady_bind:
  assumes "steady m" and "\<And>x. steady (f x)"
  shows "steady (op_bind m f)"
proof -
  note m_steady = steady.steady [OF assms(1)] and m_calm_end = steady.calm_end [OF assms(1)]
    and m_grow = steady.grow [OF assms(1)]
  note f_steady = steady.steady [OF assms(2)] and f_calm_end = steady.calm_end [OF assms(2)]
    and f_grow = steady.grow [OF assms(2)]
  show ?thesis
  proof
    fix w
    obtain r w1 where c: "m (calm w) = (r, w1)" by (cases "m (calm w)")
    have w1: "fate w1 = []" using m_calm_end [of w] c by simp
    show "fate (snd (op_bind m f (calm w))) = []"
      using w1 f_calm_end [of _ w1] by (cases r) (simp_all add: op_bind_def c)
    show "grows w (snd (op_bind m f w))"
      using m_grow [of w] f_grow grows_trans
      by (auto simp: op_bind_def split: prod.split sum.split)
    show "\<exists>fs. op_bind m f w =
        (fst (op_bind m f (calm w)), (snd (op_bind m f (calm w)))\<lparr>fate := fs\<rparr>) \<or>
      fst (op_bind m f w) = Inl StorageError"
    proof (cases "fst (m w) = Inl StorageError")
      case True
      then show ?thesis by (cases "m w") (simp add: op_bind_def)
    next
      case False
      then obtain fs where mw: "m w = (r, w1\<lparr>fate := fs\<rparr>)" using m_steady [of w] c by auto
      show ?thesis
      proof (cases r)
        case (Inl e)
        with mw c show ?thesis by (auto simp: op_bind_def)
      next
        case (Inr x)
        with mw c w1 f_steady [of x "w1\<lparr>fate := fs\<rparr>"] show ?thesis by (auto simp: op_bind_def)
      qed
    qed
  qed
qed

lemma reading_bind:
  assumes "reading m" and "\<And>x. reading (f x)"
  shows "reading (op_bind m f)"
proof -
  have "steady (op_bind m f)" using assms by (intro steady_bind) (simp_all add: reading_def)
  moreover have "db (snd (op_bind m f w)) = db w" for w
  proof (cases "m w")
    case (Pair r v)
    have "db v = db w" using reading.same_db [OF assms(1), of w] Pair by simp
    then show ?thesis
      using reading.same_db [OF assms(2)] by (cases r) (simp_all add: op_bind_def Pair)
  qed
  ultimately show ?thesis by (simp add: reading_def reading_axioms_def)
qed

section \<open>Atomic operations\<close>

locale atomic_op =
  fixes m :: "world \<Rightarrow> (gua_error + 'a) \<times> world"
  assumes atomic: "\<exists>fs. m w = (fst (m (calm w)), (snd (m (calm w)))\<lparr>fate := fs\<rparr>) \<or>
      fst (m w) = Inl StorageError \<and>
        (db (snd (m w)) = db w \<or> snd (m w) = (snd (m (calm w)))\<lparr>fate := fs\<rparr>)"
    and calm_end: "fate (snd (m (calm w))) = []"
    and grow: "grows w (snd (m w))"
begin

lemma success:
  assumes "m w = (Inr x, w')"
  shows "\<exists>w0. m (calm w) = (Inr x, w0) \<and> db w' = db w0"
  using atomic [of w] assms by (cases "m (calm w)") auto

lemma failure:
  assumes "m w = (Inl e, w')" and "e \<noteq> StorageError"
  shows "\<exists>w0. m (calm w) = (Inl e, w0) \<and> db w' = db w0"
  using atomic [of w] assms by (cases "m (calm w)") auto

lemma storage_error:
  assumes "m w = (Inl StorageError, w')"
  shows "db w' = db w \<or> db w' = db (snd (m (calm w)))"
  using atomic [of w] assms by auto

text \<open>What holds of the store after a calm run, and survives growing sequences, holds always.\<close>

lemma preserved:
  assumes "P (db w) (next_row w) (next_seq w)"
    and "\<And>d a b a' b'. P d a b \<Longrightarrow> a \<le> a' \<Longrightarrow> b \<le> b' \<Longrightarrow> P d a' b'"
    and "P (db (snd (m (calm w)))) (next_row (snd (m (calm w)))) (next_seq (snd (m (calm w))))"
  shows "P (db (snd (m w))) (next_row (snd (m w))) (next_seq (snd (m w)))"
proof -
  obtain fs where "snd (m w) = (snd (m (calm w)))\<lparr>fate := fs\<rparr> \<or> db (snd (m w)) = db w"
    using atomic [of w] by (metis snd_conv)
  then show ?thesis
  proof
    assume "snd (m w) = (snd (m (calm w)))\<lparr>fate := fs\<rparr>"
    with assms(3) show ?thesis by simp
  next
    assume "db (snd (m w)) = db w"
    with assms(1,2) grow [of w] show ?thesis by (auto simp: grows_def)
  qed
qed

end

sublocale reading \<subseteq> as_op: atomic_op m
proof
  fix w
  show "\<exists>fs. m w = (fst (m (calm w)), (snd (m (calm w)))\<lparr>fate := fs\<rparr>) \<or>
      fst (m w) = Inl StorageError \<and>
        (db (snd (m w)) = db w \<or> snd (m w) = (snd (m (calm w)))\<lparr>fate := fs\<rparr>)"
    using steady [of w] same_db [of w] by blast
qed (rule calm_end grow)+

lemma atomic_pool_exec:
  assumes "statement f"
  shows "atomic_op (pool_exec f)"
proof -
  note blind = statement.blind [OF assms] and blind_calm = statement.blind_calm [OF assms]
    and grow = statement.grow [OF assms]
  show ?thesis
  proof
    fix w
    obtain fa fs where n: "next_fate w = (fa, w\<lparr>fate := fs\<rparr>)" by (rule next_fate_cases)
    have c: "pool_exec f (calm w) = (Inr (fst (f w)), calm (snd (f w)))"
      by (simp add: pool_exec_def blind_calm)
    then show "fate (snd (pool_exec f (calm w))) = []" by simp
    show "\<exists>fs. pool_exec f w = (fst (pool_exec f (calm w)), (snd (pool_exec f (calm w)))\<lparr>fate := fs\<rparr>) \<or>
        fst (pool_exec f w) = Inl StorageError \<and> (db (snd (pool_exec f w)) = db w \<or>
          snd (pool_exec f w) = (snd (pool_exec f (calm w)))\<lparr>fate := fs\<rparr>)"
      using n unfolding c by (cases fa) (auto simp: pool_exec_def blind)
    show "grows w (snd (pool_exec f w))"
      using n grow [of w] by (cases fa) (auto simp: pool_exec_def blind)
  qed
qed

lemma fate_db_comm: "w\<lparr>fate := fs, db := d\<rparr> = w\<lparr>db := d, fate := fs\<rparr>"
  by (cases w) simp

lemma atomic_run_tx:
  assumes "steady body"
  shows "atomic_op (run_tx body)"
proof -
  note steady = steady.steady [OF assms] and calm_end = steady.calm_end [OF assms]
    and grow = steady.grow [OF assms]
  show ?thesis
  proof
    fix w
    obtain r v where c: "body (calm w) = (r, v)" by (cases "body (calm w)")
    have v: "fate v = []" using calm_end [of w] c by simp
    have cn: "next_fate v = (Works, v)" using v by (rule next_fate_works)
    obtain fa fs where n: "next_fate w = (fa, w\<lparr>fate := fs\<rparr>)" by (rule next_fate_cases)
    show "fate (snd (run_tx body (calm w))) = []"
      using v cn by (simp add: run_tx_def c split: sum.split tx_end.split)
    let ?u = "w\<lparr>fate := fs\<rparr>"
    obtain s u where b: "body ?u = (s, u)" by (cases "body ?u")
    obtain fb gs where nu: "next_fate u = (fb, u\<lparr>fate := gs\<rparr>)" by (rule next_fate_cases)
    have gu: "grows w u" using grow [of ?u] b by simp
    show "grows w (snd (run_tx body w))"
      using n nu gu by (cases fa; cases fb) (auto simp: run_tx_def b split: sum.split tx_end.split)
    have same: "s = r \<and> (\<exists>hs. u = v\<lparr>fate := hs\<rparr>) \<or> s = Inl StorageError"
      using steady [of ?u] b c by auto
    show "\<exists>fs. run_tx body w = (fst (run_tx body (calm w)), (snd (run_tx body (calm w)))\<lparr>fate := fs\<rparr>) \<or>
        fst (run_tx body w) = Inl StorageError \<and> (db (snd (run_tx body w)) = db w \<or>
          snd (run_tx body w) = (snd (run_tx body (calm w)))\<lparr>fate := fs\<rparr>)"
    proof (cases "fa = Works \<and> s \<noteq> Inl StorageError")
      case False
      then show ?thesis using n b by (cases fa) (auto simp: run_tx_def)
    next
      case True
      then obtain hs where u: "s = r" "u = v\<lparr>fate := hs\<rparr>" using same by auto
      have back1: "\<exists>ks. u\<lparr>fate := gs, db := d\<rparr> = v\<lparr>db := d, fate := ks\<rparr>" for d
        unfolding u(2) by (auto simp: fate_db_comm)
      have back2: "\<exists>ks. u\<lparr>db := d\<rparr> = v\<lparr>db := d, fate := ks\<rparr>" for d
        unfolding u(2) by (auto simp: fate_db_comm)
      have back3: "\<exists>ks. u\<lparr>fate := gs\<rparr> = v\<lparr>fate := ks\<rparr>"
        unfolding u(2) by auto
      show ?thesis
      proof (cases r)
        case (Inl e)
        with u(1) True n b c back2 show ?thesis by (simp add: run_tx_def)
      next
        case (Inr x)
        show ?thesis
        proof (cases x)
          case (Leave y)
          with Inr u(1) True n b c back2 show ?thesis by (simp add: run_tx_def)
        next
          case (Commit y)
          have b': "body ?u = (Inr (Commit y), u)" and c': "body (calm w) = (Inr (Commit y), v)"
            using b c u(1) Inr Commit by simp_all
          have r1: "run_tx body w = (case fb of Works \<Rightarrow> (Inr y, u\<lparr>fate := gs\<rparr>)
              | Fails \<Rightarrow> (Inl StorageError, u\<lparr>fate := gs, db := db w\<rparr>)
              | Lost \<Rightarrow> (Inl StorageError, u\<lparr>fate := gs\<rparr>))"
            using n True by (cases fb) (simp_all add: run_tx_def b' nu)
          have r2: "run_tx body (calm w) = (Inr y, v)" by (simp add: run_tx_def c' cn)
          show ?thesis unfolding r1 r2 using back3 by (cases fb) auto
        qed
      qed
    qed
  qed
qed

text \<open>Checks before an atomic operation, and a look at its result after it.\<close>

lemma atomic_after_reading:
  assumes "reading m" and "\<And>x. atomic_op (f x)"
  shows "atomic_op (op_bind m f)"
proof -
  have ms: "steady m" using assms(1) by (simp add: reading_def)
  note m_steady = steady.steady [OF ms] and m_calm_end = steady.calm_end [OF ms]
    and m_grow = steady.grow [OF ms] and m_same_db = reading.same_db [OF assms(1)]
  note f_atomic = atomic_op.atomic [OF assms(2)] and f_calm_end = atomic_op.calm_end [OF assms(2)]
    and f_grow = atomic_op.grow [OF assms(2)]
  show ?thesis
  proof
    fix w
    obtain r w1 where c: "m (calm w) = (r, w1)" by (cases "m (calm w)")
    have w1: "fate w1 = []" "db w1 = db w" using m_calm_end [of w] m_same_db [of "calm w"] c by simp_all
    show "fate (snd (op_bind m f (calm w))) = []"
      using w1 f_calm_end [of _ w1] by (cases r) (simp_all add: op_bind_def c)
    show "grows w (snd (op_bind m f w))"
      using m_grow [of w] f_grow grows_trans
      by (auto simp: op_bind_def split: prod.split sum.split)
    show "\<exists>fs. op_bind m f w =
        (fst (op_bind m f (calm w)), (snd (op_bind m f (calm w)))\<lparr>fate := fs\<rparr>) \<or>
      fst (op_bind m f w) = Inl StorageError \<and> (db (snd (op_bind m f w)) = db w \<or>
        snd (op_bind m f w) = (snd (op_bind m f (calm w)))\<lparr>fate := fs\<rparr>)"
    proof (cases "fst (m w) = Inl StorageError")
      case True
      then show ?thesis using m_same_db [of w] by (cases "m w") (auto simp: op_bind_def)
    next
      case False
      then obtain fs where mw: "m w = (r, w1\<lparr>fate := fs\<rparr>)" using m_steady [of w] c by auto
      show ?thesis
      proof (cases r)
        case (Inl e)
        with mw c show ?thesis by (auto simp: op_bind_def)
      next
        case (Inr x)
        with mw c w1 f_atomic [of x "w1\<lparr>fate := fs\<rparr>"] show ?thesis by (auto simp: op_bind_def)
      qed
    qed
  qed
qed

lemma atomic_then_pure:
  assumes "atomic_op m" and "\<And>x w. snd (f x w) = w" and "\<And>x v w. fst (f x v) = fst (f x w)"
  shows "atomic_op (op_bind m f)"
proof -
  note m_atomic = atomic_op.atomic [OF assms(1)] and m_calm_end = atomic_op.calm_end [OF assms(1)]
    and m_grow = atomic_op.grow [OF assms(1)]
  show ?thesis
  proof
    fix w
    obtain r w1 where c: "m (calm w) = (r, w1)" by (cases "m (calm w)")
    obtain s u where b: "m w = (s, u)" by (cases "m w")
    define g where "g = (\<lambda>x. fst (f x w))"
    have "f x v = (g x, v)" for x v
      unfolding g_def using assms(2) [of x v] assms(3) [of x v w] by (metis prod.collapse)
    then have f: "f = (\<lambda>x v. (g x, v))" by blast
    show "fate (snd (op_bind m f (calm w))) = []"
      using m_calm_end [of w] unfolding f by (simp add: op_bind_def c split: sum.split)
    show "grows w (snd (op_bind m f w))"
      using m_grow [of w] unfolding f by (simp add: op_bind_def b split: sum.split)
    have eq: "op_bind m f w = (case s of Inl e \<Rightarrow> Inl e | Inr x \<Rightarrow> g x, u)"
      "op_bind m f (calm w) = (case r of Inl e \<Rightarrow> Inl e | Inr x \<Rightarrow> g x, w1)"
      unfolding f by (simp_all add: op_bind_def b c split: sum.split)
    show "\<exists>fs. op_bind m f w =
        (fst (op_bind m f (calm w)), (snd (op_bind m f (calm w)))\<lparr>fate := fs\<rparr>) \<or>
      fst (op_bind m f w) = Inl StorageError \<and> (db (snd (op_bind m f w)) = db w \<or>
        snd (op_bind m f w) = (snd (op_bind m f (calm w)))\<lparr>fate := fs\<rparr>)"
      using m_atomic [of w] unfolding eq b c by auto
  qed
qed

end
