(* ===== verification/Queue_Laws.thy ===== *)
theory Queue_Laws
  imports Queue_Ops Atomic_Ops
begin

text \<open>
  Every method of the queue is an interpretation of the contract \<open>atomic_op\<close>, and what each
  does in a calm run, on every branch.
\<close>

section \<open>The methods are atomic\<close>

lemma steady_reading: "reading m \<Longrightarrow> steady m"
  by (simp add: reading_def)

lemma reads_fate: "\<exists>fs. w\<lparr>reads := n\<rparr> = calm w\<lparr>reads := n, fate := fs\<rparr>"
  by (rule exI [of _ "fate w"], cases w) (simp add: calm_def)

lemma reading_now_unix: "reading now_unix"
  by unfold_locales (auto simp: now_unix_def time_Now_def grows_def reads_fate)

lemma steady_insertOccurrenceTx: "steady (insertOccurrenceTx cfg i g t)"
  unfolding insertOccurrenceTx_def by (intro steady_tx_exec statements)

lemma steady_cancelOccurrencesTx: "steady (cancelOccurrencesTx i)"
  unfolding cancelOccurrencesTx_def by (intro steady_tx_exec statements)

lemma steady_if: "steady m \<Longrightarrow> steady n \<Longrightarrow> steady (if b then m else n)"
  by simp

lemmas steady_rules = steady_bind steady_if steady_tx_exec statements steady_insertOccurrenceTx
  steady_cancelOccurrencesTx reading_query [THEN steady_reading] reading_pure [THEN steady_reading]

lemmas reading_rules = reading_bind reading_if reading_query reading_pure reading_now_unix

lemma reading_Push_checks: "reading (Push_checks j)"
  unfolding Push_checks_def by (intro reading_rules)

interpretation push: atomic_op "Push cfg j" for cfg j
  unfolding Push_def Push_tx_def
  by (intro atomic_after_reading reading_Push_checks atomic_run_tx steady_rules)

lemma pure_if_zero:
  "snd ((if n = (0 :: nat) then op_fail e else op_return x) w) = w"
  "fst ((if n = (0 :: nat) then op_fail e else op_return x) v) =
   fst ((if n = 0 then op_fail e else op_return x) w)"
  by simp_all

interpretation edit: atomic_op "Edit grp i u pl" for grp i u pl
  unfolding Edit_def
  by (intro atomic_after_reading atomic_then_pure reading_rules atomic_pool_exec statements pure_if_zero)

interpretation activate: atomic_op "Active cfg grp i t" for cfg grp i t
  unfolding Active_def Active_tx_def
  by (intro atomic_after_reading reading_rules atomic_run_tx steady_rules)

interpretation pause: atomic_op "Pause grp i" for grp i
  unfolding Pause_def by (intro atomic_run_tx steady_rules)

interpretation delete: atomic_op "Delete grp i" for grp i
  unfolding Delete_def by (intro atomic_run_tx steady_rules)

lemma statement_delete_jobs_stmt: "statement (delete_jobs_stmt grp name)"
  by unfold_locales (simp_all add: delete_jobs_stmt_def delete_jobs_def delete_occurrences_def grows_def)

interpretation delete_named: atomic_op "DeleteJobs grp name" for grp name
  unfolding DeleteJobs_def by (intro atomic_pool_exec statement_delete_jobs_stmt)

interpretation register: atomic_op "RegisterGroup g" for g
  unfolding RegisterGroup_def
  by (intro atomic_after_reading atomic_then_pure reading_rules atomic_pool_exec statements pure_if_zero)

interpretation remove_group: atomic_op "RemoveGroup g" for g
  unfolding RemoveGroup_def by (intro atomic_run_tx steady_rules)

interpretation group_exists: reading "ExistsGroup g" for g
  unfolding ExistsGroup_def by (intro reading_rules)

interpretation query_groups: reading "QueryGroups collate" for collate
  unfolding QueryGroups_def by (intro reading_rules)

interpretation list_of: reading "List_jobs grp" for grp
  unfolding List_jobs_def by (intro reading_rules)

interpretation history: reading "History grp lim" for grp lim
  unfolding History_def by (intro reading_rules)

interpretation ping: reading Ping
  unfolding Ping_def by (intro reading_rules)

lemma reading_option: "(\<And>x. reading (f x)) \<Longrightarrow> reading m \<Longrightarrow> reading (case r of None \<Rightarrow> m | Some x \<Rightarrow> f x)"
  by (cases r) simp_all

lemma reading_prod: "(\<And>x y. reading (f x y)) \<Longrightarrow> reading (case p of (x, y) \<Rightarrow> f x y)"
  by (cases p) simp

interpretation group_info: reading "GroupInfo g" for g
  unfolding GroupInfo_def by (intro reading_rules reading_option)

interpretation stats: reading Stats
  unfolding Stats_def by (intro reading_rules reading_prod)

interpretation load: reading "loadJob i" for i
  unfolding loadJob_def by (intro reading_rules reading_option)

section \<open>Calm runs\<close>

lemma calm_exec [simp]:
  "fate w = [] \<Longrightarrow> tx_exec f w = (Inr (fst (f w)), snd (f w))"
  "fate w = [] \<Longrightarrow> pool_exec f w = (Inr (fst (f w)), snd (f w))"
  "fate w = [] \<Longrightarrow> query q w = (Inr (q (db w)), w)"
  by (simp_all add: tx_exec_def pool_exec_def query_def next_fate_works split: prod.split)

lemma calm_run_tx:
  "fate w = [] \<Longrightarrow> run_tx body w =
     (case body w of
        (Inl e, w2) \<Rightarrow> (Inl e, w2\<lparr>db := db w\<rparr>)
      | (Inr (Leave x), w2) \<Rightarrow> (Inr x, w2\<lparr>db := db w\<rparr>)
      | (Inr (Commit x), w2) \<Rightarrow> (case next_fate w2 of
           (Works, w3) \<Rightarrow> (Inr x, w3)
         | (Fails, w3) \<Rightarrow> (Inl StorageError, w3\<lparr>db := db w\<rparr>)
         | (Lost, w3) \<Rightarrow> (Inl StorageError, w3)))"
  by (simp add: run_tx_def next_fate_works)

definition new_row :: "config \<Rightarrow> nat \<Rightarrow> string \<Rightarrow> string \<Rightarrow> int \<Rightarrow> river_row" where
  "new_row cfg k i g t =
     \<lparr>r_id = k, r_args = guaJobArgs i g t, r_state = Scheduled, r_attempt = 0,
      r_max = nat (MaxAttempts cfg), r_at = t * nanos_per_sec\<rparr>"

lemma unix_secs_whole [simp]: "unix_secs (t * nanos_per_sec) = t"
  by (simp add: unix_secs_def nanos_per_sec_def)

lemma not_zero_time: "0 \<le> t \<Longrightarrow> t * nanos_per_sec \<noteq> zero_time"
  by (simp add: zero_time_def nanos_per_sec_def)

lemma calm_insertOccurrenceTx:
  "fate w = [] \<Longrightarrow> 0 \<le> t \<Longrightarrow> insertOccurrenceTx cfg i g (t * nanos_per_sec) w =
     (Inr (), w\<lparr>next_row := Suc (next_row w),
        db := (db w)\<lparr>river_job := river_job (db w) @ [new_row cfg (next_row w) i g t]\<rparr>\<rparr>)"
  by (simp add: insertOccurrenceTx_def insert_occurrence_def not_zero_time new_row_def)

lemma Push_checks_Inr:
  assumes "Push_checks j w = (Inr j', w1)"
  shows "ValidateName ''group_name'' (group_name j) = Inr () \<and>
    ValidateName ''job_id'' (job_id j) = Inr () \<and> job_name j \<noteq> [] \<and>
    (\<exists>kt. SplitRequestURL (request_url j) = Inr kt) \<and> ValidatePattern (interval_pattern j') = Inr () \<and>
    0 \<le> exectime j \<and> 0 \<le> timeout j \<and>
    j' = j\<lparr>interval_pattern := (if interval_pattern j = [] then ''@once'' else interval_pattern j),
      exectime := (if exectime j = 0 then unix_secs (fst (time_Now w)) else exectime j)\<rparr> \<and>
    db w1 = db w \<and> next_row w1 = next_row w \<and> next_seq w1 = next_seq w \<and> fate w1 = fate w"
  using assms
  by (auto simp: Push_checks_def op_bind_def now_unix_def time_Now_def
      split: prod.splits sum.splits if_splits)

lemma Push_checks_Inl:
  assumes "Push_checks j w = (Inl e, w1)"
  shows "errors_Is e ErrInvalid \<and> db w1 = db w"
  using assms
  by (auto simp: Push_checks_def op_bind_def now_unix_def time_Now_def errors_Is_def
      split: prod.splits sum.splits if_splits
      dest: ValidateName_error ValidatePattern_error SplitRequestURL_error)

lemma calm_Push_tx:
  assumes "fate w = []" and "0 \<le> exectime j"
  shows "Push_tx cfg j w =
    (if group_name j \<notin> set (gua_groups (db w)) then (Inl GroupNotFound, w)
     else if job_id j \<in> set (map job_id (gua_jobs (db w))) then (Inl JobIdExists, w)
     else (Inr (), w\<lparr>next_row := Suc (next_row w),
        db := (db w)\<lparr>gua_jobs := gua_jobs (db w) @ [j\<lparr>active := True\<rparr>],
          river_job := river_job (db w) @
            [new_row cfg (next_row w) (job_id j) (group_name j) (exectime j)]\<rparr>\<rparr>))"
  using assms
  by (simp add: Push_tx_def calm_run_tx op_bind_def insert_job_def calm_insertOccurrenceTx
      next_fate_works)

end
