(* ===== verification/Queue_Spec.thy ===== *)
theory Queue_Spec
  imports Queue_Laws "HOL-Library.Multiset"
begin

text \<open>
  What the queue promises, without a database: the groups, the definition of each job, and the
  multiset of occurrences that are due. One request is one step; the results are the classes of
  errors the API layers tell apart.
\<close>

section \<open>The abstract queue\<close>

record aqueue =
  q_groups :: "string set"
  q_jobs :: "string \<Rightarrow> job option"
  q_due :: "river_args multiset"

definition find_job :: "string \<Rightarrow> job list \<Rightarrow> job option" where
  "find_job i js = find (\<lambda>j. job_id j = i) js"

definition abs_queue :: "tables \<Rightarrow> aqueue" where
  "abs_queue d =
     \<lparr>q_groups = set (gua_groups d), q_jobs = (\<lambda>i. find_job i (gua_jobs d)),
      q_due = image_mset r_args (filter_mset pending_delivery (mset (river_job d)))\<rparr>"

datatype request =
    RPush job
  | REdit string string string string
  | RActive string string int
  | RPause string string
  | RDelete string string
  | RDeleteJobs string string
  | RRegister string
  | RRemove string

definition valid_job :: "job \<Rightarrow> bool" where
  "valid_job j \<longleftrightarrow> ValidateName ''group_name'' (group_name j) = Inr () \<and>
     ValidateName ''job_id'' (job_id j) = Inr () \<and> job_name j \<noteq> [] \<and>
     \<not> isl (SplitRequestURL (request_url j)) \<and> ValidatePattern (interval_pattern j) = Inr () \<and>
     0 \<le> exectime j \<and> 0 \<le> timeout j"

definition stored_job :: "int \<Rightarrow> job \<Rightarrow> job" where
  "stored_job now j = j\<lparr>interval_pattern := (if interval_pattern j = [] then ''@once'' else interval_pattern j),
     exectime := (if exectime j = 0 then now else exectime j), active := True\<rparr>"

text \<open>A job found in the group the caller names.\<close>

definition lookup_in :: "aqueue \<Rightarrow> string \<Rightarrow> string \<Rightarrow> job option" where
  "lookup_in a g i =
     (case q_jobs a i of Some j \<Rightarrow> if group_name j = g then Some j else None | None \<Rightarrow> None)"

fun about_job :: "string \<Rightarrow> river_args \<Rightarrow> bool" where
  "about_job i (guaJobArgs k g p) = (k = i)"
| "about_job i pruneArgs = False"

fun about_group :: "string \<Rightarrow> river_args \<Rightarrow> bool" where
  "about_group g (guaJobArgs k h p) = (h = g)"
| "about_group g pruneArgs = False"

text \<open>The promised step, at Unix time \<open>now\<close>. The number is the count of affected jobs.\<close>

fun promised :: "int \<Rightarrow> request \<Rightarrow> aqueue \<Rightarrow> (sentinel + nat) \<times> aqueue" where
  "promised now (RPush j) a =
     (if \<not> valid_job j then (Inl ErrInvalid, a)
      else if group_name j \<notin> q_groups a then (Inl ErrNotFound, a)
      else if q_jobs a (job_id j) \<noteq> None then (Inl ErrDuplicate, a)
      else (Inr 1, a\<lparr>q_jobs := (q_jobs a)(job_id j \<mapsto> stored_job now j),
        q_due := q_due a + {#guaJobArgs (job_id j) (group_name j) (exectime (stored_job now j))#}\<rparr>))"
| "promised now (REdit g i u pl) a =
     (if isl (SplitRequestURL u) then (Inl ErrInvalid, a)
      else (case lookup_in a g i of
          None \<Rightarrow> (Inl ErrNotFound, a)
        | Some j \<Rightarrow> (Inr 1, a\<lparr>q_jobs := (q_jobs a)(i \<mapsto> j\<lparr>request_url := u, payload := pl\<rparr>)\<rparr>)))"
| "promised now (RActive g i t) a =
     (if t < 0 then (Inl ErrInvalid, a)
      else (case lookup_in a g i of
          None \<Rightarrow> (Inl ErrNotFound, a)
        | Some j \<Rightarrow> (let at = (if t = 0 then now else t) in
            (Inr 1, a\<lparr>q_jobs := (q_jobs a)(i \<mapsto> j\<lparr>active := True, exectime := at\<rparr>),
               q_due := {#x \<in># q_due a. \<not> about_job i x#} + {#guaJobArgs i g at#}\<rparr>))))"
| "promised now (RPause g i) a =
     (case lookup_in a g i of
        None \<Rightarrow> (Inl ErrNotFound, a)
      | Some j \<Rightarrow> (Inr 1, a\<lparr>q_jobs := (q_jobs a)(i \<mapsto> j\<lparr>active := False\<rparr>),
          q_due := {#x \<in># q_due a. \<not> about_job i x#}\<rparr>))"
| "promised now (RDelete g i) a =
     (case lookup_in a g i of
        None \<Rightarrow> (Inl ErrNotFound, a)
      | Some j \<Rightarrow> (Inr 1, a\<lparr>q_jobs := (q_jobs a)(i := None),
          q_due := {#x \<in># q_due a. \<not> about_job i x#}\<rparr>))"
| "promised now (RDeleteJobs g n) a =
     (let gone = {i. \<exists>j. q_jobs a i = Some j \<and> in_group_named g n j} in
      (Inr (card gone), a\<lparr>q_jobs := (\<lambda>i. if i \<in> gone then None else q_jobs a i),
         q_due := {#x \<in># q_due a. \<not> (about_group g x \<and> arg_job x \<in> gone)#}\<rparr>))"
| "promised now (RRegister g) a =
     (if ValidateName ''group_name'' g \<noteq> Inr () then (Inl ErrInvalid, a)
      else if g \<in> q_groups a then (Inl ErrDuplicate, a)
      else (Inr 1, a\<lparr>q_groups := insert g (q_groups a)\<rparr>))"
| "promised now (RRemove g) a =
     (if g \<notin> q_groups a then (Inl ErrNotFound, a)
      else (Inr 1, a\<lparr>q_groups := q_groups a - {g},
         q_jobs := (\<lambda>i. if lookup_in a g i \<noteq> None then None else q_jobs a i),
         q_due := {#x \<in># q_due a. \<not> about_group g x#}\<rparr>))"

text \<open>The methods behind the requests.\<close>

definition one :: "unit op \<Rightarrow> nat op" where
  "one m = op_bind m (\<lambda>_. op_return 1)"

fun perform :: "config \<Rightarrow> request \<Rightarrow> nat op" where
  "perform cfg (RPush j) = one (Push cfg j)"
| "perform cfg (REdit g i u pl) = one (Edit g i u pl)"
| "perform cfg (RActive g i t) = one (Active cfg g i t)"
| "perform cfg (RPause g i) = one (Pause g i)"
| "perform cfg (RDelete g i) = one (Delete g i)"
| "perform cfg (RDeleteJobs g n) = DeleteJobs g n"
| "perform cfg (RRegister g) = one (RegisterGroup g)"
| "perform cfg (RRemove g) = one (RemoveGroup g)"

section \<open>Every request is atomic\<close>

lemma atomic_one: "atomic_op m \<Longrightarrow> atomic_op (one m)"
  unfolding one_def by (rule atomic_then_pure) simp_all

interpretation requests: atomic_op "perform cfg r" for cfg r
  by (cases r; simp add: delete_named.atomic_op_axioms; rule atomic_one;
    rule push.atomic_op_axioms edit.atomic_op_axioms activate.atomic_op_axioms
      pause.atomic_op_axioms delete.atomic_op_axioms register.atomic_op_axioms
      remove_group.atomic_op_axioms)

section \<open>Well-formed stores\<close>

definition wf_job :: "job \<Rightarrow> bool" where
  "wf_job j \<longleftrightarrow> ValidateName ''group_name'' (group_name j) = Inr () \<and>
     ValidateName ''job_id'' (job_id j) = Inr () \<and> job_name j \<noteq> [] \<and>
     \<not> isl (SplitRequestURL (request_url j)) \<and> ValidatePattern (interval_pattern j) = Inr () \<and>
     interval_pattern j \<noteq> [] \<and> 0 \<le> timeout j"

definition wf_row :: "river_row \<Rightarrow> bool" where
  "wf_row r \<longleftrightarrow> r_attempt r \<le> r_max r"

text \<open>The tables against the next values of the two sequences.\<close>

definition wf_tables :: "tables \<Rightarrow> nat \<Rightarrow> nat \<Rightarrow> bool" where
  "wf_tables d rows seqs \<longleftrightarrow>
     distinct (gua_groups d) \<and> distinct (map job_id (gua_jobs d)) \<and>
     distinct (map r_id (river_job d)) \<and> distinct (map (h_seq \<circ> fst) (gua_executions d)) \<and>
     list_all wf_job (gua_jobs d) \<and> list_all wf_row (river_job d) \<and>
     list_all (\<lambda>j. group_name j \<in> set (gua_groups d)) (gua_jobs d) \<and>
     list_all (\<lambda>r. r_id r < rows) (river_job d) \<and>
     list_all (\<lambda>e. h_seq (fst e) < seqs) (gua_executions d)"

definition wf_world :: "world \<Rightarrow> bool" where
  "wf_world w \<longleftrightarrow> wf_tables (db w) (next_row w) (next_seq w)"

lemma wf_tables_mono: "wf_tables d a b \<Longrightarrow> a \<le> a' \<Longrightarrow> b \<le> b' \<Longrightarrow> wf_tables d a' b'"
  by (fastforce simp: wf_tables_def list_all_iff)

section \<open>Finding jobs\<close>

lemma find_job_map:
  assumes "\<And>j. job_id (f j) = job_id j"
  shows "find_job i (map f js) = map_option f (find_job i js)"
  using assms by (induction js) (auto simp: find_job_def)

lemma find_job_append:
  "find_job i (js @ [j]) = (case find_job i js of Some k \<Rightarrow> Some k | None \<Rightarrow> if job_id j = i then Some j else None)"
  by (induction js) (auto simp: find_job_def)

lemma find_job_None: "find_job i js = None \<longleftrightarrow> i \<notin> set (map job_id js)"
  by (induction js) (auto simp: find_job_def)

lemma find_job_image: "i \<in> job_id ` set js \<longleftrightarrow> find_job i js \<noteq> None"
  using find_job_None [of i js] by auto

lemma find_job_SomeD: "find_job i js = Some j \<Longrightarrow> j \<in> set js \<and> job_id j = i"
  by (auto simp: find_job_def dest: find_SomeD)

lemma find_job_in:
  "distinct (map job_id js) \<Longrightarrow> j \<in> set js \<Longrightarrow> find_job (job_id j) js = Some j"
  by (induction js) (auto simp: find_job_def)

lemma find_job_filter:
  assumes "distinct (map job_id js)"
  shows "find_job i (filter P js) = (case find_job i js of Some j \<Rightarrow> if P j then Some j else None | None \<Rightarrow> None)"
proof (cases "find_job i js")
  case None
  then have "find_job i (filter P js) = None" by (auto simp: find_job_None)
  with None show ?thesis by simp
next
  case (Some j)
  from find_job_SomeD [OF Some] have j: "j \<in> set js" "job_id j = i" by simp_all
  have d: "distinct (map job_id (filter P js))" using assms by (simp add: distinct_map_filter)
  show ?thesis
  proof (cases "P j")
    case True
    with j find_job_in [OF d, of j] Some show ?thesis by simp
  next
    case False
    have "k = j" if "k \<in> set js" "job_id k = i" for k
      using assms that j by (auto simp: distinct_map inj_on_def)
    with False have "find_job i (filter P js) = None" by (auto simp: find_job_None)
    with Some False show ?thesis by simp
  qed
qed

lemma no_match_iff:
  assumes "distinct (map job_id js)"
  shows "filter (is_job i g) js = [] \<longleftrightarrow>
    (case find_job i js of Some j \<Rightarrow> group_name j \<noteq> g | None \<Rightarrow> True)"
proof (cases "find_job i js")
  case None
  then have "i \<notin> set (map job_id js)" using find_job_None by blast
  then have "filter (is_job i g) js = []" by (auto simp: filter_empty_conv is_job_def)
  with None show ?thesis by simp
next
  case (Some j)
  from find_job_SomeD [OF Some] have j: "j \<in> set js" "job_id j = i" by simp_all
  have only: "k = j" if "k \<in> set js" "job_id k = i" for k
    using assms that j by (auto simp: distinct_map inj_on_def)
  have "filter (is_job i g) js = [] \<longleftrightarrow> group_name j \<noteq> g"
  proof
    assume "filter (is_job i g) js = []"
    with j show "group_name j \<noteq> g" by (simp add: filter_empty_conv is_job_def)
  next
    assume g: "group_name j \<noteq> g"
    have "\<not> is_job i g k" if "k \<in> set js" for k
      using only [OF that] g by (metis is_job_def)
    then show "filter (is_job i g) js = []" by (simp add: filter_empty_conv)
  qed
  with Some show ?thesis by simp
qed

section \<open>Abstraction of the statements\<close>

lemma about_job_of: "of_job i r \<longleftrightarrow> about_job i (r_args r)"
  by (cases "r_args r") (simp_all add: of_job_def)

lemma about_group_of: "of_group g r \<longleftrightarrow> about_group g (r_args r)"
  by (cases "r_args r") (simp_all add: of_group_def)

lemma due_deleted:
  "image_mset r_args (filter_mset pending_delivery {#r \<in># rows. pending_delivery r \<longrightarrow> \<not> Q (r_args r)#}) =
   {#x \<in># image_mset r_args (filter_mset pending_delivery rows). \<not> Q x#}"
  by (induction rows) auto

lemma pending_new_row [simp]: "pending_delivery (new_row cfg k i g t)"
  by (simp add: pending_delivery_def new_row_def pendingStates_def)

lemma new_row_simps [simp]:
  "r_args (new_row cfg k i g t) = guaJobArgs i g t" "r_id (new_row cfg k i g t) = k"
  "wf_row (new_row cfg k i g t)"
  by (simp_all add: new_row_def wf_row_def)

lemma abs_queue_simps [simp]:
  "q_groups (abs_queue d) = set (gua_groups d)" "q_jobs (abs_queue d) i = find_job i (gua_jobs d)"
  "q_due (abs_queue d) = image_mset r_args (filter_mset pending_delivery (mset (river_job d)))"
  by (simp_all add: abs_queue_def)

lemma aqueue_eqI:
  fixes a b :: aqueue
  assumes "q_groups a = q_groups b" and "\<And>i. q_jobs a i = q_jobs b i" and "q_due a = q_due b"
  shows "a = b"
  using assms by (cases a; cases b) auto

lemma lookup_in_iff:
  assumes "distinct (map job_id (gua_jobs d))"
  shows "lookup_in (abs_queue d) g i = None \<longleftrightarrow> filter (is_job i g) (gua_jobs d) = []"
  using no_match_iff [OF assms, of i g] by (simp add: lookup_in_def split: option.split)

lemma lookup_in_SomeD:
  "lookup_in a g i = Some j \<Longrightarrow> q_jobs a i = Some j \<and> group_name j = g"
  by (auto simp: lookup_in_def split: option.splits if_splits)

text \<open>Updating the job a request names, in the list and in the map.\<close>

lemma find_job_update:
  assumes "distinct (map job_id js)" and "find_job i js = Some j" and "group_name j = g"
    and "\<And>j. job_id (f j) = job_id j"
  shows "find_job k (map (\<lambda>j. if is_job i g j then f j else j) js) =
    ((\<lambda>k. find_job k js)(i \<mapsto> f j)) k"
proof -
  have "find_job k (map (\<lambda>j. if is_job i g j then f j else j) js) =
      map_option (\<lambda>j. if is_job i g j then f j else j) (find_job k js)"
    by (rule find_job_map) (simp add: assms(4))
  then show ?thesis
    using assms(2,3) by (cases "find_job k js") (auto simp: is_job_def dest: find_job_SomeD)
qed

text \<open>The result classes.\<close>

definition result_class :: "gua_error + 'a \<Rightarrow> sentinel option + 'a" where
  "result_class r = (case r of Inl e \<Rightarrow> Inl (sentinel_of e) | Inr x \<Rightarrow> Inr x)"

lemma result_class_simps [simp]:
  "result_class (Inl e) = Inl (sentinel_of e)" "result_class (Inr x) = Inr x"
  by (simp_all add: result_class_def)

definition promised_class :: "sentinel + nat \<Rightarrow> sentinel option + nat" where
  "promised_class r = (case r of Inl e \<Rightarrow> Inl (Some e) | Inr x \<Rightarrow> Inr x)"

lemma promised_class_simps [simp]:
  "promised_class (Inl e) = Inl (Some e)" "promised_class (Inr x) = Inr x"
  by (simp_all add: promised_class_def)

text \<open>One calm request does what is promised, at the time the clock shows first.\<close>

definition keeps_promise :: "config \<Rightarrow> request \<Rightarrow> world \<Rightarrow> bool" where
  "keeps_promise cfg r w \<longleftrightarrow>
     (case perform cfg r w of (x, w') \<Rightarrow>
       (case promised (unix_secs (fst (time_Now w))) r (abs_queue (db w)) of (y, a') \<Rightarrow>
          result_class x = promised_class y \<and> abs_queue (db w') = a'))"

lemma one_simps [simp]:
  "one m w = (case m w of (Inl e, w') \<Rightarrow> (Inl e, w') | (Inr x, w') \<Rightarrow> (Inr 1, w'))"
  by (simp add: one_def op_bind_def split: prod.split sum.split)

lemma Push_checks_valid:
  "isl (fst (Push_checks j w)) \<longleftrightarrow> \<not> valid_job j"
proof -
  have url: "isl r \<longleftrightarrow> (\<exists>e. r = Inl e)" for r :: "gua_error + 'b" by (cases r) auto
  have empty: "ValidatePattern [] = Inr ()" "ValidatePattern ''@once'' = Inr ()"
    by (simp_all add: ValidatePattern_def IsOnce_def)
  show ?thesis
    by (auto simp: Push_checks_def valid_job_def op_bind_def now_unix_def time_Now_def empty
        split: sum.split prod.split)
qed

lemma promise_push:
  assumes "fate w = []" and "wf_world w" and "0 \<le> clock w (reads w)"
  shows "keeps_promise cfg (RPush j) w"
proof (cases "valid_job j")
  case False
  then obtain e w1 where c: "Push_checks j w = (Inl e, w1)"
    using Push_checks_valid [of j w] by (cases "Push_checks j w") (auto simp: isl_def)
  with Push_checks_Inl [OF c] False show ?thesis
    by (simp add: keeps_promise_def Push_def op_bind_def errors_Is_def)
next
  case True
  then obtain j' w1 where c: "Push_checks j w = (Inr j', w1)"
    using Push_checks_valid [of j w] by (cases "Push_checks j w"; cases "fst (Push_checks j w)") auto
  let ?now = "unix_secs (fst (time_Now w))"
  from Push_checks_Inr [OF c] have
    j': "j'\<lparr>active := True\<rparr> = stored_job ?now j" "job_id j' = job_id j" "group_name j' = group_name j"
      "exectime j' = exectime (stored_job ?now j)" and
    w1: "db w1 = db w" "next_row w1 = next_row w" "fate w1 = []"
    using assms(1) by (simp_all add: stored_job_def)
  have "0 \<le> ?now" using assms(3) by (simp add: time_Now_def unix_secs_def nanos_per_sec_def pos_imp_zdiv_nonneg_iff)
  with True have nonneg: "0 \<le> exectime j'" by (simp add: j'(4) stored_job_def valid_job_def)
  have P: "Push cfg j w = Push_tx cfg j' w1" by (simp add: Push_def op_bind_def c)
  show ?thesis
  proof (cases "group_name j \<in> set (gua_groups (db w)) \<and> find_job (job_id j) (gua_jobs (db w)) = None")
    case False
    with True show ?thesis
      by (auto simp: keeps_promise_def P calm_Push_tx [OF w1(3) nonneg] w1 j'(2,3) find_job_image)
  next
    case fresh: True
    have "abs_queue (db w\<lparr>gua_jobs := gua_jobs (db w) @ [stored_job ?now j],
        river_job := river_job (db w) @ [new_row cfg (next_row w) (job_id j) (group_name j)
          (exectime (stored_job ?now j))]\<rparr>) =
      snd (promised ?now (RPush j) (abs_queue (db w)))"
      using True fresh by (intro aqueue_eqI) (auto simp: find_job_append stored_job_def split: option.split)
    with True fresh show ?thesis
      by (simp add: keeps_promise_def P calm_Push_tx [OF w1(3) nonneg] w1 j' find_job_image)
  qed
qed

lemma wf_distinct: "wf_world w \<Longrightarrow> distinct (map job_id (gua_jobs (db w)))"
  by (simp add: wf_world_def wf_tables_def)

lemma isl_ex: "isl r \<longleftrightarrow> (\<exists>e. r = Inl e)"
  by (cases r) auto

text \<open>The rows that match, when the caller's group holds the job and when it does not.\<close>

lemma lookup_rows:
  assumes "wf_world w"
  shows "lookup_in (abs_queue (db w)) g i = None \<Longrightarrow> filter (is_job i g) (gua_jobs (db w)) = []"
    and "lookup_in (abs_queue (db w)) g i = Some j \<Longrightarrow> filter (is_job i g) (gua_jobs (db w)) \<noteq> [] \<and>
      find_job i (gua_jobs (db w)) = Some j \<and> group_name j = g"
proof -
  note l = lookup_in_iff [OF wf_distinct [OF assms], of g i]
  show "lookup_in (abs_queue (db w)) g i = None \<Longrightarrow> filter (is_job i g) (gua_jobs (db w)) = []"
    using l by simp
  assume "lookup_in (abs_queue (db w)) g i = Some j"
  with l lookup_in_SomeD [OF this] show "filter (is_job i g) (gua_jobs (db w)) \<noteq> [] \<and>
      find_job i (gua_jobs (db w)) = Some j \<and> group_name j = g" by simp
qed

lemma no_rows_unchanged: "filter P js = [] \<Longrightarrow> map (\<lambda>j. if P j then f j else j) js = js"
  by (induction js) (auto split: if_splits)

lemma promise_edit:
  assumes "fate w = []" and "wf_world w"
  shows "keeps_promise cfg (REdit g i u pl) w"
proof (cases "isl (SplitRequestURL u)")
  case True
  then obtain e where "SplitRequestURL u = Inl e" by (auto simp: isl_ex)
  with SplitRequestURL_error [OF this] show ?thesis
    by (simp add: keeps_promise_def Edit_def op_bind_def)
next
  case False
  then obtain kt where u: "SplitRequestURL u = Inr kt" by (cases "SplitRequestURL u") auto
  show ?thesis
  proof (cases "lookup_in (abs_queue (db w)) g i")
    case None
    with lookup_rows(1) [OF assms(2) None] assms(1) u show ?thesis
      by (simp add: keeps_promise_def Edit_def op_bind_def update_jobs_def no_rows_unchanged)
  next
    case (Some j)
    note rows = lookup_rows(2) [OF assms(2) Some]
    have "abs_queue (db w\<lparr>gua_jobs := map (\<lambda>j. if is_job i g j then j\<lparr>request_url := u, payload := pl\<rparr> else j)
        (gua_jobs (db w))\<rparr>) =
      abs_queue (db w)\<lparr>q_jobs := (q_jobs (abs_queue (db w)))(i \<mapsto> j\<lparr>request_url := u, payload := pl\<rparr>)\<rparr>"
      using rows by (intro aqueue_eqI) (simp_all add: find_job_update [OF wf_distinct [OF assms(2)]])
    with rows Some assms(1) u show ?thesis
      by (simp add: keeps_promise_def Edit_def op_bind_def update_jobs_def)
  qed
qed

lemma cancel_calm:
  "fate w = [] \<Longrightarrow> cancelOccurrencesTx i w =
     (Inr (length (filter (\<lambda>r. pending_delivery r \<and> about_job i (r_args r)) (river_job (db w)))),
      w\<lparr>db := (db w)\<lparr>river_job :=
        filter (\<lambda>r. \<not> (pending_delivery r \<and> about_job i (r_args r))) (river_job (db w))\<rparr>\<rparr>)"
  by (simp add: cancelOccurrencesTx_def delete_occurrences_def about_job_of)

text \<open>The calm runs of the methods on one job, in terms of the rows they touch.\<close>

definition changed_job :: "string \<Rightarrow> string \<Rightarrow> (job \<Rightarrow> job) \<Rightarrow> tables \<Rightarrow> tables" where
  "changed_job i g f d = d\<lparr>gua_jobs := map (\<lambda>j. if is_job i g j then f j else j) (gua_jobs d),
     river_job := filter (\<lambda>r. \<not> (pending_delivery r \<and> about_job i (r_args r))) (river_job d)\<rparr>"

lemma calm_Active_tx:
  assumes "fate w = []" and "0 \<le> t"
  shows "Active_tx cfg g i t w =
    (if filter (is_job i g) (gua_jobs (db w)) = [] then (Inl JobNotFound, w)
     else (Inr (), w\<lparr>next_row := Suc (next_row w),
        db := (changed_job i g (\<lambda>j. j\<lparr>active := True, exectime := t\<rparr>) (db w))\<lparr>river_job :=
          river_job (changed_job i g (\<lambda>j. j\<lparr>active := True, exectime := t\<rparr>) (db w)) @
            [new_row cfg (next_row w) i g t]\<rparr>\<rparr>))"
  using assms
  by (simp add: Active_tx_def calm_run_tx op_bind_def update_jobs_def cancel_calm
      calm_insertOccurrenceTx next_fate_works changed_job_def no_rows_unchanged)

lemma calm_Pause:
  assumes "fate w = []"
  shows "Pause g i w =
    (if filter (is_job i g) (gua_jobs (db w)) = [] then (Inl JobNotFound, w)
     else (Inr (), w\<lparr>db := changed_job i g (\<lambda>j. j\<lparr>active := False\<rparr>) (db w)\<rparr>))"
  using assms
  by (simp add: Pause_def calm_run_tx op_bind_def update_jobs_def cancel_calm next_fate_works
      changed_job_def)

lemma calm_Delete:
  assumes "fate w = []"
  shows "Delete g i w =
    (if filter (is_job i g) (gua_jobs (db w)) = [] then (Inl JobNotFound, w)
     else (Inr (), w\<lparr>db := (db w)\<lparr>gua_jobs := filter (\<lambda>j. \<not> is_job i g j) (gua_jobs (db w)),
       river_job := filter (\<lambda>r. \<not> (pending_delivery r \<and> about_job i (r_args r))) (river_job (db w))\<rparr>\<rparr>))"
  using assms
  by (simp add: Delete_def calm_run_tx op_bind_def delete_jobs_def cancel_calm next_fate_works)

lemma abs_changed_job:
  assumes "wf_world w" and "lookup_in (abs_queue (db w)) g i = Some j"
    and "\<And>j. job_id (f j) = job_id j"
  shows "abs_queue (changed_job i g f (db w)) =
    (abs_queue (db w))\<lparr>q_jobs := (q_jobs (abs_queue (db w)))(i \<mapsto> f j),
      q_due := {#x \<in># q_due (abs_queue (db w)). \<not> about_job i x#}\<rparr>"
  using lookup_rows(2) [OF assms(1,2)] assms(3) wf_distinct [OF assms(1)]
  by (intro aqueue_eqI) (simp_all add: changed_job_def find_job_update due_deleted)

lemma promise_active:
  assumes "fate w = []" and "wf_world w" and "0 \<le> clock w (reads w)"
  shows "keeps_promise cfg (RActive g i t) w"
proof (cases "t < 0")
  case True
  then show ?thesis by (simp add: keeps_promise_def Active_def op_bind_def)
next
  case False
  let ?now = "unix_secs (fst (time_Now w))"
  let ?t = "if t = 0 then ?now else t"
  obtain w1 where w1: "Active cfg g i t w = Active_tx cfg g i ?t w1" "fate w1 = []" "db w1 = db w"
  proof (cases "t = 0")
    case True
    then have "Active cfg g i t w = Active_tx cfg g i ?t (snd (time_Now w))"
      by (simp add: Active_def op_bind_def now_unix_def time_Now_def)
    with that [of "snd (time_Now w)"] assms(1) show ?thesis by (simp add: time_Now_def)
  next
    case nz: False
    then have "Active cfg g i t w = Active_tx cfg g i ?t w"
      using False by (simp add: Active_def op_bind_def)
    with that [of w] assms(1) show ?thesis by simp
  qed
  have "0 \<le> ?now" using assms(3) by (simp add: time_Now_def unix_secs_def nanos_per_sec_def pos_imp_zdiv_nonneg_iff)
  with False have "0 \<le> ?t" by simp
  note run = calm_Active_tx [OF w1(2) this, of cfg g i]
  show ?thesis
  proof (cases "lookup_in (abs_queue (db w)) g i")
    case None
    with lookup_rows(1) [OF assms(2) None] False run w1 show ?thesis
      by (simp add: keeps_promise_def)
  next
    case (Some j)
    note rows = lookup_rows(2) [OF assms(2) Some]
    let ?f = "\<lambda>j. j\<lparr>active := True, exectime := ?t\<rparr>"
    have A: "abs_queue (changed_job i g ?f (db w)) =
      (abs_queue (db w))\<lparr>q_jobs := (q_jobs (abs_queue (db w)))(i \<mapsto> ?f j),
        q_due := {#x \<in># q_due (abs_queue (db w)). \<not> about_job i x#}\<rparr>"
      by (rule abs_changed_job [OF assms(2) Some]) simp
    have "abs_queue ((changed_job i g ?f (db w))\<lparr>river_job :=
        river_job (changed_job i g ?f (db w)) @ [new_row cfg (next_row w1) i g ?t]\<rparr>) =
      (abs_queue (changed_job i g ?f (db w)))\<lparr>q_due :=
        q_due (abs_queue (changed_job i g ?f (db w))) + {#guaJobArgs i g ?t#}\<rparr>"
      by (rule aqueue_eqI) simp_all
    also have "\<dots> = (abs_queue (db w))\<lparr>q_jobs := (q_jobs (abs_queue (db w)))(i \<mapsto> ?f j),
        q_due := {#x \<in># q_due (abs_queue (db w)). \<not> about_job i x#} + {#guaJobArgs i g ?t#}\<rparr>"
      unfolding A by simp
    finally show ?thesis
      using rows Some False run w1 by (simp add: keeps_promise_def Let_def)
  qed
qed

lemma promise_pause:
  assumes "fate w = []" and "wf_world w"
  shows "keeps_promise cfg (RPause g i) w"
proof (cases "lookup_in (abs_queue (db w)) g i")
  case None
  with lookup_rows(1) [OF assms(2) None] show ?thesis
    by (simp add: keeps_promise_def calm_Pause [OF assms(1)])
next
  case (Some j)
  with lookup_rows(2) [OF assms(2) Some] abs_changed_job [OF assms(2) Some, of "\<lambda>j. j\<lparr>active := False\<rparr>"]
  show ?thesis by (simp add: keeps_promise_def calm_Pause [OF assms(1)])
qed

lemma promise_delete:
  assumes "fate w = []" and "wf_world w"
  shows "keeps_promise cfg (RDelete g i) w"
proof (cases "lookup_in (abs_queue (db w)) g i")
  case None
  with lookup_rows(1) [OF assms(2) None] show ?thesis
    by (simp add: keeps_promise_def calm_Delete [OF assms(1)])
next
  case (Some j)
  note rows = lookup_rows(2) [OF assms(2) Some]
  have "find_job k (filter (\<lambda>j. \<not> is_job i g j) (gua_jobs (db w))) =
      ((\<lambda>k. find_job k (gua_jobs (db w)))(i := None)) k" for k
    using rows by (auto simp: find_job_filter [OF wf_distinct [OF assms(2)]] is_job_def
        dest: find_job_SomeD split: option.split)
  then have "abs_queue (db w\<lparr>gua_jobs := filter (\<lambda>j. \<not> is_job i g j) (gua_jobs (db w)),
      river_job := filter (\<lambda>r. \<not> (pending_delivery r \<and> about_job i (r_args r))) (river_job (db w))\<rparr>) =
    (abs_queue (db w))\<lparr>q_jobs := (q_jobs (abs_queue (db w)))(i := None),
      q_due := {#x \<in># q_due (abs_queue (db w)). \<not> about_job i x#}\<rparr>"
    by (intro aqueue_eqI) (simp_all add: due_deleted)
  with rows Some show ?thesis by (simp add: keeps_promise_def calm_Delete [OF assms(1)])
qed

lemma promise_register:
  assumes "fate w = []"
  shows "keeps_promise cfg (RRegister g) w"
proof (cases "ValidateName ''group_name'' g")
  case (Inl e)
  with ValidateName_error [OF Inl] show ?thesis
    by (simp add: keeps_promise_def RegisterGroup_def op_bind_def errors_Is_def)
next
  case (Inr u)
  have "abs_queue (db w\<lparr>gua_groups := gua_groups (db w) @ [g]\<rparr>) =
    (abs_queue (db w))\<lparr>q_groups := insert g (set (gua_groups (db w)))\<rparr>"
    by (rule aqueue_eqI) simp_all
  with Inr assms show ?thesis
    by (simp add: keeps_promise_def RegisterGroup_def op_bind_def insert_group_def)
qed

lemma find_job_removed:
  assumes "distinct (map job_id js)"
  shows "find_job i (filter (\<lambda>j. \<not> P j) js) =
    (if i \<in> {i. \<exists>j. find_job i js = Some j \<and> P j} then None else find_job i js)"
  using find_job_filter [OF assms, of i "\<lambda>j. \<not> P j"] by (auto split: option.split)

lemma removed_ids:
  assumes "distinct (map job_id js)"
  shows "set (map job_id (filter P js)) = {i. \<exists>j. find_job i js = Some j \<and> P j}"
    and "length (filter P js) = card {i. \<exists>j. find_job i js = Some j \<and> P j}"
proof -
  show s: "set (map job_id (filter P js)) = {i. \<exists>j. find_job i js = Some j \<and> P j}"
    using find_job_in [OF assms] find_job_SomeD by fastforce
  have "distinct (map job_id (filter P js))" using assms by (simp add: distinct_map_filter)
  from distinct_card [OF this] show "length (filter P js) = card {i. \<exists>j. find_job i js = Some j \<and> P j}"
    unfolding s by simp
qed

lemma due_deleted_group:
  "image_mset r_args (filter_mset pending_delivery
     {#r \<in># rows. about_group g (r_args r) \<longrightarrow> pending_delivery r \<longrightarrow> arg_job (r_args r) \<notin> G#}) =
   {#x \<in># image_mset r_args (filter_mset pending_delivery rows). about_group g x \<longrightarrow> arg_job x \<notin> G#}"
  by (induction rows) auto

lemma promise_delete_jobs:
  assumes "fate w = []" and "wf_world w"
  shows "keeps_promise cfg (RDeleteJobs g n) w"
proof -
  let ?js = "gua_jobs (db w)" and ?a = "abs_queue (db w)"
  define G where "G = {i. \<exists>j. find_job i ?js = Some j \<and> in_group_named g n j}"
  note d = wf_distinct [OF assms(2)]
  let ?d = "db w\<lparr>gua_jobs := filter (\<lambda>j. \<not> in_group_named g n j) ?js,
    river_job := filter (\<lambda>r. \<not> (pending_delivery r \<and> about_group g (r_args r) \<and> arg_job (r_args r) \<in> G))
      (river_job (db w))\<rparr>"
  have run: "DeleteJobs g n w = (Inr (card G), w\<lparr>db := ?d\<rparr>)"
    using assms(1) removed_ids [OF d, of "in_group_named g n", folded G_def]
    by (simp add: DeleteJobs_def delete_jobs_stmt_def delete_jobs_def delete_occurrences_def about_group_of)
  let ?a' = "?a\<lparr>q_jobs := (\<lambda>i. if i \<in> G then None else q_jobs ?a i),
    q_due := {#x \<in># q_due ?a. \<not> (about_group g x \<and> arg_job x \<in> G)#}\<rparr>"
  have P: "promised now (RDeleteJobs g n) ?a = (Inr (card G), ?a')" for now
    by (simp add: Let_def G_def)
  have "abs_queue ?d = ?a'"
    using due_deleted_group [of g G "mset (river_job (db w))"]
      find_job_removed [OF d, of _ "in_group_named g n", folded G_def]
    by (intro aqueue_eqI) simp_all
  then show ?thesis unfolding keeps_promise_def P by (simp add: run)
qed

lemma promise_remove:
  assumes "fate w = []" and "wf_world w"
  shows "keeps_promise cfg (RRemove g) w"
proof (cases "g \<in> set (gua_groups (db w))")
  case False
  then have "filter ((=) g) (gua_groups (db w)) = []" by (auto simp: filter_empty_conv)
  with False assms(1) show ?thesis
    by (simp add: keeps_promise_def RemoveGroup_def calm_run_tx op_bind_def delete_jobs_def
        delete_occurrences_def delete_group_def)
next
  case True
  note d = wf_distinct [OF assms(2)]
  let ?d = "db w\<lparr>gua_jobs := filter (\<lambda>j. group_name j \<noteq> g) (gua_jobs (db w)),
    river_job := filter (\<lambda>r. \<not> (pending_delivery r \<and> about_group g (r_args r))) (river_job (db w)),
    gua_groups := filter ((\<noteq>) g) (gua_groups (db w))\<rparr>"
  from True have "filter ((=) g) (gua_groups (db w)) \<noteq> []" by (auto simp: filter_empty_conv)
  then have run: "RemoveGroup g w = (Inr (), w\<lparr>db := ?d\<rparr>)"
    using assms(1)
    by (simp add: RemoveGroup_def calm_run_tx op_bind_def delete_jobs_def delete_occurrences_def
        delete_group_def about_group_of next_fate_works)
  have "abs_queue ?d = snd (promised now (RRemove g) (abs_queue (db w)))" for now
    using True find_job_removed [OF d, where P = "\<lambda>j. group_name j = g"]
    by (intro aqueue_eqI) (auto simp: due_deleted lookup_in_def split: option.split)
  with True run show ?thesis by (simp add: keeps_promise_def)
qed

lemma calm_keeps_promise:
  assumes "fate w = []" and "wf_world w" and "0 \<le> clock w (reads w)"
  shows "keeps_promise cfg r w"
  using assms
  by (cases r) (simp_all only: promise_push promise_edit promise_active promise_pause promise_delete
      promise_delete_jobs promise_register promise_remove)

end
