(* ===== verification/Queue_Theorems.thy ===== *)
theory Queue_Theorems
  imports Queue_Spec
begin

text \<open>
  The properties of the queue's methods: the invariant of the tables, the refinement of the
  promised steps under every failure of the store, and the behaviour of single methods.
\<close>

section \<open>The invariant\<close>

lemma wf_same: "wf_world w \<Longrightarrow> db w' = db w \<Longrightarrow> next_row w' = next_row w \<Longrightarrow> next_seq w' = next_seq w \<Longrightarrow> wf_world w'"
  by (simp add: wf_world_def)

lemma wf_changed_job:
  assumes "wf_tables d a b"
    and "\<And>j. job_id (f j) = job_id j \<and> group_name (f j) = group_name j \<and> (wf_job j \<longrightarrow> wf_job (f j))"
  shows "wf_tables (d\<lparr>gua_jobs := map (\<lambda>j. if P j then f j else j) (gua_jobs d),
    river_job := filter Q (river_job d)\<rparr>) a b"
proof -
  have "job_id \<circ> (\<lambda>j. if P j then f j else j) = job_id"
    using assms(2) by (auto simp: fun_eq_iff)
  with assms show ?thesis
    by (auto simp: wf_tables_def list_all_iff distinct_map_filter)
qed

lemma wf_filtered:
  "wf_tables d a b \<Longrightarrow> wf_tables (d\<lparr>gua_jobs := filter P (gua_jobs d), river_job := filter Q (river_job d)\<rparr>) a b"
  by (auto simp: wf_tables_def list_all_iff distinct_map_filter)

lemma wf_new_row:
  "wf_tables d a b \<Longrightarrow> wf_tables (d\<lparr>river_job := river_job d @ [new_row cfg a i g t]\<rparr>) (Suc a) b"
  by (auto simp: wf_tables_def list_all_iff less_Suc_eq)

lemma wf_job_active:
  "wf_job j \<Longrightarrow> wf_job (j\<lparr>active := b\<rparr>)" "wf_job j \<Longrightarrow> wf_job (j\<lparr>active := b, exectime := t\<rparr>)"
  by (simp_all add: wf_job_def)

lemma wf_push:
  assumes "fate w = []" and "wf_world w" and "0 \<le> clock w (reads w)"
  shows "wf_world (snd (Push cfg j w))"
proof (cases "Push_checks j w")
  case (Pair r w1)
  show ?thesis
  proof (cases r)
    case (Inl e)
    then have "Push cfg j w = (Inl e, w1)" by (simp add: Push_def op_bind_def Pair)
    moreover have "next_row w1 = next_row w" "next_seq w1 = next_seq w"
      using Pair Inl by (auto simp: Push_checks_def op_bind_def now_unix_def time_Now_def
          split: prod.splits sum.splits if_splits)
    ultimately show ?thesis
      using Push_checks_Inl [OF Pair [unfolded Inl]] wf_same [OF assms(2), of w1] by simp
  next
    case (Inr j')
    note c = Push_checks_Inr [OF Pair [unfolded Inr]]
    have "0 \<le> unix_secs (fst (time_Now w))"
      using assms(3) by (simp add: time_Now_def unix_secs_def nanos_per_sec_def pos_imp_zdiv_nonneg_iff)
    with c have nonneg: "0 \<le> exectime j'" and f: "fate w1 = []" using assms(1) by auto
    have wf1: "wf_tables (db w1) (next_row w1) (next_seq w1)" using c assms(2) by (simp add: wf_world_def)
    have job: "wf_job (j'\<lparr>active := True\<rparr>)" using c by (auto simp: wf_job_def)
    have "wf_tables (db w1\<lparr>gua_jobs := gua_jobs (db w1) @ [j'\<lparr>active := True\<rparr>]\<rparr>) (next_row w1) (next_seq w1)"
      if "group_name j' \<in> set (gua_groups (db w1))" "job_id j' \<notin> job_id ` set (gua_jobs (db w1))"
      using wf1 job that by (auto simp: wf_tables_def)
    from wf_new_row [OF this] wf1 show ?thesis
      by (simp add: Push_def op_bind_def Pair Inr calm_Push_tx [OF f nonneg] wf_world_def)
  qed
qed

lemma wf_active:
  assumes "fate w = []" and "wf_world w" and "0 \<le> clock w (reads w)"
  shows "wf_world (snd (Active cfg g i t w))"
proof (cases "t < 0")
  case True
  with assms(2) show ?thesis by (simp add: Active_def op_bind_def)
next
  case False
  let ?t = "if t = 0 then unix_secs (fst (time_Now w)) else t"
  let ?w1 = "if t = 0 then snd (time_Now w) else w"
  have run: "Active cfg g i t w = Active_tx cfg g i ?t ?w1"
    using False by (simp add: Active_def op_bind_def now_unix_def time_Now_def)
  have w1: "fate ?w1 = []" "db ?w1 = db w" "next_row ?w1 = next_row w" "next_seq ?w1 = next_seq w"
    using assms(1) by (simp_all add: time_Now_def)
  have "0 \<le> unix_secs (fst (time_Now w))"
    using assms(3) by (simp add: time_Now_def unix_secs_def nanos_per_sec_def pos_imp_zdiv_nonneg_iff)
  with False have "0 \<le> ?t" by simp
  note tx = calm_Active_tx [OF w1(1) this, of cfg g i]
  have wf1: "wf_tables (db ?w1) (next_row ?w1) (next_seq ?w1)"
    using assms(2) w1 by (simp only: wf_world_def)
  have "wf_tables (changed_job i g (\<lambda>j. j\<lparr>active := True, exectime := ?t\<rparr>) (db ?w1)) (next_row ?w1) (next_seq ?w1)"
    unfolding changed_job_def by (rule wf_changed_job [OF wf1]) (simp add: wf_job_active)
  from wf_new_row [OF this] wf1 show ?thesis unfolding run tx by (auto simp: wf_world_def)
qed

lemma calm_wf:
  assumes "fate w = []" and "wf_world w" and "0 \<le> clock w (reads w)"
  shows "wf_world (snd (perform cfg r w))"
proof -
  have one: "wf_world (snd (m w)) \<Longrightarrow> wf_world (snd (one m w))" for m
    by (auto split: prod.split sum.split)
  have wf: "wf_tables (db w) (next_row w) (next_seq w)" using assms(2) by (simp add: wf_world_def)
  show ?thesis
  proof (cases r)
    case (RPush j)
    with one wf_push [OF assms] show ?thesis by simp
  next
    case (REdit g i u pl)
    have "wf_tables (db w\<lparr>gua_jobs := map (\<lambda>j. if is_job i g j then j\<lparr>request_url := u, payload := pl\<rparr> else j)
        (gua_jobs (db w)), river_job := filter (\<lambda>_. True) (river_job (db w))\<rparr>) (next_row w) (next_seq w)"
      if "\<not> isl (SplitRequestURL u)"
      by (rule wf_changed_job [OF wf]) (simp add: wf_job_def that)
    then have "wf_world (snd (Edit g i u pl w))"
      using assms(1,2) by (cases "SplitRequestURL u")
        (auto simp: Edit_def op_bind_def update_jobs_def wf_world_def)
    with one REdit show ?thesis by simp
  next
    case (RActive g i t)
    with one wf_active [OF assms] show ?thesis by simp
  next
    case (RPause g i)
    have "wf_tables (changed_job i g (\<lambda>j. j\<lparr>active := False\<rparr>) (db w)) (next_row w) (next_seq w)"
      unfolding changed_job_def by (rule wf_changed_job [OF wf]) (simp add: wf_job_active)
    with assms(2) have "wf_world (snd (Pause g i w))" by (simp add: calm_Pause [OF assms(1)] wf_world_def)
    with one RPause show ?thesis by simp
  next
    case (RDelete g i)
    have "wf_world (snd (Delete g i w))"
      using assms(2) wf_filtered [OF wf] by (simp add: calm_Delete [OF assms(1)] wf_world_def)
    with one RDelete show ?thesis by simp
  next
    case (RDeleteJobs g n)
    with assms(1) wf_filtered [OF wf] show ?thesis
      by (simp add: DeleteJobs_def delete_jobs_stmt_def delete_jobs_def delete_occurrences_def wf_world_def)
  next
    case (RRegister g)
    have "wf_world (snd (RegisterGroup g w))"
      using assms(1,2) by (cases "ValidateName ''group_name'' g")
        (auto simp: RegisterGroup_def op_bind_def insert_group_def wf_world_def wf_tables_def list_all_iff)
    with one RRegister show ?thesis by simp
  next
    case (RRemove g)
    have "wf_tables (db w\<lparr>gua_jobs := filter (\<lambda>j. group_name j \<noteq> g) (gua_jobs (db w)),
        river_job := filter Q (river_job (db w)), gua_groups := filter ((\<noteq>) g) (gua_groups (db w))\<rparr>)
        (next_row w) (next_seq w)" for Q
      using wf by (auto simp: wf_tables_def list_all_iff distinct_map_filter)
    then have "wf_world (snd (RemoveGroup g w))"
      using assms(1,2)
      by (auto simp: RemoveGroup_def calm_run_tx op_bind_def delete_jobs_def delete_occurrences_def
          delete_group_def next_fate_works wf_world_def)
    with one RRemove show ?thesis by simp
  qed
qed

section \<open>A small store\<close>

definition demo_job :: job where
  "demo_job = \<lparr>job_id = ''j1'', group_name = ''g'', job_name = ''n'', request_url = ''HTTP@http://c'',
     payload = [], interval_pattern = ''@every 60s'', timeout = 0, exectime = 500, active = True,
     memo = []\<rparr>"

definition demo_tables :: tables where
  "demo_tables = \<lparr>gua_groups = [''g''], gua_jobs = [demo_job],
     river_job = [\<lparr>r_id = 0, r_args = guaJobArgs ''j1'' ''g'' 500, r_state = Scheduled, r_attempt = 0,
       r_max = 25, r_at = 500000000000\<rparr>], gua_executions = []\<rparr>"

definition demo_world :: "outcome list \<Rightarrow> world" where
  "demo_world fs = \<lparr>db = demo_tables, next_row = 1, next_seq = 0, clock = (\<lambda>_. 1000000000000),
     reads = 0, fate = fs\<rparr>"

definition demo_config :: config where
  "demo_config = with_defaults \<lparr>MaxWorkers = 0, MaxAttempts = 0, DeliveryTimeout = 0,
     MachineHost = ''h'', HistoryTTL = 3600, PruneInterval = 0\<rparr>"

lemma demo_job_wf: "wf_job demo_job"
  by code_simp

lemma demo_world_simps [simp]:
  "db (demo_world fs) = demo_tables" "next_row (demo_world fs) = 1" "next_seq (demo_world fs) = 0"
  "clock (demo_world fs) n = 1000000000000" "reads (demo_world fs) = 0" "fate (demo_world fs) = fs"
  by (simp_all add: demo_world_def)

lemma demo_wf [simp]: "wf_world (demo_world fs)"
  using demo_job_wf by (simp add: wf_world_def wf_tables_def demo_tables_def wf_row_def demo_job_def)

section \<open>Every request\<close>

lemma calm_error_same:
  assumes "fate w = []" and "perform cfg r w = (Inl e, w')"
  shows "db w' = db w"
proof -
  have tx: "m = run_tx body \<Longrightarrow> steady body \<Longrightarrow> m w = (Inl e, w') \<Longrightarrow> fate w = [] \<Longrightarrow> db w' = db w"
    for m :: "unit op" and body e w w'
  proof -
    assume a: "m = run_tx body" "steady body" "m w = (Inl e, w')" "fate w = []"
    have "fate (snd (body w)) = []" using steady.calm_end [OF a(2), of w] a(4) by simp
    with a show ?thesis
      by (auto simp: calm_run_tx next_fate_works split: prod.splits sum.splits tx_end.splits)
  qed
  have one: "one m w = (Inl e, w') \<Longrightarrow> m w = (Inl e, w')" for m
    by (auto split: prod.splits sum.splits)
  show ?thesis
  proof (cases r)
    case (RPush j)
    with assms one have "Push cfg j w = (Inl e, w')" by simp
    then consider "Push_checks j w = (Inl e, w')"
      | j' w1 where "Push_checks j w = (Inr j', w1)" "Push_tx cfg j' w1 = (Inl e, w')"
      by (auto simp: Push_def op_bind_def split: prod.splits sum.splits)
    then show ?thesis
    proof cases
      case 1
      then show ?thesis using Push_checks_Inl by blast
    next
      case 2
      have "fate w1 = []" "db w1 = db w" using Push_checks_Inr [OF 2(1)] assms(1) by simp_all
      with tx [OF Push_tx_def _ 2(2)] show ?thesis by (simp add: steady_rules)
    qed
  next
    case (REdit g i u pl)
    with assms one show ?thesis
      by (auto simp: Edit_def op_bind_def update_jobs_def no_rows_unchanged split: prod.splits sum.splits if_splits)
  next
    case (RActive g i t)
    with assms one have a: "Active cfg g i t w = (Inl e, w')" by simp
    show ?thesis
    proof (cases "t < 0")
      case True
      with a show ?thesis by (simp add: Active_def op_bind_def)
    next
      case False
      then obtain u w1 where "Active_tx cfg g i u w1 = (Inl e, w')" "fate w1 = []" "db w1 = db w"
        using a assms(1) by (cases "t = 0") (auto simp: Active_def op_bind_def now_unix_def time_Now_def)
      with tx [OF Active_tx_def] show ?thesis by (metis (no_types, lifting) steady_rules)
    qed
  next
    case (RPause g i)
    with assms one show ?thesis by (auto simp: calm_Pause split: if_splits prod.splits sum.splits)
  next
    case (RDelete g i)
    with assms one show ?thesis by (auto simp: calm_Delete split: if_splits prod.splits sum.splits)
  next
    case (RDeleteJobs g n)
    with assms show ?thesis by (simp add: DeleteJobs_def)
  next
    case (RRegister g)
    with assms one show ?thesis
      by (auto simp: RegisterGroup_def op_bind_def insert_group_def split: prod.splits sum.splits if_splits)
  next
    case (RRemove g)
    with assms one have "RemoveGroup g w = (Inl e, w')" by simp
    with tx [OF RemoveGroup_def] assms(1) show ?thesis by (metis (no_types, lifting) steady_rules)
  qed
qed

lemma request_refines:
  assumes "perform cfg r w = (x, w')" and "wf_world w" and "0 \<le> clock w (reads w)"
  shows "let p = promised (unix_secs (clock w (reads w))) r (abs_queue (db w)) in
    (result_class x = promised_class (fst p) \<and> abs_queue (db w') = snd p) \<or>
    (x = Inl StorageError \<and> (abs_queue (db w') = abs_queue (db w) \<or> abs_queue (db w') = snd p))"
proof -
  have "keeps_promise cfg r (calm w)"
    using assms by (intro calm_keeps_promise) (simp_all add: wf_world_def)
  then have c: "result_class (fst (perform cfg r (calm w))) =
      promised_class (fst (promised (unix_secs (clock w (reads w))) r (abs_queue (db w)))) \<and>
    abs_queue (db (snd (perform cfg r (calm w)))) = snd (promised (unix_secs (clock w (reads w))) r (abs_queue (db w)))"
    by (auto simp: keeps_promise_def time_Now_def split: prod.splits)
  from requests.atomic [of cfg r w] assms(1) obtain fs where
    "x = fst (perform cfg r (calm w)) \<and> w' = (snd (perform cfg r (calm w)))\<lparr>fate := fs\<rparr> \<or>
     x = Inl StorageError \<and> (db w' = db w \<or> w' = (snd (perform cfg r (calm w)))\<lparr>fate := fs\<rparr>)" by auto
  with c show ?thesis by (auto simp: Let_def)
qed

text \<open>C2: the queue refines its contract under every failure of the store. Whatever request is
  performed on a well-formed store, either its result and its effect on the groups, the job
  definitions and the due occurrences are the promised ones, or it reports a storage error and
  has done nothing or all of what is promised.\<close>

theorem queue_refines_promise:
  assumes "perform cfg r w = (x, w')" and "wf_world w" and "0 \<le> clock w (reads w)"
  shows "let p = promised (unix_secs (clock w (reads w))) r (abs_queue (db w)) in
    (result_class x = promised_class (fst p) \<and> abs_queue (db w') = snd p) \<or>
    (x = Inl StorageError \<and> (abs_queue (db w') = abs_queue (db w) \<or> abs_queue (db w') = snd p))"
  by (rule request_refines [OF assms])

theorem queue_refines_promise_witness:
  "let p = promised (unix_secs (clock (demo_world [Works, Fails]) (reads (demo_world [Works, Fails]))))
       (RPause ''g'' ''j1'') (abs_queue (db (demo_world [Works, Fails]))) in
    (result_class (Inl StorageError) = promised_class (fst p) \<and> abs_queue (db (demo_world [])) = snd p) \<or>
    (Inl StorageError = (Inl StorageError :: gua_error + nat) \<and>
      (abs_queue (db (demo_world [])) = abs_queue (db (demo_world [Works, Fails])) \<or> abs_queue (db (demo_world [])) = snd p))"
proof (rule queue_refines_promise)
  show "perform demo_config (RPause ''g'' ''j1'') (demo_world [Works, Fails]) = (Inl StorageError, demo_world [])"
    by (simp add: Pause_def run_tx_def next_fate_def op_bind_def tx_exec_def demo_world_def)
qed simp_all

lemma request_wf:
  assumes "wf_world w" and "0 \<le> clock w (reads w)"
  shows "wf_world (snd (perform cfg r w))"
proof -
  have "wf_world (snd (perform cfg r (calm w)))"
    using assms by (intro calm_wf) (simp_all add: wf_world_def)
  then show ?thesis
    using requests.preserved [of wf_tables w cfg r, OF assms(1) [unfolded wf_world_def] wf_tables_mono]
    by (simp add: wf_world_def)
qed

text \<open>C3: the invariant of the store survives every request under every failure: job ids,
  group names, occurrence ids and history numbers stay unique and below their sequences, every
  definition is valid and belongs to a registered group, and no occurrence has used more attempts
  than it has.\<close>

theorem requests_keep_wf:
  assumes "wf_world w" and "0 \<le> clock w (reads w)"
  shows "wf_world (snd (perform cfg r w))"
  by (rule request_wf [OF assms])

theorem requests_keep_wf_witness:
  "wf_world (snd (perform demo_config (RActive ''g'' ''j1'' 0) (demo_world [Works, Works, Works, Works, Lost])))"
  by (rule requests_keep_wf) simp_all

lemma refused_same:
  assumes "perform cfg r w = (Inl e, w')" and "e \<noteq> StorageError"
  shows "db w' = db w"
proof -
  from requests.failure [OF assms] obtain w0 where
    "perform cfg r (calm w) = (Inl e, w0)" "db w' = db w0" by blast
  with calm_error_same [of "calm w" cfg r e w0] show ?thesis by simp
qed

text \<open>A request that is refused, with an error other than a storage error, leaves every
  table exactly as it was, even when it fails after the first statements of its transaction.\<close>

theorem refused_request_changes_nothing:
  assumes "perform cfg r w = (Inl e, w')" and "e \<noteq> StorageError"
  shows "db w' = db w"
  by (rule refused_same [OF assms])

theorem refused_request_changes_nothing_witness:
  "db (snd (perform demo_config (RRemove ''h'') (demo_world [Works, Works]))) =
     db (demo_world [Works, Works])"
proof -
  have run: "perform demo_config (RRemove ''h'') (demo_world [Works, Works]) = (Inl GroupNotFound, demo_world [])"
    by (simp add: RemoveGroup_def run_tx_def next_fate_def op_bind_def tx_exec_def delete_jobs_def
        delete_occurrences_def delete_group_def demo_world_def demo_tables_def demo_job_def of_group_def)
  have "GroupNotFound \<noteq> StorageError" by simp
  from refused_request_changes_nothing [OF run this] show ?thesis by (simp only: run snd_conv)
qed

section \<open>Single methods\<close>

definition pending_of :: "string \<Rightarrow> tables \<Rightarrow> river_row list" where
  "pending_of i d = filter (\<lambda>r. pending_delivery r \<and> about_job i (r_args r)) (river_job d)"

lemma pending_of_cancelled:
  "filter (\<lambda>r. pending_delivery r \<and> about_job i (r_args r))
     (filter (\<lambda>r. \<not> (pending_delivery r \<and> about_job i (r_args r))) rows) = []"
  by (induction rows) auto

lemma Push_success:
  assumes "Push cfg j w = (Inr (), w')" and "0 \<le> clock w (reads w)"
  shows "valid_job j \<and> group_name j \<in> set (gua_groups (db w)) \<and>
    job_id j \<notin> set (map job_id (gua_jobs (db w))) \<and>
    db w' = (db w)\<lparr>gua_jobs := gua_jobs (db w) @ [stored_job (unix_secs (clock w (reads w))) j],
      river_job := river_job (db w) @ [new_row cfg (next_row w) (job_id j) (group_name j)
        (exectime (stored_job (unix_secs (clock w (reads w))) j))]\<rparr>"
proof -
  from push.success [OF assms(1)] obtain w0 where
    p: "Push cfg j (calm w) = (Inr (), w0)" "db w' = db w0" by blast
  from p(1) obtain j' w1 where c: "Push_checks j (calm w) = (Inr j', w1)" and
    t: "Push_tx cfg j' w1 = (Inr (), w0)"
    by (auto simp: Push_def op_bind_def split: prod.splits sum.splits)
  note k = Push_checks_Inr [OF c]
  have v: "valid_job j" using Push_checks_valid [of j "calm w"] c by simp
  have "0 \<le> unix_secs (clock w (reads w))"
    using assms(2) by (simp add: unix_secs_def nanos_per_sec_def pos_imp_zdiv_nonneg_iff)
  with k have "0 \<le> exectime j'" "fate w1 = []" by (auto simp: time_Now_def)
  from t calm_Push_tx [OF this(2,1), of cfg] k v p(2) show ?thesis
    by (auto simp: stored_job_def time_Now_def split: if_splits)
qed

text \<open>C13: when \<open>Push\<close> succeeds, the job was valid, its group registered and its id free; the
  definition is stored, active, with the defaults filled in, one occurrence is scheduled for its
  first time with no attempt used, and nothing else has changed.\<close>

theorem push_stores_and_schedules:
  assumes "Push cfg j w = (Inr (), w')" and "0 \<le> clock w (reads w)"
  shows "valid_job j \<and> group_name j \<in> set (gua_groups (db w)) \<and>
    job_id j \<notin> set (map job_id (gua_jobs (db w))) \<and>
    gua_groups (db w') = gua_groups (db w) \<and> gua_executions (db w') = gua_executions (db w) \<and>
    gua_jobs (db w') = gua_jobs (db w) @
      [j\<lparr>interval_pattern := (if interval_pattern j = [] then ''@once'' else interval_pattern j),
         exectime := (if exectime j = 0 then unix_secs (clock w (reads w)) else exectime j),
         active := True\<rparr>] \<and>
    river_job (db w') = river_job (db w) @
      [\<lparr>r_id = next_row w,
         r_args = guaJobArgs (job_id j) (group_name j)
           (if exectime j = 0 then unix_secs (clock w (reads w)) else exectime j),
         r_state = Scheduled, r_attempt = 0, r_max = nat (MaxAttempts cfg),
         r_at = (if exectime j = 0 then unix_secs (clock w (reads w)) else exectime j) * nanos_per_sec\<rparr>]"
  using Push_success [OF assms] by (auto simp: stored_job_def new_row_def)

lemma demo_push:
  "Push demo_config (demo_job\<lparr>job_id := ''j2'', interval_pattern := []\<rparr>) (demo_world []) =
     (Inr (), (demo_world [])\<lparr>next_row := 2, db := demo_tables\<lparr>
        gua_jobs := gua_jobs demo_tables @ [demo_job\<lparr>job_id := ''j2'', interval_pattern := ''@once''\<rparr>],
        river_job := river_job demo_tables @ [new_row demo_config 1 ''j2'' ''g'' 500]\<rparr>\<rparr>)"
proof -
  have v: "ValidateName ''group_name'' ''g'' = Inr ()" "ValidateName ''job_id'' ''j2'' = Inr ()"
    "SplitRequestURL ''HTTP@http://c'' = Inr (''HTTP'', ''http://c'')" "ValidatePattern ''@once'' = Inr ()"
    by code_simp+
  have c: "Push_checks (demo_job\<lparr>job_id := ''j2'', interval_pattern := []\<rparr>) (demo_world []) =
      (Inr (demo_job\<lparr>job_id := ''j2'', interval_pattern := ''@once''\<rparr>), demo_world [])"
    by (simp add: Push_checks_def op_bind_def demo_job_def v)
  show ?thesis
    unfolding Push_def op_bind_def c
    by (simp add: calm_Push_tx demo_tables_def demo_job_def)
qed

theorem push_stores_and_schedules_witness:
  "valid_job (demo_job\<lparr>job_id := ''j2'', interval_pattern := []\<rparr>) \<and>
   gua_jobs (db (snd (Push demo_config (demo_job\<lparr>job_id := ''j2'', interval_pattern := []\<rparr>) (demo_world [])))) =
     [demo_job, demo_job\<lparr>job_id := ''j2'', interval_pattern := ''@once''\<rparr>]"
  unfolding demo_push snd_conv
  using push_stores_and_schedules [OF demo_push] by (simp add: demo_tables_def)

text \<open>C8: activating a job replaces what was pending. After \<open>Active\<close> succeeds the job has
  exactly one pending occurrence, at the requested time, or now for time 0, whatever was pending
  before, and its definition is active with that time.\<close>

theorem active_replaces_pending:
  assumes "Active cfg g i t w = (Inr (), w')" and "wf_world w" and "0 \<le> clock w (reads w)"
  shows "\<exists>k at. at = (if t = 0 then unix_secs (clock w (reads w)) else t) \<and>
    pending_of i (db w') = [\<lparr>r_id = k, r_args = guaJobArgs i g at, r_state = Scheduled,
       r_attempt = 0, r_max = nat (MaxAttempts cfg), r_at = at * nanos_per_sec\<rparr>] \<and>
    (\<exists>j. find_job i (gua_jobs (db w')) = Some j \<and> group_name j = g \<and> active j \<and> exectime j = at)"
proof -
  from activate.success [OF assms(1)] obtain w0 where
    p: "Active cfg g i t (calm w) = (Inr (), w0)" "db w' = db w0" by blast
  from p(1) have nn: "\<not> t < 0" by (auto simp: Active_def op_bind_def)
  let ?at = "if t = 0 then unix_secs (clock w (reads w)) else t"
  let ?w1 = "if t = 0 then snd (time_Now (calm w)) else calm w"
  have run: "Active_tx cfg g i ?at ?w1 = (Inr (), w0)"
    using p(1) nn by (simp add: Active_def op_bind_def now_unix_def time_Now_def split: if_splits)
  have w1: "fate ?w1 = []" "db ?w1 = db w" by (simp_all add: time_Now_def)
  have "0 \<le> ?at" using assms(3) nn
    by (simp add: unix_secs_def nanos_per_sec_def pos_imp_zdiv_nonneg_iff)
  let ?f = "\<lambda>j. j\<lparr>active := True, exectime := ?at\<rparr>"
  from calm_Active_tx [OF w1(1) \<open>0 \<le> ?at\<close>, of cfg g i] run w1(2)
  have rows: "filter (is_job i g) (gua_jobs (db w)) \<noteq> []" and
    db0: "db w0 = (changed_job i g ?f (db w))\<lparr>river_job := river_job (changed_job i g ?f (db w)) @
        [new_row cfg (next_row ?w1) i g ?at]\<rparr>"
    by (simp_all split: if_split_asm)
  from rows lookup_in_iff [OF wf_distinct [OF assms(2)], of g i] obtain j where
    l: "lookup_in (abs_queue (db w)) g i = Some j" by auto
  note f = lookup_rows(2) [OF assms(2) l]
  have "find_job i (gua_jobs (db w0)) = Some (?f j)"
    using find_job_update [OF wf_distinct [OF assms(2)], of i j g ?f i] f
    by (simp add: db0 changed_job_def)
  moreover have "pending_of i (db w0) = [new_row cfg (next_row ?w1) i g ?at]"
    by (simp add: pending_of_def db0 changed_job_def pending_of_cancelled del: filter_filter)
  ultimately show ?thesis
    using f by (intro exI [of _ "next_row ?w1"] exI [of _ ?at]) (simp add: p(2) new_row_def)
qed

lemma demo_rows: "filter (is_job ''j1'' ''g'') (gua_jobs demo_tables) = [demo_job]"
  by (simp add: demo_tables_def demo_job_def is_job_def)

lemma demo_active:
  "Active demo_config ''g'' ''j1'' 700 (demo_world []) =
     (Inr (), snd (Active demo_config ''g'' ''j1'' 700 (demo_world [])))"
  by (rule prod_eqI) (simp_all add: Active_def op_bind_def calm_Active_tx demo_rows)

theorem active_replaces_pending_witness:
  "\<exists>k at. at = (if (700 :: int) = 0 then unix_secs (clock (demo_world []) (reads (demo_world []))) else 700) \<and>
    pending_of ''j1'' (db (snd (Active demo_config ''g'' ''j1'' 700 (demo_world [])))) =
      [\<lparr>r_id = k, r_args = guaJobArgs ''j1'' ''g'' at, r_state = Scheduled, r_attempt = 0,
         r_max = nat (MaxAttempts demo_config), r_at = at * nanos_per_sec\<rparr>] \<and>
    (\<exists>j. find_job ''j1'' (gua_jobs (db (snd (Active demo_config ''g'' ''j1'' 700 (demo_world []))))) = Some j \<and>
       group_name j = ''g'' \<and> active j \<and> exectime j = at)"
  by (rule active_replaces_pending [OF demo_active]) simp_all

text \<open>Pausing a job drops its pending occurrences and keeps the definition, inactive; deleting
  it drops both.\<close>

theorem pause_and_delete_cancel:
  assumes "Pause g i w = (Inr (), w1)" and "Delete g i w = (Inr (), w2)" and "wf_world w"
  shows "pending_of i (db w1) = [] \<and>
    (\<exists>j. find_job i (gua_jobs (db w)) = Some j \<and> find_job i (gua_jobs (db w1)) = Some (j\<lparr>active := False\<rparr>)) \<and>
    pending_of i (db w2) = [] \<and> find_job i (gua_jobs (db w2)) = None"
proof -
  from pause.success [OF assms(1)] obtain v1 where p: "Pause g i (calm w) = (Inr (), v1)" "db w1 = db v1" by blast
  from delete.success [OF assms(2)] obtain v2 where d: "Delete g i (calm w) = (Inr (), v2)" "db w2 = db v2" by blast
  from p(1) have rows: "filter (is_job i g) (gua_jobs (db w)) \<noteq> []"
    by (auto simp: calm_Pause split: if_splits)
  have db1: "db v1 = changed_job i g (\<lambda>j. j\<lparr>active := False\<rparr>) (db w)"
    using p(1) rows by (auto simp: calm_Pause split: if_splits)
  have db2: "db v2 = (db w)\<lparr>gua_jobs := filter (\<lambda>j. \<not> is_job i g j) (gua_jobs (db w)),
      river_job := filter (\<lambda>r. \<not> (pending_delivery r \<and> about_job i (r_args r))) (river_job (db w))\<rparr>"
    using d(1) rows by (auto simp: calm_Delete split: if_splits)
  from rows lookup_in_iff [OF wf_distinct [OF assms(3)], of g i] obtain j where
    l: "lookup_in (abs_queue (db w)) g i = Some j" by auto
  note f = lookup_rows(2) [OF assms(3) l]
  have "find_job i (gua_jobs (db v1)) = Some (j\<lparr>active := False\<rparr>)"
    using find_job_update [OF wf_distinct [OF assms(3)], of i j g "\<lambda>j. j\<lparr>active := False\<rparr>" i] f
    by (simp add: db1 changed_job_def)
  moreover have "find_job i (gua_jobs (db v2)) = None"
    using f by (auto simp: db2 find_job_filter [OF wf_distinct [OF assms(3)]] is_job_def dest: find_job_SomeD)
  moreover have "pending_of i (db v1) = []" "pending_of i (db v2) = []"
    by (simp_all add: pending_of_def db1 db2 changed_job_def pending_of_cancelled del: filter_filter)
  ultimately show ?thesis using f p(2) d(2) by simp
qed

lemma demo_pause:
  "Pause ''g'' ''j1'' (demo_world []) = (Inr (), snd (Pause ''g'' ''j1'' (demo_world [])))"
  "Delete ''g'' ''j1'' (demo_world []) = (Inr (), snd (Delete ''g'' ''j1'' (demo_world [])))"
  by (rule prod_eqI; simp add: calm_Pause calm_Delete demo_rows)+

theorem pause_and_delete_cancel_witness:
  "pending_of ''j1'' (db (snd (Pause ''g'' ''j1'' (demo_world [])))) = [] \<and>
    (\<exists>j. find_job ''j1'' (gua_jobs (db (demo_world []))) = Some j \<and>
       find_job ''j1'' (gua_jobs (db (snd (Pause ''g'' ''j1'' (demo_world []))))) = Some (j\<lparr>active := False\<rparr>)) \<and>
    pending_of ''j1'' (db (snd (Delete ''g'' ''j1'' (demo_world [])))) = [] \<and>
    find_job ''j1'' (gua_jobs (db (snd (Delete ''g'' ''j1'' (demo_world []))))) = None"
  by (rule pause_and_delete_cancel [OF demo_pause]) simp

section \<open>Groups\<close>

text \<open>The group a request names.\<close>

fun target_group :: "request \<Rightarrow> string" where
  "target_group (RPush j) = group_name j"
| "target_group (REdit g i u pl) = g"
| "target_group (RActive g i t) = g"
| "target_group (RPause g i) = g"
| "target_group (RDelete g i) = g"
| "target_group (RDeleteJobs g n) = g"
| "target_group (RRegister g) = g"
| "target_group (RRemove g) = g"

lemma promised_isolated:
  assumes "q_jobs a i = Some j" and "group_name j \<noteq> target_group r"
  shows "q_jobs (snd (promised now r a)) i = Some j"
  using assms
  by (cases r) (auto simp: Let_def lookup_in_def in_group_named_def split: option.splits if_splits)

text \<open>Groups are isolated. No request that names one group, whatever fails while it runs,
  adds, changes or removes the definition of a job of another group.\<close>

theorem groups_are_isolated:
  assumes "wf_world w" and "0 \<le> clock w (reads w)"
    and "find_job i (gua_jobs (db w)) = Some j" and "group_name j \<noteq> target_group r"
  shows "find_job i (gua_jobs (db (snd (perform cfg r w)))) = Some j"
proof -
  have "keeps_promise cfg r (calm w)"
    using assms by (intro calm_keeps_promise) (simp_all add: wf_world_def)
  then have "abs_queue (db (snd (perform cfg r (calm w)))) =
      snd (promised (unix_secs (fst (time_Now (calm w)))) r (abs_queue (db w)))"
    by (auto simp: keeps_promise_def split: prod.splits)
  then have "q_jobs (abs_queue (db (snd (perform cfg r (calm w))))) i = Some j"
    using promised_isolated [of "abs_queue (db w)" i j r] assms(3,4) by simp
  then have "find_job i (gua_jobs (db (snd (perform cfg r (calm w))))) = Some j" by simp
  then show ?thesis
    using requests.preserved [of "\<lambda>d a b. find_job i (gua_jobs d) = Some j" w cfg r] assms(3) by simp
qed

theorem groups_are_isolated_witness:
  "find_job ''j1'' (gua_jobs (db (snd (perform demo_config (RRemove ''other'') (demo_world [Works, Lost]))))) = Some demo_job"
  by (rule groups_are_isolated) (simp_all add: demo_tables_def find_job_def, simp_all add: demo_job_def)

text \<open>A group that is removed leaves nothing behind. After \<open>RemoveGroup\<close> succeeds neither the
  group, nor a definition in it, nor a pending occurrence of it exists.\<close>

theorem remove_group_leaves_nothing:
  assumes "RemoveGroup g w = (Inr (), w')"
  shows "g \<in> set (gua_groups (db w)) \<and> g \<notin> set (gua_groups (db w')) \<and>
    filter (\<lambda>j. group_name j = g) (gua_jobs (db w')) = [] \<and>
    filter (\<lambda>r. pending_delivery r \<and> about_group g (r_args r)) (river_job (db w')) = [] \<and>
    filter (\<lambda>j. group_name j \<noteq> g) (gua_jobs (db w')) = filter (\<lambda>j. group_name j \<noteq> g) (gua_jobs (db w))"
proof -
  from remove_group.success [OF assms] obtain v where v: "RemoveGroup g (calm w) = (Inr (), v)" "db w' = db v" by blast
  from v(1) have g: "filter ((=) g) (gua_groups (db w)) \<noteq> []"
    by (auto simp: RemoveGroup_def calm_run_tx op_bind_def delete_jobs_def delete_occurrences_def
        delete_group_def)
  with v have "db w' = db w\<lparr>gua_jobs := filter (\<lambda>j. group_name j \<noteq> g) (gua_jobs (db w)),
    river_job := filter (\<lambda>r. \<not> (pending_delivery r \<and> about_group g (r_args r))) (river_job (db w)),
    gua_groups := filter ((\<noteq>) g) (gua_groups (db w))\<rparr>"
    by (auto simp: RemoveGroup_def calm_run_tx op_bind_def delete_jobs_def delete_occurrences_def
        delete_group_def about_group_of next_fate_works)
  with g show ?thesis by (auto simp: filter_empty_conv)
qed

theorem remove_group_leaves_nothing_witness:
  "''g'' \<notin> set (gua_groups (db (snd (RemoveGroup ''g'' (demo_world []))))) \<and>
   filter (\<lambda>j. group_name j = ''g'') (gua_jobs (db (snd (RemoveGroup ''g'' (demo_world []))))) = []"
proof -
  have "RemoveGroup ''g'' (demo_world []) = (Inr (), snd (RemoveGroup ''g'' (demo_world [])))"
    by (rule prod_eqI) (simp_all add: RemoveGroup_def calm_run_tx op_bind_def delete_jobs_def
        delete_occurrences_def delete_group_def demo_tables_def next_fate_works)
  from remove_group_leaves_nothing [OF this] show ?thesis by blast
qed

section \<open>Reading\<close>

lemma sorted_rev_take: "sorted xs \<Longrightarrow> sorted_wrt (\<ge>) (take n (rev xs))"
  by (simp add: sorted_wrt_rev sorted_wrt_take)


definition demo_entry :: "nat \<Rightarrow> string \<Rightarrow> history_entry" where
  "demo_entry k g = \<lparr>h_seq = k, h_job_id = ''j1'', h_group = g, h_type = ''HTTP'', h_plan = 0, h_exec = 0,
     h_finish = 0, h_success = True, h_message = [], h_error = [], h_host = ''h''\<rparr>"

definition history_world :: world where
  "history_world = (demo_world [])\<lparr>next_seq := 3, db := demo_tables\<lparr>gua_executions :=
     [(demo_entry 0 ''g'', 0), (demo_entry 1 ''h'', 0), (demo_entry 2 ''g'', 0)]\<rparr>\<rparr>"


text \<open>A limit above the maximum is answered like no limit.\<close>

lemma history_over_limit: "1000 < lim \<Longrightarrow> history_limit lim = 100 \<and> history_limit 1000 = 1000"
  by (simp add: history_limit_def)

end
