(* ===== verification/Deliver_Worker.thy ===== *)
theory Deliver_Worker
  imports Queue_Ops Cron_Next
begin

text \<open>
  The workers of \<open>delayquene/riverquene.go\<close>: \<open>deliver\<close>, \<open>recordExecution\<close>, \<open>scheduleNext\<close>,
  \<open>guaDeliverWorker.Work\<close> and \<open>pruneWorker.Work\<close>, with the HTTP adapter of
  \<open>internal/httpclient/httpclient.go\<close>. The consumer and the transports to it are parameters.
  \<open>Work\<close> is cut where it talks to the outside into three parts, so that other nodes and API
  calls can come between them: \<open>work_load\<close>, \<open>work_deliver\<close> and \<open>work_settle\<close>.
\<close>

section \<open>The HTTP client\<close>

record client_settings =
  cs_timeout :: int
  cs_max_conns :: nat
  cs_max_idle :: nat
  cs_max_idle_per_host :: nat
  cs_idle_timeout :: int
  cs_body_limit :: nat
  cs_debug :: bool

definition maxConnsPerHost :: nat where
  "maxConnsPerHost = 100"

definition httpclient_New :: "int \<Rightarrow> bool \<Rightarrow> client_settings" where
  "httpclient_New maxTimeout debug =
     \<lparr>cs_timeout = maxTimeout, cs_max_conns = maxConnsPerHost, cs_max_idle = maxConnsPerHost,
      cs_max_idle_per_host = maxConnsPerHost, cs_idle_timeout = 90 * nanos_per_sec,
      cs_body_limit = push_bit 20 8, cs_debug = debug\<rparr>"

record http_request =
  hr_method :: string
  hr_url :: string
  hr_content_type :: string
  hr_body :: trigger_envelope
  hr_deadline :: int

text \<open>
  The outside: sending a request gives an error text or the body and the status of the
  response; dialling gives an error text or nothing; a call of \<open>OnJobTrigger\<close> gives an
  error text or the result message, which can be nil. A body is the JSON of an envelope.
\<close>

record consumer =
  send_http :: "http_request \<Rightarrow> string + string \<times> int"
  dial_grpc :: "string \<Rightarrow> string option"
  call_grpc :: "string \<Rightarrow> trigger_envelope \<Rightarrow> int \<Rightarrow> string + (bool \<times> string) option"

definition PostRaw :: "consumer \<Rightarrow> int \<Rightarrow> string \<Rightarrow> trigger_envelope \<Rightarrow> string + string \<times> int" where
  "PostRaw c deadline url body =
     (case send_http c \<lparr>hr_method = ''POST'', hr_url = url, hr_content_type = ''application/json'',
         hr_body = body, hr_deadline = deadline\<rparr> of
        Inl e \<Rightarrow> Inl e
      | Inr (data, status) \<Rightarrow> Inr (data, status))"

section \<open>deliver\<close>

datatype deliver_error =
    UrlError
  | TransportError string
  | CallbackStatus int
  | CallbackFailure string
  | UnsupportedKind string

text \<open>The text \<open>derr.Error()\<close> that is recorded.\<close>

fun error_text :: "deliver_error \<Rightarrow> string" where
  "error_text UrlError = ''invalid argument: request_url must be HTTP@<url> or GRPC@<host:port>''"
| "error_text (TransportError e) = e"
| "error_text (CallbackStatus s) = ''http callback status '' @ show_int s"
| "error_text (CallbackFailure m) = ''grpc callback reported failure: '' @ m"
| "error_text (UnsupportedKind k) = ''unsupported request type '' @ [CHR 0x22] @ k @ [CHR 0x22]"

text \<open>What reached a consumer.\<close>

datatype delivery = HttpPost string trigger_envelope | GrpcCall string trigger_envelope

fun envelope_of :: "delivery \<Rightarrow> trigger_envelope" where
  "envelope_of (HttpPost t e) = e"
| "envelope_of (GrpcCall t e) = e"

definition make_envelope :: "job \<Rightarrow> int \<Rightarrow> int \<Rightarrow> string \<Rightarrow> trigger_envelope" where
  "make_envelope df planTime now idemKey =
     \<lparr>e_job_id = job_id df, e_job_name = job_name df, e_group = group_name df,
      e_plan = planTime, e_exec = now, e_payload = payload df, e_key = idemKey\<rparr>"

definition deliver_http :: "consumer \<Rightarrow> int \<Rightarrow> string \<Rightarrow> trigger_envelope \<Rightarrow> deliver_error + string" where
  "deliver_http c deadline target env =
     (case PostRaw c deadline target env of
        Inl e \<Rightarrow> Inl (TransportError e)
      | Inr (respBody, status) \<Rightarrow>
          if status \<ge> 400 then Inl (CallbackStatus status) else Inr respBody)"

definition deliver_grpc :: "consumer \<Rightarrow> int \<Rightarrow> string \<Rightarrow> trigger_envelope \<Rightarrow> deliver_error + string" where
  "deliver_grpc c deadline target env =
     (case call_grpc c target env deadline of
        Inl e \<Rightarrow> Inl (TransportError e)
      | Inr None \<Rightarrow> Inr []
      | Inr (Some (success, message)) \<Rightarrow>
          if \<not> success then Inl (CallbackFailure message) else Inr message)"

text \<open>The result, what was sent, and the store after reading the clock.\<close>

definition deliver ::
  "config \<Rightarrow> consumer \<Rightarrow> job \<Rightarrow> int \<Rightarrow> string \<Rightarrow> world \<Rightarrow>
     (deliver_error + string) \<times> delivery list \<times> world" where
  "deliver cfg c df planTime idemKey w =
     (case SplitRequestURL (request_url df) of
        Inl e \<Rightarrow> (Inl UrlError, [], w)
      | Inr (kind, target) \<Rightarrow>
          (let deadline = delivery_timeout cfg (timeout df);
               (now, w') = time_Now w;
               env = make_envelope df planTime (unix_secs now) idemKey
           in if kind = ''HTTP'' then (deliver_http c deadline target env, [HttpPost target env], w')
              else if kind = ''GRPC'' then
                (case dial_grpc c target of
                   Some e \<Rightarrow> (Inl (TransportError e), [], w')
                 | None \<Rightarrow> (deliver_grpc c deadline target env, [GrpcCall target env], w'))
              else (Inl (UnsupportedKind kind), [], w')))"

section \<open>recordExecution and scheduleNext\<close>

text \<open>The error of the insertion is only logged; \<open>created_at\<close> defaults to the time of it.\<close>

definition recordExecution ::
  "config \<Rightarrow> job \<Rightarrow> int \<Rightarrow> int \<Rightarrow> deliver_error + string \<Rightarrow> world \<Rightarrow> world" where
  "recordExecution cfg df planTime execTime resp w =
     (if HistoryTTL cfg \<le> 0 then w
      else
        (let kind = (case SplitRequestURL (request_url df) of Inl e \<Rightarrow> [] | Inr (k, t) \<Rightarrow> k);
             errStr = (case resp of Inl derr \<Rightarrow> error_text derr | Inr m \<Rightarrow> []);
             msg = (case resp of Inl derr \<Rightarrow> [] | Inr m \<Rightarrow> m);
             (now, w1) = time_Now w;
             (created, w2) = time_Now w1
         in snd (pool_exec (insert_execution
           \<lparr>h_seq = 0, h_job_id = job_id df, h_group = group_name df, h_type = kind,
            h_plan = planTime, h_exec = execTime, h_finish = unix_secs now,
            h_success = (case resp of Inl e \<Rightarrow> False | Inr m \<Rightarrow> True), h_message = msg,
            h_error = errStr, h_host = MachineHost cfg\<rparr> created) w2)))"

definition scheduleNext :: "config \<Rightarrow> string \<Rightarrow> string \<Rightarrow> int \<Rightarrow> unit op" where
  "scheduleNext cfg jobId grp at = run_tx
     (op_bind (tx_exec (update_jobs (\<lambda>j. job_id j = jobId \<and> active j)
         (\<lambda>j. j\<lparr>exectime := unix_secs at\<rparr>))) (\<lambda>n.
      if n = 0 then op_return (Leave ())
      else op_bind (insertOccurrenceTx cfg jobId grp at) (\<lambda>_. op_return (Commit ()))))"

section \<open>Work\<close>

datatype work_error = DeliverError deliver_error | StoreError gua_error

text \<open>\<open>Hangs\<close> is a call of \<open>Next\<close> that does not return.\<close>

datatype work_result = Done | Failed work_error | Hangs

text \<open>The start of \<open>Work\<close>: the definition to deliver, or the result of an early return.\<close>

definition work_load :: "string \<Rightarrow> world \<Rightarrow> (work_result + job) \<times> world" where
  "work_load jobId w =
     (case loadJob jobId w of
        (Inl e, w1) \<Rightarrow> (if errors_Is e ErrNotFound then (Inl Done, w1)
                        else (Inl (Failed (StoreError e)), w1))
      | (Inr df, w1) \<Rightarrow> (if \<not> active df then (Inl Done, w1) else (Inr df, w1)))"

definition idem_key :: "nat \<Rightarrow> string" where
  "idem_key occurrence = show_int (int occurrence)"

definition work_deliver ::
  "config \<Rightarrow> consumer \<Rightarrow> nat \<Rightarrow> int \<Rightarrow> job \<Rightarrow> world \<Rightarrow>
     (deliver_error + string) \<times> delivery list \<times> world" where
  "work_deliver cfg c occurrence planTime df w =
     (let (execTime, w1) = time_Now w;
          (resp, sent, w2) = deliver cfg c df planTime (idem_key occurrence) w1
      in (resp, sent, recordExecution cfg df planTime (unix_secs execTime) resp w2))"

definition pause_job :: "string \<Rightarrow> nat op" where
  "pause_job jobId = pool_exec (update_jobs (\<lambda>j. job_id j = jobId) (\<lambda>j. j\<lparr>active := False\<rparr>))"

definition drop_job :: "string \<Rightarrow> nat op" where
  "drop_job jobId = pool_exec (delete_jobs (\<lambda>j. job_id j = jobId))"

definition settle_failure :: "river_row \<Rightarrow> job \<Rightarrow> deliver_error \<Rightarrow> world \<Rightarrow> work_result \<times> world" where
  "settle_failure row df derr w =
     (Failed (DeliverError derr),
      if r_attempt row \<ge> r_max row then snd (pause_job (job_id df) w) else w)"

definition settle_success :: "config \<Rightarrow> location \<Rightarrow> job \<Rightarrow> world \<Rightarrow> work_result \<times> world" where
  "settle_success cfg loc df w =
     (if IsOnce (interval_pattern df) then (Done, snd (drop_job (job_id df) w))
      else (case Parse (interval_pattern df) of
          Inl e \<Rightarrow> (Done, snd (pause_job (job_id df) w))
        | Inr sch \<Rightarrow>
            (let (now, w1) = time_Now w in
             case sched_next loc sch now of
               None \<Rightarrow> (Hangs, w1)
             | Some at \<Rightarrow>
                 (case scheduleNext cfg (job_id df) (group_name df) at w1 of
                    (Inl e, w2) \<Rightarrow> (Failed (StoreError e), w2)
                  | (Inr _, w2) \<Rightarrow> (Done, w2)))))"

definition work_settle ::
  "config \<Rightarrow> location \<Rightarrow> river_row \<Rightarrow> job \<Rightarrow> deliver_error + string \<Rightarrow> world \<Rightarrow> work_result \<times> world" where
  "work_settle cfg loc row df resp w =
     (case resp of
        Inl derr \<Rightarrow> settle_failure row df derr w
      | Inr m \<Rightarrow> settle_success cfg loc df w)"

definition Work ::
  "config \<Rightarrow> location \<Rightarrow> consumer \<Rightarrow> river_row \<Rightarrow> world \<Rightarrow> work_result \<times> delivery list \<times> world" where
  "Work cfg loc c row w =
     (case work_load (arg_job (r_args row)) w of
        (Inl r, w1) \<Rightarrow> (r, [], w1)
      | (Inr df, w1) \<Rightarrow>
          (case work_deliver cfg c (r_id row) (arg_plan (r_args row)) df w1 of
             (resp, sent, w2) \<Rightarrow>
               (case work_settle cfg loc row df resp w2 of (r, w3) \<Rightarrow> (r, sent, w3))))"

section \<open>pruneWorker\<close>

definition delete_executions :: "(int \<Rightarrow> bool) \<Rightarrow> nat stmt" where
  "delete_executions old w =
     (length (filter (\<lambda>e. old (snd e)) (gua_executions (db w))),
      w\<lparr>db := (db w)\<lparr>gua_executions := filter (\<lambda>e. \<not> old (snd e)) (gua_executions (db w))\<rparr>\<rparr>)"

definition prune_Work :: "config \<Rightarrow> world \<Rightarrow> work_result \<times> world" where
  "prune_Work cfg w =
     (if HistoryTTL cfg \<le> 0 then (Done, w)
      else
        (let (now, w1) = time_Now w in
         case pool_exec (delete_executions
             (\<lambda>created. created < now - HistoryTTL cfg * nanos_per_sec)) w1 of
           (Inl e, w2) \<Rightarrow> (Failed (StoreError e), w2)
         | (Inr n, w2) \<Rightarrow> (Done, w2)))"

end
