(* ===== verification/Worker_Laws.thy ===== *)
theory Worker_Laws
  imports Deliver_Worker Queue_Theorems
begin

text \<open>
  The workers' statements as interpretations of the contract \<open>atomic_op\<close>, what each part of
  \<open>Work\<close> does to the store, on every branch and under every failure, and that the invariant of
  the tables survives it.
\<close>

section \<open>The contract\<close>

context atomic_op
begin

lemma keeps_wf: "wf_world w \<Longrightarrow> wf_world (snd (m (calm w))) \<Longrightarrow> wf_world (snd (m w))"
  using preserved [of wf_tables w] wf_tables_mono by (simp add: wf_world_def)

lemma tables_after: "db (snd (m w)) = db w \<or> db (snd (m w)) = db (snd (m (calm w)))"
  using atomic [of w] by auto

end

interpretation pause_exhausted: atomic_op "pause_job i" for i
  unfolding pause_job_def by (intro atomic_pool_exec statements)

interpretation drop_once: atomic_op "drop_job i" for i
  unfolding drop_job_def by (intro atomic_pool_exec statements)

interpretation record_row: atomic_op "pool_exec (insert_execution h created)" for h created
  by (intro atomic_pool_exec statements)

lemma statement_delete_executions: "statement (delete_executions old)"
  by unfold_locales (simp_all add: delete_executions_def grows_def)

interpretation prune_rows: atomic_op "pool_exec (delete_executions old)" for old
  by (intro atomic_pool_exec statement_delete_executions)

interpretation reschedule: atomic_op "scheduleNext cfg i g at" for cfg i g at
  unfolding scheduleNext_def by (intro atomic_run_tx steady_rules)

section \<open>Calm runs\<close>

lemma calm_pause_job:
  "fate w = [] \<Longrightarrow> snd (pause_job i w) = w\<lparr>db := (db w)\<lparr>gua_jobs :=
     map (\<lambda>j. if job_id j = i then j\<lparr>active := False\<rparr> else j) (gua_jobs (db w))\<rparr>\<rparr>"
  by (simp add: pause_job_def update_jobs_def)

lemma calm_drop_job:
  "fate w = [] \<Longrightarrow> snd (drop_job i w) = w\<lparr>db := (db w)\<lparr>gua_jobs :=
     filter (\<lambda>j. job_id j \<noteq> i) (gua_jobs (db w))\<rparr>\<rparr>"
  by (simp add: drop_job_def delete_jobs_def)

text \<open>The occurrence River stores for an instant, which may be the zero time.\<close>

definition occurrence_at :: "config \<Rightarrow> nat \<Rightarrow> string \<Rightarrow> string \<Rightarrow> int \<Rightarrow> int \<Rightarrow> river_row" where
  "occurrence_at cfg k i g at now =
     \<lparr>r_id = k, r_args = guaJobArgs i g (unix_secs at),
      r_state = (if at = zero_time then Available else Scheduled), r_attempt = 0,
      r_max = nat (MaxAttempts cfg), r_at = (if at = zero_time then now else at)\<rparr>"

lemma occurrence_at_simps [simp]:
  "r_id (occurrence_at cfg k i g at now) = k" "wf_row (occurrence_at cfg k i g at now)"
  "pending_delivery (occurrence_at cfg k i g at now)"
  "r_args (occurrence_at cfg k i g at now) = guaJobArgs i g (unix_secs at)"
  by (simp_all add: occurrence_at_def wf_row_def pending_delivery_def pendingStates_def)

definition rescheduled :: "config \<Rightarrow> string \<Rightarrow> string \<Rightarrow> int \<Rightarrow> world \<Rightarrow> tables" where
  "rescheduled cfg i g at w = (db w)\<lparr>
     gua_jobs := map (\<lambda>j. if job_id j = i \<and> active j then j\<lparr>exectime := unix_secs at\<rparr> else j) (gua_jobs (db w)),
     river_job := river_job (db w) @ [occurrence_at cfg (next_row w) i g at (clock w (reads w))]\<rparr>"

lemma calm_scheduleNext:
  assumes "fate w = []"
  shows "scheduleNext cfg i g at w =
    (if filter (\<lambda>j. job_id j = i \<and> active j) (gua_jobs (db w)) = [] then (Inr (), w)
     else (Inr (), w\<lparr>next_row := Suc (next_row w),
       reads := (if at = zero_time then Suc (reads w) else reads w), db := rescheduled cfg i g at w\<rparr>))"
  using assms
  by (auto simp: scheduleNext_def calm_run_tx op_bind_def update_jobs_def insertOccurrenceTx_def
      insert_occurrence_def next_fate_works rescheduled_def occurrence_at_def time_Now_def Let_def
      no_rows_unchanged)

section \<open>The parts of Work\<close>

lemma work_load_result:
  assumes "work_load i w = (x, w1)"
  shows "db w1 = db w" and "grows w w1"
    and "\<And>r. x = Inl r \<Longrightarrow> r = Done \<or> r = Failed (StoreError StorageError)"
    and "\<And>df. x = Inr df \<Longrightarrow> find_job i (gua_jobs (db w)) = Some df \<and> active df"
proof -
  obtain fs where f: "next_fate w = (fst (next_fate w), w\<lparr>fate := fs\<rparr>)" using next_fate_split by blast
  obtain y v where l: "loadJob i w = (y, v)" by (cases "loadJob i w")
  have y: "y = Inl StorageError \<or> (case find_job i (gua_jobs (db w)) of None \<Rightarrow> y = Inl JobNotFound | Some df \<Rightarrow> y = Inr df)"
    using l f by (cases "fst (next_fate w)")
      (auto simp: loadJob_def op_bind_def query_def find_job_def split: option.splits)
  have v: "db v = db w" "grows w v" using load.same_db [of i w] load.grow [of w i] l by simp_all
  from assms l have w1: "w1 = v" by (auto simp: work_load_def split: sum.splits if_splits)
  with v show "db w1 = db w" "grows w w1" by simp_all
  from assms l y show "\<And>r. x = Inl r \<Longrightarrow> r = Done \<or> r = Failed (StoreError StorageError)"
    by (auto simp: work_load_def errors_Is_def split: sum.splits if_splits option.splits)
  from assms l y show "\<And>df. x = Inr df \<Longrightarrow> find_job i (gua_jobs (db w)) = Some df \<and> active df"
    by (auto simp: work_load_def split: sum.splits if_splits option.splits)
qed

lemma calm_work_load:
  assumes "fate w = []"
  shows "work_load i w = (case find_job i (gua_jobs (db w)) of
      Some df \<Rightarrow> if active df then Inr df else Inl Done | None \<Rightarrow> Inl Done, w)"
  using assms
  by (simp add: work_load_def loadJob_def op_bind_def find_job_def errors_Is_def split: option.split)

text \<open>What \<open>deliver\<close> may send, for a definition.\<close>

definition may_send :: "job \<Rightarrow> int \<Rightarrow> int \<Rightarrow> string \<Rightarrow> delivery list \<Rightarrow> bool" where
  "may_send df planTime now key sent \<longleftrightarrow> sent = [] \<or>
     (case SplitRequestURL (request_url df) of
        Inl e \<Rightarrow> False
      | Inr (kind, target) \<Rightarrow>
          kind = ''HTTP'' \<and> sent = [HttpPost target (make_envelope df planTime now key)] \<or>
          kind = ''GRPC'' \<and> sent = [GrpcCall target (make_envelope df planTime now key)])"

lemma deliver_result:
  assumes "deliver cfg c df p key w = (resp, sent, w1)"
  shows "w1 = w \<or> w1 = w\<lparr>reads := Suc (reads w)\<rparr>"
    and "may_send df p (unix_secs (clock w (reads w))) key sent"
    and "\<not> isl resp \<Longrightarrow> length sent = 1"
  using assms
  by (auto simp: deliver_def may_send_def Let_def time_Now_def split: sum.splits if_splits option.splits)

lemma deliver_same:
  assumes "deliver cfg c df p key w = (resp, sent, w1)"
  shows "db w1 = db w" "next_row w1 = next_row w" "next_seq w1 = next_seq w" "fate w1 = fate w"
    "clock w1 = clock w" "reads w \<le> reads w1"
  using deliver_result(1) [OF assms] by auto

text \<open>The entry of an attempt.\<close>

definition entry_of :: "config \<Rightarrow> job \<Rightarrow> int \<Rightarrow> int \<Rightarrow> int \<Rightarrow> deliver_error + string \<Rightarrow> nat \<Rightarrow> history_entry" where
  "entry_of cfg df planTime execTime finish resp k =
     \<lparr>h_seq = k, h_job_id = job_id df, h_group = group_name df,
      h_type = (case SplitRequestURL (request_url df) of Inl e \<Rightarrow> [] | Inr (kind, t) \<Rightarrow> kind),
      h_plan = planTime, h_exec = execTime, h_finish = finish, h_success = (\<not> isl resp),
      h_message = (case resp of Inl e \<Rightarrow> [] | Inr m \<Rightarrow> m),
      h_error = (case resp of Inl e \<Rightarrow> error_text e | Inr m \<Rightarrow> []), h_host = MachineHost cfg\<rparr>"

lemma wf_new_entry:
  assumes "wf_tables d a b" and "h_seq h = b"
  shows "wf_tables (d\<lparr>gua_executions := gua_executions d @ [(h, c)]\<rparr>) a (Suc b)"
proof -
  have seqs: "distinct (map (h_seq \<circ> fst) (gua_executions d))" "\<And>e. e \<in> set (gua_executions d) \<Longrightarrow> h_seq (fst e) < b"
    using assms(1) by (simp_all add: wf_tables_def list_all_iff)
  then have "b \<notin> (\<lambda>e. h_seq (fst e)) ` set (gua_executions d)" by auto
  with seqs(1) assms show ?thesis
    by (simp add: wf_tables_def comp_def) (auto simp: list_all_iff less_Suc_eq)
qed

lemma recordExecution_result:
  fixes cfg df p e resp w
  defines "w' \<equiv> recordExecution cfg df p e resp w"
  shows "db w' = db w \<or> (\<exists>finish created. db w' = (db w)\<lparr>gua_executions :=
      gua_executions (db w) @ [(entry_of cfg df p e finish resp (next_seq w), created)]\<rparr>)"
    and "grows w w'" and "wf_world w \<Longrightarrow> wf_world w'"
proof -
  define h where "h = \<lparr>h_seq = 0, h_job_id = job_id df, h_group = group_name df,
      h_type = (case SplitRequestURL (request_url df) of Inl e \<Rightarrow> [] | Inr (kind, t) \<Rightarrow> kind),
      h_plan = p, h_exec = e, h_finish = unix_secs (clock w (reads w)),
      h_success = (case resp of Inl e \<Rightarrow> False | Inr m \<Rightarrow> True),
      h_message = (case resp of Inl e \<Rightarrow> [] | Inr m \<Rightarrow> m),
      h_error = (case resp of Inl e \<Rightarrow> error_text e | Inr m \<Rightarrow> []), h_host = MachineHost cfg\<rparr>"
  define w2 where "w2 = w\<lparr>reads := Suc (Suc (reads w))\<rparr>"
  let ?ins = "pool_exec (insert_execution h (clock w (Suc (reads w))))"
  have w': "w' = (if HistoryTTL cfg \<le> 0 then w else snd (?ins w2))"
    by (simp add: w'_def recordExecution_def time_Now_def w2_def h_def Let_def)
  have ins: "db (snd (?ins (calm w2))) = (db w)\<lparr>gua_executions := gua_executions (db w) @
      [(entry_of cfg df p e (unix_secs (clock w (reads w))) resp (next_seq w), clock w (Suc (reads w)))]\<rparr>"
    by (simp add: insert_execution_def w2_def h_def entry_of_def split: sum.split)
  show "db w' = db w \<or> (\<exists>finish created. db w' = (db w)\<lparr>gua_executions :=
      gua_executions (db w) @ [(entry_of cfg df p e finish resp (next_seq w), created)]\<rparr>)"
  proof (cases "HistoryTTL cfg \<le> 0")
    case True
    then show ?thesis by (simp add: w')
  next
    case False
    have "db w2 = db w" by (simp add: w2_def)
    with False record_row.tables_after [of h "clock w (Suc (reads w))" w2]
    show ?thesis unfolding ins w' by auto
  qed
  have "grows w w2" by (simp add: w2_def grows_def)
  moreover have "grows w2 (snd (?ins w2))" by (rule record_row.grow)
  ultimately have "grows w (snd (?ins w2))" by (rule grows_trans)
  then show "grows w w'" by (simp add: w')
  assume wf: "wf_world w"
  have "next_row (snd (?ins (calm w2))) = next_row w" "next_seq (snd (?ins (calm w2))) = Suc (next_seq w)"
    by (simp_all add: insert_execution_def w2_def)
  with wf have "wf_world (snd (?ins (calm w2)))"
    unfolding wf_world_def ins by (simp add: wf_new_entry entry_of_def)
  moreover have "wf_world w2" using wf by (simp add: w2_def wf_world_def)
  ultimately have "wf_world (snd (?ins w2))" using record_row.keeps_wf [of w2] by blast
  with wf show "wf_world w'" by (simp add: w')
qed

lemma calm_recordExecution:
  assumes "fate w = []" and "0 < HistoryTTL cfg"
  shows "db (recordExecution cfg df p e resp w) = (db w)\<lparr>gua_executions := gua_executions (db w) @
      [(entry_of cfg df p e (unix_secs (clock w (reads w))) resp (next_seq w), clock w (Suc (reads w)))]\<rparr>"
    and "fate (recordExecution cfg df p e resp w) = []"
  using assms
  by (auto simp: recordExecution_def time_Now_def insert_execution_def entry_of_def Let_def split: sum.split)

lemma recordExecution_off: "HistoryTTL cfg \<le> 0 \<Longrightarrow> recordExecution cfg df p e resp w = w"
  by (simp add: recordExecution_def)


lemma work_deliver_result:
  assumes "work_deliver cfg c k p df w = (resp, sent, w')"
  shows "\<exists>now. may_send df p now (idem_key k) sent" and "\<not> isl resp \<Longrightarrow> length sent = 1"
    and "db w' = db w \<or> (\<exists>e finish created. db w' = (db w)\<lparr>gua_executions :=
      gua_executions (db w) @ [(entry_of cfg df p e finish resp (next_seq w), created)]\<rparr>)"
    and "grows w w'" and "wf_world w \<Longrightarrow> wf_world w'"
proof -
  let ?w1 = "snd (time_Now w)" and ?e = "unix_secs (fst (time_Now w))"
  obtain w2 where d: "deliver cfg c df p (idem_key k) ?w1 = (resp, sent, w2)"
    and w': "w' = recordExecution cfg df p ?e resp w2"
    using assms by (auto simp: work_deliver_def split: prod.splits)
  show "\<exists>now. may_send df p now (idem_key k) sent" "\<not> isl resp \<Longrightarrow> length sent = 1"
    using deliver_result(2,3) [OF d] by blast+
  note same = deliver_same [OF d]
  have w1: "db ?w1 = db w" "next_row ?w1 = next_row w" "next_seq ?w1 = next_seq w"
    "clock ?w1 = clock w" "reads w \<le> reads ?w1" by (simp_all add: time_Now_def)
  show "db w' = db w \<or> (\<exists>e finish created. db w' = (db w)\<lparr>gua_executions :=
      gua_executions (db w) @ [(entry_of cfg df p e finish resp (next_seq w), created)]\<rparr>)"
    using recordExecution_result(1) [of cfg df p ?e resp w2] unfolding same w1 w' by blast
  have "grows w w2" using same w1 by (simp add: grows_def)
  then show "grows w w'" unfolding w' using recordExecution_result(2) grows_trans by blast
  assume "wf_world w"
  then have "wf_world w2" by (rule wf_same) (simp_all add: same w1)
  then show "wf_world w'" unfolding w' by (rule recordExecution_result(3))
qed

lemma work_deliver_keeps:
  assumes "work_deliver cfg c k p df w = (resp, sent, w')"
  shows "gua_jobs (db w') = gua_jobs (db w)" "river_job (db w') = river_job (db w)"
    "gua_groups (db w') = gua_groups (db w)"
  using work_deliver_result(3) [OF assms] by auto

lemma wf_flagged:
  assumes "wf_world w" and "\<And>j. job_id (f j) = job_id j \<and> group_name (f j) = group_name j \<and> (wf_job j \<longrightarrow> wf_job (f j))"
  shows "wf_world (w\<lparr>db := (db w)\<lparr>gua_jobs := map (\<lambda>j. if P j then f j else j) (gua_jobs (db w))\<rparr>\<rparr>)"
  using wf_changed_job [OF assms [unfolded wf_world_def], where P = P and Q = "\<lambda>_. True"]
  by (simp add: wf_world_def)

lemma wf_calm: "wf_world (calm w) \<longleftrightarrow> wf_world w"
  by (simp add: wf_world_def)

lemma wf_pause_job:
  assumes "wf_world w"
  shows "wf_world (snd (pause_job i w))"
proof (rule pause_exhausted.keeps_wf [OF assms])
  have "wf_world (calm w)" using assms by (simp add: wf_calm)
  from wf_flagged [OF this, of "\<lambda>j. j\<lparr>active := False\<rparr>" "\<lambda>j. job_id j = i"]
  show "wf_world (snd (pause_job i (calm w)))" by (simp add: calm_pause_job wf_job_active)
qed

lemma wf_drop_job:
  assumes "wf_world w"
  shows "wf_world (snd (drop_job i w))"
proof (rule drop_once.keeps_wf [OF assms])
  have "wf_tables (db w) (next_row w) (next_seq w)" using assms by (simp add: wf_world_def)
  from wf_filtered [OF this, where P = "\<lambda>j. job_id j \<noteq> i" and Q = "\<lambda>_. True"]
  show "wf_world (snd (drop_job i (calm w)))" by (simp add: calm_drop_job wf_world_def)
qed

lemma wf_append_row:
  "wf_tables d a b \<Longrightarrow> r_id r = a \<Longrightarrow> wf_row r \<Longrightarrow> wf_tables (d\<lparr>river_job := river_job d @ [r]\<rparr>) (Suc a) b"
  by (auto simp: wf_tables_def list_all_iff less_Suc_eq)

lemma wf_rescheduled:
  assumes "wf_tables (db w) (next_row w) b"
  shows "wf_tables (rescheduled cfg i g at w) (Suc (next_row w)) b"
proof -
  let ?d = "(db w)\<lparr>gua_jobs := map (\<lambda>j. if job_id j = i \<and> active j then j\<lparr>exectime := unix_secs at\<rparr> else j)
      (gua_jobs (db w)), river_job := filter (\<lambda>_. True) (river_job (db w))\<rparr>"
  have "wf_tables ?d (next_row w) b"
    by (rule wf_changed_job [OF assms]) (simp add: wf_job_def)
  from wf_append_row [OF this, of "occurrence_at cfg (next_row w) i g at (clock w (reads w))"]
  show ?thesis by (simp add: rescheduled_def)
qed

lemma wf_scheduleNext:
  assumes "wf_world w"
  shows "wf_world (snd (scheduleNext cfg i g at w))"
proof (rule reschedule.keeps_wf [OF assms])
  have "wf_tables (db (calm w)) (next_row (calm w)) (next_seq w)" using assms by (simp add: wf_world_def)
  from wf_rescheduled [OF this, of cfg i g at] assms
  show "wf_world (snd (scheduleNext cfg i g at (calm w)))" by (simp add: calm_scheduleNext wf_world_def)
qed

lemma scheduleNext_result:
  assumes "scheduleNext cfg i g at w = (r, w')"
  shows "r = Inr () \<or> r = Inl StorageError"
    and "db w' = db w \<or> db w' = rescheduled cfg i g at w"
    and "filter (\<lambda>j. job_id j = i \<and> active j) (gua_jobs (db w)) = [] \<Longrightarrow> db w' = db w"
    and "filter (\<lambda>j. job_id j = i \<and> active j) (gua_jobs (db w)) \<noteq> [] \<Longrightarrow> r = Inr () \<Longrightarrow> db w' = rescheduled cfg i g at w"
proof -
  have calm: "rescheduled cfg i g at (calm w) = rescheduled cfg i g at w" by (simp add: rescheduled_def)
  have r: "fst (scheduleNext cfg i g at (calm w)) = Inr ()" by (simp add: calm_scheduleNext)
  have d: "db (snd (scheduleNext cfg i g at (calm w))) =
    (if filter (\<lambda>j. job_id j = i \<and> active j) (gua_jobs (db w)) = [] then db w else rescheduled cfg i g at w)"
    by (simp add: calm_scheduleNext calm)
  note atomic = reschedule.atomic [of cfg i g at w, unfolded assms fst_conv snd_conv r]
  then show "r = Inr () \<or> r = Inl StorageError" by auto
  from atomic d have "db w' = db w \<or> db w' = (if filter (\<lambda>j. job_id j = i \<and> active j) (gua_jobs (db w)) = []
      then db w else rescheduled cfg i g at w)" by auto
  then show "db w' = db w \<or> db w' = rescheduled cfg i g at w"
    and "filter (\<lambda>j. job_id j = i \<and> active j) (gua_jobs (db w)) = [] \<Longrightarrow> db w' = db w"
    by (simp_all split: if_splits)
  show "filter (\<lambda>j. job_id j = i \<and> active j) (gua_jobs (db w)) \<noteq> [] \<Longrightarrow> r = Inr () \<Longrightarrow> db w' = rescheduled cfg i g at w"
    using atomic d by auto
qed

lemma settle_failure_result:
  assumes "settle_failure row df derr w = (r, w')"
  shows "r = Failed (DeliverError derr)"
    and "db w' = db w \<or> r_max row \<le> r_attempt row \<and> db w' = (db w)\<lparr>gua_jobs :=
      map (\<lambda>j. if job_id j = job_id df then j\<lparr>active := False\<rparr> else j) (gua_jobs (db w))\<rparr>"
    and "grows w w'" and "wf_world w \<Longrightarrow> wf_world w'"
  using assms pause_exhausted.tables_after [of "job_id df" w] pause_exhausted.grow [of w "job_id df"]
    wf_pause_job [of w "job_id df"]
  by (auto simp: settle_failure_def calm_pause_job split: if_splits)

text \<open>The paths of a successful delivery.\<close>

lemma settle_once:
  "IsOnce (interval_pattern df) \<Longrightarrow> settle_success cfg loc df w = (Done, snd (drop_job (job_id df) w))"
  by (simp add: settle_success_def)

lemma settle_bad_pattern:
  "\<not> IsOnce (interval_pattern df) \<Longrightarrow> Parse (interval_pattern df) = Inl e \<Longrightarrow>
     settle_success cfg loc df w = (Done, snd (pause_job (job_id df) w))"
  by (simp add: settle_success_def)

lemma settle_next:
  assumes "\<not> IsOnce (interval_pattern df)" and "Parse (interval_pattern df) = Inr sch"
    and "sched_next loc sch (clock w (reads w)) = Some at"
  shows "settle_success cfg loc df w =
    (case scheduleNext cfg (job_id df) (group_name df) at (snd (time_Now w)) of
       (Inl e, w2) \<Rightarrow> (Failed (StoreError e), w2) | (Inr _, w2) \<Rightarrow> (Done, w2))"
  using assms by (simp add: settle_success_def time_Now_def)

lemma settle_cases:
  assumes "work_settle cfg loc row df resp w = (r, w')"
  obtains (same) "w' = w \<or> w' = snd (time_Now w)"
  | (paused) "w' = snd (pause_job (job_id df) w)"
  | (dropped) "w' = snd (drop_job (job_id df) w)"
  | (scheduled) at x where "scheduleNext cfg (job_id df) (group_name df) at (snd (time_Now w)) = (x, w')"
  using assms
  by (auto simp: work_settle_def settle_failure_def settle_success_def time_Now_def
      split: sum.splits if_splits option.splits prod.splits)

lemma wf_settle:
  assumes "wf_world w"
  shows "wf_world (snd (work_settle cfg loc row df resp w))"
proof -
  obtain r w' where s: "work_settle cfg loc row df resp w = (r, w')" by (cases "work_settle cfg loc row df resp w")
  have w1: "wf_world (snd (time_Now w))" using assms by (simp add: time_Now_def wf_world_def)
  from s have "wf_world w'"
  proof (cases rule: settle_cases)
    case (scheduled at x)
    with wf_scheduleNext [OF w1] show ?thesis by (metis snd_conv)
  qed (use assms w1 wf_pause_job wf_drop_job in auto)
  with s show ?thesis by simp
qed

lemma wf_Work:
  assumes "wf_world w"
  shows "wf_world (snd (snd (Work cfg loc c row w)))"
proof -
  obtain x w1 where l: "work_load (arg_job (r_args row)) w = (x, w1)" by (cases "work_load (arg_job (r_args row)) w")
  have w1: "wf_world w1"
    using assms work_load_result(1,2) [OF l] wf_tables_mono unfolding wf_world_def grows_def by metis
  show ?thesis
  proof (cases x)
    case (Inl r)
    with l w1 show ?thesis by (simp add: Work_def)
  next
    case (Inr df)
    obtain resp sent w2 where d: "work_deliver cfg c (r_id row) (arg_plan (r_args row)) df w1 = (resp, sent, w2)"
      by (cases "work_deliver cfg c (r_id row) (arg_plan (r_args row)) df w1")
    have "wf_world w2" by (rule work_deliver_result(5) [OF d w1])
    from wf_settle [OF this, of cfg loc row df resp] show ?thesis
      using l d Inr by (cases "work_settle cfg loc row df resp w2") (simp add: Work_def)
  qed
qed

text \<open>The two ways through \<open>Work\<close>.\<close>

lemma Work_cases:
  assumes "Work cfg loc c row w = (r, sent, w')"
  obtains (skipped) "work_load (arg_job (r_args row)) w = (Inl r, w')" and "sent = []"
  | (ran) df w1 resp w2 where "work_load (arg_job (r_args row)) w = (Inr df, w1)"
      and "work_deliver cfg c (r_id row) (arg_plan (r_args row)) df w1 = (resp, sent, w2)"
      and "work_settle cfg loc row df resp w2 = (r, w')"
  using assms by (auto simp: Work_def split: prod.splits sum.splits)

lemma Work_runs:
  "work_load (arg_job (r_args row)) w = (Inr df, w1) \<Longrightarrow>
   work_deliver cfg c (r_id row) (arg_plan (r_args row)) df w1 = (resp, sent, w2) \<Longrightarrow>
   work_settle cfg loc row df resp w2 = (r, w3) \<Longrightarrow> Work cfg loc c row w = (r, sent, w3)"
  by (simp add: Work_def)

lemma may_send_one:
  assumes "may_send df p now key (d # ds)"
  shows "ds = []" and "envelope_of d = make_envelope df p now key"
    and "\<exists>kind target. SplitRequestURL (request_url df) = Inr (kind, target) \<and>
       d = (if kind = ''HTTP'' then HttpPost else GrpcCall) target (make_envelope df p now key)"
proof -
  obtain kind target where u: "SplitRequestURL (request_url df) = Inr (kind, target)"
    using assms by (cases "SplitRequestURL (request_url df)") (auto simp: may_send_def)
  with assms have c: "kind = ''HTTP'' \<and> d # ds = [HttpPost target (make_envelope df p now key)] \<or>
      kind = ''GRPC'' \<and> d # ds = [GrpcCall target (make_envelope df p now key)]"
    by (simp add: may_send_def)
  then show "ds = []" "envelope_of d = make_envelope df p now key" by auto
  have "d = (if kind = ''HTTP'' then HttpPost else GrpcCall) target (make_envelope df p now key)"
    using c by (elim disjE conjE) simp_all
  with u show "\<exists>kind target. SplitRequestURL (request_url df) = Inr (kind, target) \<and>
       d = (if kind = ''HTTP'' then HttpPost else GrpcCall) target (make_envelope df p now key)" by blast
qed

lemma idem_key_inj: "idem_key k = idem_key l \<longleftrightarrow> k = l"
  using show_digits_inj [of "int k" "int l"] by (auto simp: idem_key_def show_int_def)

section \<open>Calm attempts\<close>

lemma calm_work_deliver:
  assumes "work_deliver cfg c k p df w = (resp, sent, w')" and "fate w = []"
  shows "fate w' = []"
    and "0 < HistoryTTL cfg \<Longrightarrow> \<exists>e finish created. gua_executions (db w') =
      gua_executions (db w) @ [(entry_of cfg df p e finish resp (next_seq w), created)]"
    and "HistoryTTL cfg \<le> 0 \<Longrightarrow> db w' = db w"
proof -
  let ?w1 = "snd (time_Now w)" and ?e = "unix_secs (fst (time_Now w))"
  obtain w2 where d: "deliver cfg c df p (idem_key k) ?w1 = (resp, sent, w2)"
    and w': "w' = recordExecution cfg df p ?e resp w2"
    using assms(1) by (auto simp: work_deliver_def split: prod.splits)
  have w2: "fate w2 = []" "db w2 = db w" "next_seq w2 = next_seq w"
    using deliver_same [OF d] assms(2) by (simp_all add: time_Now_def)
  show "fate w' = []"
    using calm_recordExecution(2) [OF w2(1)] w2(1) by (cases "HistoryTTL cfg \<le> 0") (simp_all add: w' recordExecution_off)
  show "\<exists>e finish created. gua_executions (db w') =
      gua_executions (db w) @ [(entry_of cfg df p e finish resp (next_seq w), created)]" if "0 < HistoryTTL cfg"
    unfolding w' calm_recordExecution(1) [OF w2(1) that] w2 by auto
  show "db w' = db w" if "HistoryTTL cfg \<le> 0"
    using w2(2) by (simp add: w' recordExecution_off [OF that])
qed

text \<open>What the end of an attempt leaves alone.\<close>

lemma paused_rows:
  "db (snd (pause_job i w)) = db w \<or> db (snd (pause_job i w)) = (db w)\<lparr>gua_jobs :=
     map (\<lambda>j. if job_id j = i then j\<lparr>active := False\<rparr> else j) (gua_jobs (db w))\<rparr>"
  using pause_exhausted.tables_after [of i w] by (simp add: calm_pause_job)

lemma dropped_rows:
  "db (snd (drop_job i w)) = db w \<or> db (snd (drop_job i w)) = (db w)\<lparr>gua_jobs :=
     filter (\<lambda>j. job_id j \<noteq> i) (gua_jobs (db w))\<rparr>"
  using drop_once.tables_after [of i w] by (simp add: calm_drop_job)

lemma settle_executions:
  assumes "work_settle cfg loc row df resp w = (r, w')"
  shows "gua_executions (db w') = gua_executions (db w)" and "gua_groups (db w') = gua_groups (db w)"
proof -
  have "gua_executions (db w') = gua_executions (db w) \<and> gua_groups (db w') = gua_groups (db w)"
    using assms
  proof (cases rule: settle_cases)
    case same
    then show ?thesis by (elim disjE) (simp_all add: time_Now_def)
  next
    case paused
    with paused_rows [of "job_id df" w] show ?thesis by auto
  next
    case dropped
    with dropped_rows [of "job_id df" w] show ?thesis by auto
  next
    case (scheduled at x)
    with scheduleNext_result(2) [OF scheduled] show ?thesis by (auto simp: rescheduled_def time_Now_def)
  qed
  then show "gua_executions (db w') = gua_executions (db w)" "gua_groups (db w') = gua_groups (db w)" by simp_all
qed

text \<open>A definition that is not active when a delivery ends stays inactive, and is not scheduled.\<close>

lemma settle_inactive:
  assumes "work_settle cfg loc row df resp w = (r, w')"
    and "\<forall>j \<in> set (gua_jobs (db w)). job_id j = job_id df \<longrightarrow> \<not> active j"
  shows "river_job (db w') = river_job (db w) \<and>
    (\<forall>j \<in> set (gua_jobs (db w')). job_id j = job_id df \<longrightarrow> \<not> active j)"
  using assms(1)
proof (cases rule: settle_cases)
  case same
  then have "db w' = db w" by (elim disjE) (simp_all add: time_Now_def)
  with assms(2) show ?thesis by simp
next
  case paused
  with paused_rows [of "job_id df" w] assms(2) show ?thesis by auto
next
  case dropped
  with dropped_rows [of "job_id df" w] assms(2) show ?thesis by auto
next
  case (scheduled at x)
  have "db (snd (time_Now w)) = db w" by (simp add: time_Now_def)
  with scheduleNext_result(3) [OF scheduled] assms(2) have "db w' = db w" by (simp add: filter_empty_conv)
  with assms(2) show ?thesis by simp
qed

section \<open>Pruning\<close>

lemma prune_result:
  assumes "prune_Work cfg w = (r, w')"
  shows "db w' = db w \<and> (r = Done \<longrightarrow> HistoryTTL cfg \<le> 0 \<or>
      filter (\<lambda>e. clock w (reads w) - HistoryTTL cfg * nanos_per_sec \<le> snd e) (gua_executions (db w)) = gua_executions (db w)) \<or>
    0 < HistoryTTL cfg \<and> db w' = (db w)\<lparr>gua_executions :=
      filter (\<lambda>e. clock w (reads w) - HistoryTTL cfg * nanos_per_sec \<le> snd e) (gua_executions (db w))\<rparr>"
proof (cases "HistoryTTL cfg \<le> 0")
  case True
  with assms show ?thesis by (simp add: prune_Work_def)
next
  case False
  let ?old = "\<lambda>created. created < clock w (reads w) - HistoryTTL cfg * nanos_per_sec"
  let ?v = "w\<lparr>reads := Suc (reads w)\<rparr>" and ?m = "pool_exec (delete_executions ?old)"
  obtain x u where m: "?m ?v = (x, u)" by (cases "?m ?v")
  with assms False have r: "w' = u" "r = Done \<longleftrightarrow> \<not> isl x"
    by (auto simp: prune_Work_def time_Now_def split: sum.splits)
  have c: "?m (calm ?v) = (Inr (length (filter (\<lambda>e. ?old (snd e)) (gua_executions (db w)))),
      calm (?v\<lparr>db := (db w)\<lparr>gua_executions := filter (\<lambda>e. \<not> ?old (snd e)) (gua_executions (db w))\<rparr>\<rparr>))"
    by (simp add: delete_executions_def)
  from prune_rows.atomic [of ?old ?v, unfolded m c] r False show ?thesis
    by (auto simp: not_less)
qed

lemma grows_prune: "grows w (snd (prune_Work cfg w))"
proof -
  let ?m = "pool_exec (delete_executions (\<lambda>t. t < clock w (reads w) - HistoryTTL cfg * nanos_per_sec))"
  have "snd (prune_Work cfg w) = (if HistoryTTL cfg \<le> 0 then w else snd (?m (snd (time_Now w))))"
    by (simp add: prune_Work_def time_Now_def split: prod.split sum.split)
  moreover have "grows w (snd (time_Now w))" by (simp add: time_Now_def grows_def)
  ultimately show ?thesis using prune_rows.grow grows_trans by auto
qed

lemma wf_prune:
  assumes "wf_world w"
  shows "wf_world (snd (prune_Work cfg w))"
proof -
  obtain r w' where p: "prune_Work cfg w = (r, w')" by (cases "prune_Work cfg w")
  have g: "grows w w'" using grows_prune [of w cfg] p by simp
  have f: "wf_tables ((db w)\<lparr>gua_executions := filter P (gua_executions (db w))\<rparr>) (next_row w) (next_seq w)" for P
    using assms by (auto simp: wf_world_def wf_tables_def list_all_iff distinct_map_filter)
  from prune_result [OF p] assms f have "wf_tables (db w') (next_row w) (next_seq w)"
    unfolding wf_world_def by (elim disjE conjE) (simp_all only:)
  with g p show ?thesis unfolding wf_world_def grows_def using wf_tables_mono by auto
qed

end
