(* ===== verification/Worker_Theorems.thy ===== *)
theory Worker_Theorems
  imports Worker_Laws Cron_Theorems
begin

text \<open>
  The properties of the delivery worker: what reaches a consumer, with which key, and what a
  finished attempt leaves in the tables, whatever fails and whatever other requests came between
  loading the definition and settling the attempt.
\<close>

section \<open>Small instances\<close>

definition demo_consumer :: "int \<Rightarrow> consumer" where
  "demo_consumer status = \<lparr>send_http = (\<lambda>_. Inr (''ok'', status)), dial_grpc = (\<lambda>_. None),
     call_grpc = (\<lambda>_ _ _. Inr (Some (True, ''ok'')))\<rparr>"

definition demo_row :: "nat \<Rightarrow> river_row" where
  "demo_row attempt = \<lparr>r_id = 0, r_args = guaJobArgs ''j1'' ''g'' 500, r_state = Running,
     r_attempt = attempt, r_max = 25, r_at = 500000000000\<rparr>"

definition once_world :: "outcome list \<Rightarrow> world" where
  "once_world fs = (demo_world fs)\<lparr>db := demo_tables\<lparr>gua_jobs := [demo_job\<lparr>interval_pattern := ''@once''\<rparr>]\<rparr>\<rparr>"

lemma demo_row_simps [simp]:
  "r_id (demo_row k) = 0" "r_args (demo_row k) = guaJobArgs ''j1'' ''g'' 500" "r_attempt (demo_row k) = k"
  "r_max (demo_row k) = 25"
  by (simp_all add: demo_row_def)

lemma Work_eta:
  "Work cfg loc c row w = (fst (Work cfg loc c row w), fst (snd (Work cfg loc c row w)), snd (snd (Work cfg loc c row w)))"
  by simp

section \<open>What reaches the consumer\<close>

text \<open>C18: a run of an occurrence sends at most one request, only for a definition that exists and is
  active when it is loaded, to the target of that definition and by its transport; the envelope
  carries the definition's identity and payload, the planned time of the occurrence and the
  occurrence's id as the idempotency key.\<close>

theorem work_sends_only_active:
  assumes "Work cfg loc c row w = (r, sent, w')"
  shows "sent = [] \<or> (\<exists>df kind target now.
    find_job (arg_job (r_args row)) (gua_jobs (db w)) = Some df \<and> active df \<and>
    SplitRequestURL (request_url df) = Inr (kind, target) \<and>
    sent = [(if kind = ''HTTP'' then HttpPost else GrpcCall) target
      \<lparr>e_job_id = arg_job (r_args row), e_job_name = job_name df, e_group = group_name df,
       e_plan = arg_plan (r_args row), e_exec = now, e_payload = payload df,
       e_key = show_int (int (r_id row))\<rparr>])"
  using assms
proof (cases rule: Work_cases)
  case (ran df w1 resp w2)
  then obtain now where m: "may_send df (arg_plan (r_args row)) now (idem_key (r_id row)) sent"
    using work_deliver_result(1) by blast
  have f: "find_job (arg_job (r_args row)) (gua_jobs (db w)) = Some df" "active df"
    using work_load_result(4) [OF ran(1)] by auto
  then have i: "job_id df = arg_job (r_args row)" by (auto dest: find_job_SomeD)
  show ?thesis
  proof (cases sent)
    case (Cons d ds)
    note one = may_send_one [OF m [unfolded Cons]]
    from one(1) one(3) f show ?thesis unfolding Cons make_envelope_def idem_key_def i by blast
  qed simp
qed simp

lemma demo_work:
  "fst (Work demo_config (zone 0) (demo_consumer 200) (demo_row 1) (demo_world [])) = Done"
  "length (fst (snd (Work demo_config (zone 0) (demo_consumer 200) (demo_row 1) (demo_world [])))) = 1"
  "length (river_job (db (snd (snd (Work demo_config (zone 0) (demo_consumer 200) (demo_row 1) (demo_world [])))))) = 2"
  by code_simp+

theorem work_sends_only_active_witness:
  "\<exists>df kind target now. find_job ''j1'' (gua_jobs demo_tables) = Some df \<and> active df \<and>
    SplitRequestURL (request_url df) = Inr (kind, target) \<and>
    fst (snd (Work demo_config (zone 0) (demo_consumer 200) (demo_row 1) (demo_world []))) =
      [(if kind = ''HTTP'' then HttpPost else GrpcCall) target
        \<lparr>e_job_id = ''j1'', e_job_name = job_name df, e_group = group_name df, e_plan = 500,
         e_exec = now, e_payload = payload df, e_key = show_int (int 0)\<rparr>]"
proof -
  have "fst (snd (Work demo_config (zone 0) (demo_consumer 200) (demo_row 1) (demo_world []))) \<noteq> []"
    using demo_work(2) by (metis length_0_conv zero_neq_one)
  with work_sends_only_active [OF Work_eta, of demo_config "zone 0" "demo_consumer 200" "demo_row 1" "demo_world []"]
  show ?thesis unfolding demo_row_simps demo_world_simps river_args.sel by blast
qed

text \<open>The idempotency key names the firing. Two requests a worker sends carry the same key
  exactly when they are for the same occurrence, whatever the attempts, the definitions and the
  times.\<close>

theorem key_identifies_firing:
  assumes "Work cfg1 loc1 c1 row1 w1 = (r1, [d1], w1')" and "Work cfg2 loc2 c2 row2 w2 = (r2, [d2], w2')"
  shows "e_key (envelope_of d1) = e_key (envelope_of d2) \<longleftrightarrow> r_id row1 = r_id row2"
proof -
  have key: "e_key (envelope_of d) = idem_key (r_id row)"
    if "Work cfg loc c row w = (r, [d], w')" for cfg loc c row w r d w'
    using that
  proof (cases rule: Work_cases)
    case (ran df w1 resp w2)
    then obtain now where "may_send df (arg_plan (r_args row)) now (idem_key (r_id row)) [d]"
      using work_deliver_result(1) by blast
    from may_send_one(2) [OF this] show ?thesis by (simp add: make_envelope_def)
  qed simp
  show ?thesis using key [OF assms(1)] key [OF assms(2)] by (simp add: idem_key_inj)
qed

lemma demo_sends:
  "Work demo_config (zone 0) (demo_consumer 200) (demo_row 1) (demo_world []) =
    (Done, [hd (fst (snd (Work demo_config (zone 0) (demo_consumer 200) (demo_row 1) (demo_world []))))],
     snd (snd (Work demo_config (zone 0) (demo_consumer 200) (demo_row 1) (demo_world []))))"
  using demo_work(1,2) by (intro prod_eqI) (auto simp: length_Suc_conv)

theorem key_identifies_firing_witness:
  "let d = hd (fst (snd (Work demo_config (zone 0) (demo_consumer 200) (demo_row 1) (demo_world [])))) in
   e_key (envelope_of d) = e_key (envelope_of d) \<longleftrightarrow> r_id (demo_row 1) = r_id (demo_row 1)"
  unfolding Let_def by (rule key_identifies_firing [OF demo_sends demo_sends])

text \<open>An occurrence whose definition was deleted or paused sends nothing and changes no table; it
  completes, or reports the failed read so that it is retried.\<close>

theorem skipped_changes_nothing:
  assumes "Work cfg loc c row w = (r, sent, w')"
    and "\<forall>j. find_job (arg_job (r_args row)) (gua_jobs (db w)) = Some j \<longrightarrow> \<not> active j"
  shows "sent = [] \<and> db w' = db w \<and> (r = Done \<or> r = Failed (StoreError StorageError))"
  using assms(1)
proof (cases rule: Work_cases)
  case skipped
  with work_load_result(1,3) [OF skipped(1)] show ?thesis by auto
next
  case ran
  with work_load_result(4) [OF ran(1)] assms(2) show ?thesis by auto
qed

theorem skipped_changes_nothing_witness:
  "fst (snd (Work demo_config (zone 0) (demo_consumer 200) (demo_row 1)
     ((demo_world [])\<lparr>db := demo_tables\<lparr>gua_jobs := []\<rparr>\<rparr>))) = []"
  using skipped_changes_nothing [OF Work_eta, of "demo_row 1" "(demo_world [])\<lparr>db := demo_tables\<lparr>gua_jobs := []\<rparr>\<rparr>"]
  by (simp add: find_job_def)

section \<open>What a finished attempt leaves\<close>

text \<open>C19: a fire-once job is delivered once. Whatever fails, the worker inserts no new occurrence
  for it, and asks for a retry only when the delivery itself failed or nothing was sent; when
  nothing fails, the definition is gone after the delivery.\<close>

theorem once_delivered_is_done:
  assumes "Work cfg loc c row w = (r, sent, w')"
    and "find_job (arg_job (r_args row)) (gua_jobs (db w)) = Some df" and "IsOnce (interval_pattern df)"
  shows "river_job (db w') = river_job (db w) \<and>
    (r = Done \<or> (\<exists>e. r = Failed (DeliverError e)) \<or> sent = [] \<and> r = Failed (StoreError StorageError)) \<and>
    (fate w = [] \<and> active df \<and> r = Done \<longrightarrow>
       length sent = 1 \<and> find_job (arg_job (r_args row)) (gua_jobs (db w')) = None)"
  using assms(1)
proof (cases rule: Work_cases)
  case skipped
  with work_load_result(1,3) [OF skipped(1)] assms(2) show ?thesis
    by (auto simp: calm_work_load)
next
  case (ran df' w1 resp w2)
  from work_load_result(4) [OF ran(1)] assms(2) have df: "df' = df" "active df" by simp_all
  from assms(2) have i: "job_id df = arg_job (r_args row)" by (auto dest: find_job_SomeD)
  have w1: "db w1 = db w" using work_load_result(1) [OF ran(1)] .
  note keeps = work_deliver_keeps [OF ran(2)]
  show ?thesis
  proof (cases resp)
    case (Inl e)
    with ran(3) have f: "settle_failure row df e w2 = (r, w')" by (simp add: work_settle_def df)
    from settle_failure_result(1,2) [OF f] keeps w1 show ?thesis by auto
  next
    case (Inr m)
    with ran(3) assms(3) have s: "r = Done" "w' = snd (drop_job (job_id df) w2)"
      by (simp_all add: work_settle_def df settle_once)
    have one: "length sent = 1" using work_deliver_result(2) [OF ran(2)] Inr by simp
    have gone: "find_job (arg_job (r_args row)) (gua_jobs (db w')) = None" if "fate w = []"
    proof -
      have "fate w1 = []" using ran(1) that by (simp add: calm_work_load)
      from calm_work_deliver(1) [OF ran(2) this] show ?thesis
        unfolding s(2) i by (auto simp: calm_drop_job find_job_None)
    qed
    from dropped_rows [of "job_id df" w2] have "river_job (db w') = river_job (db w2)"
      unfolding s(2) by (elim disjE) simp_all
    with keeps w1 s(1) one gone show ?thesis by simp
  qed
qed

lemma demo_once:
  "fst (Work demo_config (zone 0) (demo_consumer 200) (demo_row 1) (once_world [])) = Done"
  by code_simp

theorem once_delivered_is_done_witness:
  "find_job ''j1'' (gua_jobs (db (snd (snd (Work demo_config (zone 0) (demo_consumer 200) (demo_row 1) (once_world [])))))) = None"
proof -
  have "find_job (arg_job (r_args (demo_row 1))) (gua_jobs (db (once_world []))) =
      Some (demo_job\<lparr>interval_pattern := ''@once''\<rparr>)"
    by (simp add: once_world_def find_job_def demo_job_def)
  from once_delivered_is_done [OF Work_eta this, of demo_config "zone 0" "demo_consumer 200"]
  show ?thesis using demo_once by (simp add: IsOnce_def once_world_def demo_job_def)
qed

lemma recurring_run:
  assumes "Work cfg (zone z) c row w = (Done, sent, w')" and "fate w = []" and "wf_world w"
    and "find_job (arg_job (r_args row)) (gua_jobs (db w)) = Some df" and "active df"
    and "\<not> IsOnce (interval_pattern df)"
  shows "\<exists>sch now at k t. Parse (interval_pattern df) = Inr sch \<and>
    sched_next (zone z) sch now = Some at \<and> (at = zero_time \<or> now < at) \<and>
    river_job (db w') = river_job (db w) @
      [\<lparr>r_id = k, r_args = guaJobArgs (job_id df) (group_name df) (unix_secs at),
        r_state = (if at = zero_time then Available else Scheduled), r_attempt = 0,
        r_max = nat (MaxAttempts cfg), r_at = (if at = zero_time then t else at)\<rparr>] \<and>
    find_job (job_id df) (gua_jobs (db w')) = Some (df\<lparr>exectime := unix_secs at\<rparr>)"
  using assms(1)
proof (cases rule: Work_cases)
  case skipped
  with assms(2,4,5) show ?thesis by (simp add: calm_work_load)
next
  case (ran df' w1 resp w2)
  from ran(1) assms(2,4,5) have w1: "w1 = w" and df: "df' = df" by (simp_all add: calm_work_load)
  have w2: "fate w2 = []" "gua_jobs (db w2) = gua_jobs (db w)" "river_job (db w2) = river_job (db w)"
    using calm_work_deliver(1) [OF ran(2)] work_deliver_keeps [OF ran(2)] assms(2) w1 by simp_all
  from assms(4) have mem: "df \<in> set (gua_jobs (db w))" "job_id df = arg_job (r_args row)"
    by (auto dest: find_job_SomeD)
  with assms(3) have "wf_job df" by (auto simp: wf_world_def wf_tables_def list_all_iff)
  with assms(6) obtain sch where p: "Parse (interval_pattern df) = Inr sch"
    by (auto simp: wf_job_def ValidatePattern_def split: sum.splits)
  from ran(3) obtain m where "resp = Inr m"
    by (cases resp) (auto simp: work_settle_def df dest: settle_failure_result(1))
  with ran(3) have s: "settle_success cfg (zone z) df w2 = (Done, w')" by (simp add: work_settle_def df)
  let ?now = "clock w2 (reads w2)" and ?v = "snd (time_Now w2)"
  from sched_next_later [OF p, of z ?now] obtain at where
    at: "sched_next (zone z) sch ?now = Some at" "at = zero_time \<or> ?now < at" by auto
  let ?P = "\<lambda>j. job_id j = job_id df \<and> active j"
  have v: "fate ?v = []" "db ?v = db w2" using w2 by (simp_all add: time_Now_def)
  have "filter ?P (gua_jobs (db ?v)) \<noteq> []"
    using mem(1) assms(5) w2 v by (auto simp: filter_empty_conv)
  with s settle_next [OF assms(6) p at(1), of cfg] v(1)
  have d: "db w' = rescheduled cfg (job_id df) (group_name df) at ?v"
    by (auto simp: calm_scheduleNext)
  have "find_job (job_id df) (gua_jobs (db w')) =
      map_option (\<lambda>j. if ?P j then j\<lparr>exectime := unix_secs at\<rparr> else j) (find_job (job_id df) (gua_jobs (db w)))"
    unfolding d rescheduled_def v(2) w2(2) by (simp add: find_job_map)
  then have "find_job (job_id df) (gua_jobs (db w')) = Some (df\<lparr>exectime := unix_secs at\<rparr>)"
    using assms(4,5) mem(2) by simp
  moreover have "river_job (db w') = river_job (db w) @
      [occurrence_at cfg (next_row ?v) (job_id df) (group_name df) at (clock ?v (reads ?v))]"
    unfolding d rescheduled_def v(2) by (simp add: w2(3))
  ultimately show ?thesis using p at unfolding occurrence_at_def by blast
qed


lemma demo_done:
  "Work demo_config (zone 0) (demo_consumer 200) (demo_row 1) (demo_world []) =
    (Done, fst (snd (Work demo_config (zone 0) (demo_consumer 200) (demo_row 1) (demo_world []))),
     snd (snd (Work demo_config (zone 0) (demo_consumer 200) (demo_row 1) (demo_world []))))"
  using demo_work(1) by (intro prod_eqI) auto


text \<open>C21: a pause or a deletion during a delivery holds. If the definition is no longer active when
  the attempt is settled, then whatever the result of the delivery and whatever fails, no occurrence
  is added and no definition of the job is active afterwards.\<close>

theorem paused_meanwhile_stops:
  assumes "work_settle cfg loc row df resp w = (r, w')"
    and "\<forall>j \<in> set (gua_jobs (db w)). job_id j = job_id df \<longrightarrow> \<not> active j"
  shows "river_job (db w') = river_job (db w) \<and>
    (\<forall>j \<in> set (gua_jobs (db w')). job_id j = job_id df \<longrightarrow> \<not> active j)"
  using assms by (rule settle_inactive)

theorem paused_meanwhile_stops_witness:
  "river_job (db (snd (work_settle demo_config (zone 0) (demo_row 1) demo_job (Inr [])
     (snd (Pause ''g'' ''j1'' (demo_world [])))))) = river_job (db (snd (Pause ''g'' ''j1'' (demo_world []))))"
proof -
  have "\<forall>j \<in> set (gua_jobs (db (snd (Pause ''g'' ''j1'' (demo_world []))))). job_id j = job_id demo_job \<longrightarrow> \<not> active j"
    by (simp add: calm_Pause demo_rows) (simp add: changed_job_def demo_tables_def is_job_def demo_job_def)
  from paused_meanwhile_stops [OF surjective_pairing this] show ?thesis by blast
qed

text \<open>C22: a failed delivery is left to River's retries. The worker returns the error, no occurrence is
  added or removed, and no definition changes before the last attempt; after the last attempt the
  definition is inactive, unless the statement that pauses it fails.\<close>

theorem failed_delivery_retries:
  assumes "Work cfg loc c row w = (Failed (DeliverError e), sent, w')"
  shows "river_job (db w') = river_job (db w) \<and>
    (r_attempt row < r_max row \<longrightarrow> gua_jobs (db w') = gua_jobs (db w)) \<and>
    (r_max row \<le> r_attempt row \<and> fate w = [] \<longrightarrow>
       gua_jobs (db w') = map (\<lambda>j. if job_id j = arg_job (r_args row) then j\<lparr>active := False\<rparr> else j) (gua_jobs (db w)))"
  using assms
proof (cases rule: Work_cases)
  case skipped
  with work_load_result(3) [OF skipped(1)] show ?thesis by auto
next
  case (ran df w1 resp w2)
  have db1: "db w1 = db w" using work_load_result(1) [OF ran(1)] .
  from work_load_result(4) [OF ran(1)] have i: "job_id df = arg_job (r_args row)" by (auto dest: find_job_SomeD)
  note keeps = work_deliver_keeps [OF ran(2)]
  have fate: "fate w2 = []" if "fate w = []"
  proof -
    have "fate w1 = []" using ran(1) that by (simp add: calm_work_load)
    from calm_work_deliver(1) [OF ran(2) this] show ?thesis .
  qed
  show ?thesis
  proof (cases resp)
    case (Inl d)
    with ran(3) have f: "settle_failure row df d w2 = (Failed (DeliverError e), w')" by (simp add: work_settle_def)
    then have w': "w' = (if r_max row \<le> r_attempt row then snd (pause_job (job_id df) w2) else w2)"
      by (simp add: settle_failure_def)
    from settle_failure_result(2) [OF f] keeps db1 have "river_job (db w') = river_job (db w)" by auto
    then show ?thesis using keeps db1 fate unfolding w' i by (simp add: calm_pause_job)
  next
    case (Inr m)
    with ran(3) show ?thesis
      by (auto simp: work_settle_def settle_success_def split: if_splits sum.splits option.splits prod.splits)
  qed
qed

lemma demo_failed:
  "fst (Work demo_config (zone 0) (demo_consumer 500) (demo_row 25) (demo_world [])) = Failed (DeliverError (CallbackStatus 500))"
  by code_simp

theorem failed_delivery_retries_witness:
  "map active (gua_jobs (db (snd (snd (Work demo_config (zone 0) (demo_consumer 500) (demo_row 25) (demo_world [])))))) = [False]"
proof -
  let ?W = "Work demo_config (zone 0) (demo_consumer 500) (demo_row 25) (demo_world [])"
  have "?W = (Failed (DeliverError (CallbackStatus 500)), fst (snd ?W), snd (snd ?W))"
    using demo_failed by (intro prod_eqI) simp_all
  from failed_delivery_retries [OF this] show ?thesis by (simp add: demo_tables_def demo_job_def)
qed



section \<open>The invariant, retention and deadlines\<close>

text \<open>The invariant of the store survives the workers: whatever fails, a delivery and a pruning
  leave a well-formed store well-formed.\<close>

theorem workers_keep_wf:
  assumes "wf_world w"
  shows "wf_world (snd (snd (Work cfg loc c row w))) \<and> wf_world (snd (prune_Work cfg w))"
  using wf_Work [OF assms] wf_prune [OF assms] by blast

theorem workers_keep_wf_witness:
  "wf_world (snd (prune_Work demo_config (demo_world [Lost])))"
  using workers_keep_wf [of "demo_world [Lost]"] by simp

text \<open>Pruning removes the history that is older than the retention time and nothing else; on a
  failure it has done that or nothing, and with history off it does nothing.\<close>

theorem prune_removes_only_old:
  fixes cfg w
  defines "kept \<equiv> filter (\<lambda>e. clock w (reads w) - HistoryTTL cfg * nanos_per_sec \<le> snd e) (gua_executions (db w))"
  assumes "prune_Work cfg w = (r, w')"
  shows "db w' = db w \<and> (r = Done \<longrightarrow> HistoryTTL cfg \<le> 0 \<or> kept = gua_executions (db w)) \<or>
    0 < HistoryTTL cfg \<and> db w' = (db w)\<lparr>gua_executions := kept\<rparr>"
  using prune_result [OF assms(2)] unfolding kept_def by blast

theorem prune_removes_only_old_witness:
  "db (snd (prune_Work demo_config history_world)) = db history_world \<or>
   gua_executions (db (snd (prune_Work demo_config history_world))) =
     filter (\<lambda>e. clock history_world (reads history_world) - HistoryTTL demo_config * nanos_per_sec \<le> snd e)
       (gua_executions (db history_world))"
  using prune_removes_only_old [OF surjective_pairing, of demo_config history_world] by auto

text \<open>Deadlines are nested. Whatever a job's timeout and the configuration, a delivery gets a
  positive time, no more than the HTTP client allows; that is less than the time River gives the
  worker, which is less than the time after which River rescues the occurrence. A timeout of one
  second to ten minutes is kept as it is.\<close>

theorem deadlines_nested:
  "0 < delivery_timeout (with_defaults cfg) s \<and>
   delivery_timeout (with_defaults cfg) s \<le> cs_timeout (httpclient_New MaxDeliveryTimeout debug) \<and>
   cs_timeout (httpclient_New MaxDeliveryTimeout debug) < cc_timeout (river_client (with_defaults cfg)) \<and>
   cc_timeout (river_client (with_defaults cfg)) < cc_rescue (river_client (with_defaults cfg)) \<and>
   (s \<in> {1..600} \<longrightarrow> delivery_timeout (with_defaults cfg) s = s * nanos_per_sec)"
proof -
  have "delivery_timeout (with_defaults cfg) s = s * nanos_per_sec" if "s \<in> {1..600}"
    using delivery_timeout_small [of s "with_defaults cfg"] that
    by (simp add: MaxDeliveryTimeout_def nanos_per_sec_def)
  with delivery_timeout_bounds [OF with_defaults_wf, of cfg s] show ?thesis
    by (auto simp: httpclient_New_def river_client_def duration_consts nanos_per_sec_def)
qed

theorem deadlines_nested_witness:
  "delivery_timeout (with_defaults demo_config) 7 = 7 * nanos_per_sec"
  using deadlines_nested [of demo_config 7] by simp

text \<open>A large timeout wraps. A job may ask for 18446744074 seconds; the product with a second
  overflows and the delivery gets 0.29 seconds instead of the ten minutes of the cap.\<close>

theorem huge_timeout_wraps:
  "delivery_timeout cfg 18446744074 = 290448384 \<and> 290448384 < MaxDeliveryTimeout \<and>
   valid_job (demo_job\<lparr>timeout := 18446744074\<rparr>)"
  by (intro conjI) code_simp+


definition never_job :: job where
  "never_job = demo_job\<lparr>interval_pattern := ''0 0 0 30 2 *''\<rparr>"

definition never_world :: world where
  "never_world = (demo_world [])\<lparr>db := demo_tables\<lparr>gua_jobs := [never_job]\<rparr>\<rparr>"


lemma never_runs:
  "find_job (arg_job (r_args (demo_row 1))) (gua_jobs (db never_world)) = Some never_job"
  "wf_world never_world" "fate never_world = []" "active never_job"
  "interval_pattern never_job = ''0 0 0 30 2 *''"
  "fst (Work demo_config (zone 0) (demo_consumer 200) (demo_row 1) never_world) = Done"
proof -
  show "find_job (arg_job (r_args (demo_row 1))) (gua_jobs (db never_world)) = Some never_job"
    "fate never_world = []" "active never_job" "interval_pattern never_job = ''0 0 0 30 2 *''"
    by (simp_all add: never_world_def never_job_def find_job_def demo_job_def)
  have "wf_job never_job" by code_simp
  then show "wf_world never_world"
    by (simp add: wf_world_def wf_tables_def never_world_def demo_tables_def wf_row_def never_job_def demo_job_def)
  have load: "work_load (arg_job (r_args (demo_row 1))) never_world = (Inr never_job, never_world)"
    by (simp add: calm_work_load never_world_def find_job_def never_job_def demo_job_def)
  have "fst (work_deliver demo_config (demo_consumer 200) (r_id (demo_row 1)) (arg_plan (r_args (demo_row 1))) never_job never_world) = Inr ''ok''"
    by code_simp
  then obtain sent w2 where run: "work_deliver demo_config (demo_consumer 200) (r_id (demo_row 1))
      (arg_plan (r_args (demo_row 1))) never_job never_world = (Inr ''ok'', sent, w2)"
    by (metis prod.collapse)
  have w2: "fate (snd (time_Now w2)) = []"
    using calm_work_deliver(1) [OF run] by (simp add: never_world_def time_Now_def)
  obtain sch where q: "Parse ''0 0 0 30 2 *'' = Inr (SpecSchedule sch)"
    and never: "\<And>z t. spec_next (zone z) sch t = Some zero_time" using february_30_next by blast
  have p: "Parse (interval_pattern never_job) = Inr (SpecSchedule sch)" by (simp add: never_job_def q)
  have "\<not> IsOnce (interval_pattern never_job)" by (simp add: IsOnce_def never_job_def)
  from settle_next [OF this p, of "zone 0" w2 zero_time demo_config] never [of 0] w2
  have "fst (work_settle demo_config (zone 0) (demo_row 1) never_job (Inr ''ok'') w2) = Done"
    by (simp add: work_settle_def sched_next_def calm_scheduleNext)
  then show "fst (Work demo_config (zone 0) (demo_consumer 200) (demo_row 1) never_world) = Done"
    using Work_runs [OF load run surjective_pairing, of "zone 0"] by simp
qed


text \<open>
  The end of a fire-once run deletes by id alone: a definition that was pushed under the same id
  while the old one was being delivered goes with it.
\<close>

lemma stale_run_drops_definition:
  assumes "IsOnce (interval_pattern df)" and "fate w = []"
  shows "find_job (job_id df) (gua_jobs (db (snd (work_settle cfg loc row df (Inr m) w)))) = None"
  using assms by (auto simp: work_settle_def settle_once calm_drop_job find_job_None)

text \<open>A status below 400 is a success, a redirect or an informational one as well.\<close>

lemma status_below_400_succeeds:
  "send_http c \<lparr>hr_method = ''POST'', hr_url = target, hr_content_type = ''application/json'', hr_body = env, hr_deadline = dl\<rparr> =
     Inr (body, 304) \<Longrightarrow> deliver_http c dl target env = Inr body"
  by (simp add: deliver_http_def PostRaw_def)

end
