(* ===== verification/Quene_Interface.thy ===== *)
theory Quene_Interface
  imports Queue_Theorems
begin

text \<open>
  The interface \<open>Quene\<close> of \<open>delayquene/types.go\<close>, through which the HTTP and gRPC layers reach
  the scheduler: a record of its methods over an abstract state, the contract its clients rely
  on as a locale, and the Postgres queue as an instance of it. \<open>Close\<close> is left to the shutdown
  sequence.
\<close>

section \<open>The interface\<close>

type_synonym ('w, 'a) call = "'w \<Rightarrow> (gua_error + 'a) \<times> 'w"

record 'w quene =
  q_GenerateUID :: "'w \<Rightarrow> string \<times> 'w"
  q_Push :: "job \<Rightarrow> ('w, unit) call"
  q_Edit :: "string \<Rightarrow> string \<Rightarrow> string \<Rightarrow> string \<Rightarrow> ('w, unit) call"
  q_Active :: "string \<Rightarrow> string \<Rightarrow> int \<Rightarrow> ('w, unit) call"
  q_Pause :: "string \<Rightarrow> string \<Rightarrow> ('w, unit) call"
  q_Delete :: "string \<Rightarrow> string \<Rightarrow> ('w, unit) call"
  q_DeleteJobs :: "string \<Rightarrow> string \<Rightarrow> ('w, nat) call"
  q_List :: "string \<Rightarrow> ('w, job list) call"
  q_RegisterGroup :: "string \<Rightarrow> ('w, unit) call"
  q_RemoveGroup :: "string \<Rightarrow> ('w, unit) call"
  q_ExistsGroup :: "string \<Rightarrow> ('w, bool) call"
  q_QueryGroups :: "('w, string list) call"
  q_GroupInfo :: "string \<Rightarrow> ('w, string) call"
  q_Stats :: "('w, stats) call"
  q_History :: "string \<Rightarrow> int \<Rightarrow> ('w, history_entry list) call"
  q_Ping :: "('w, unit) call"

section \<open>The contract\<close>

text \<open>
  What the API layers rely on: an error that wraps a sentinel is a caller mistake and has
  changed nothing, the methods that read change nothing, and a generated id is a valid name.
\<close>

definition harmless :: "('w \<Rightarrow> 'v) \<Rightarrow> ('w, 'a) call \<Rightarrow> bool" where
  "harmless view m \<longleftrightarrow> (\<forall>w e w'. m w = (Inl e, w') \<longrightarrow> sentinel_of e \<noteq> None \<longrightarrow> view w' = view w)"

definition reads_only :: "('w \<Rightarrow> 'v) \<Rightarrow> ('w, 'a) call \<Rightarrow> bool" where
  "reads_only view m \<longleftrightarrow> (\<forall>w. view (snd (m w)) = view w)"

locale quene_contract =
  fixes q :: "'w quene" and view :: "'w \<Rightarrow> 'v"
  assumes uid_reads: "view (snd (q_GenerateUID q w)) = view w"
    and uid_valid: "ValidateName field (fst (q_GenerateUID q w)) = Inr ()"
    and push_refused: "harmless view (q_Push q j)"
    and edit_refused: "harmless view (q_Edit q g i u pl)"
    and active_refused: "harmless view (q_Active q g i t)"
    and pause_refused: "harmless view (q_Pause q g i)"
    and delete_refused: "harmless view (q_Delete q g i)"
    and delete_jobs_refused: "harmless view (q_DeleteJobs q g n)"
    and register_refused: "harmless view (q_RegisterGroup q g)"
    and remove_refused: "harmless view (q_RemoveGroup q g)"
    and list_reads: "reads_only view (q_List q g)"
    and exists_reads: "reads_only view (q_ExistsGroup q g)"
    and groups_reads: "reads_only view (q_QueryGroups q)"
    and info_reads: "reads_only view (q_GroupInfo q g)"
    and stats_reads: "reads_only view (q_Stats q)"
    and history_reads: "reads_only view (q_History q g lim)"
    and ping_reads: "reads_only view (q_Ping q)"
begin

lemmas refusals = push_refused edit_refused active_refused pause_refused delete_refused
  delete_jobs_refused register_refused remove_refused

lemmas readings = list_reads exists_reads groups_reads info_reads stats_reads history_reads ping_reads

end

lemma harmlessD: "harmless view m \<Longrightarrow> m w = (Inl e, w') \<Longrightarrow> sentinel_of e \<noteq> None \<Longrightarrow> view w' = view w"
  by (auto simp: harmless_def)

lemma reads_onlyD: "reads_only view m \<Longrightarrow> m w = (r, w') \<Longrightarrow> view w' = view w"
  unfolding reads_only_def by (metis snd_conv)

section \<open>A node\<close>

text \<open>The store of a node with its random source, \<open>crypto/rand\<close>: the bytes and how many were drawn.\<close>

record node =
  store :: world
  random :: "nat \<Rightarrow> 8 word"
  drawn :: nat

definition on_store :: "'a op \<Rightarrow> (node, 'a) call" where
  "on_store m n = (case m (store n) of (r, w) \<Rightarrow> (r, n\<lparr>store := w\<rparr>))"

definition draw_uid :: "node \<Rightarrow> string \<times> node" where
  "draw_uid n = (genID (\<lambda>k. random n (drawn n + k)), n\<lparr>drawn := drawn n + 8\<rparr>)"

definition river_quene :: "config \<Rightarrow> (string \<Rightarrow> 'k::linorder) \<Rightarrow> node quene" where
  "river_quene cfg collate =
     \<lparr>q_GenerateUID = draw_uid,
      q_Push = (\<lambda>j. on_store (Push cfg j)),
      q_Edit = (\<lambda>g i u pl. on_store (Edit g i u pl)),
      q_Active = (\<lambda>g i t. on_store (Active cfg g i t)),
      q_Pause = (\<lambda>g i. on_store (Pause g i)),
      q_Delete = (\<lambda>g i. on_store (Delete g i)),
      q_DeleteJobs = (\<lambda>g n. on_store (DeleteJobs g n)),
      q_List = (\<lambda>g. on_store (List_jobs g)),
      q_RegisterGroup = (\<lambda>g. on_store (RegisterGroup g)),
      q_RemoveGroup = (\<lambda>g. on_store (RemoveGroup g)),
      q_ExistsGroup = (\<lambda>g. on_store (ExistsGroup g)),
      q_QueryGroups = on_store (QueryGroups collate),
      q_GroupInfo = (\<lambda>g. on_store (GroupInfo g)),
      q_Stats = on_store Stats,
      q_History = (\<lambda>g lim. on_store (History g lim)),
      q_Ping = on_store Ping\<rparr>"

definition tables_of :: "node \<Rightarrow> tables" where
  "tables_of n = db (store n)"

section \<open>Generated ids\<close>

lemma hex_digit_name: "n < 16 \<Longrightarrow> name_char (hex_digit n)"
  by (simp add: hex_digit_def name_char_def Let_def of_char_of)

lemma hex_encode_name:
  "list_all name_char (hex_encode bs) \<and> length (hex_encode bs) = 2 * length bs"
proof (induction bs)
  case (Cons b bs)
  have "unat b < 2 ^ LENGTH(8)" by (rule unsigned_less)
  then have "unat b div 16 < 16" by (simp add: less_mult_imp_div_less)
  with Cons show ?case by (simp add: hex_digit_name)
qed simp

lemma genID_valid: "ValidateName field (genID rand) = Inr ()"
  using hex_encode_name [of "map rand [0..<8]"] unfolding valid_name_iff genID_def by auto

section \<open>The Postgres queue keeps the contract\<close>

lemma harmless_store:
  assumes "\<And>w e w'. m w = (Inl e, w') \<Longrightarrow> e \<noteq> StorageError \<Longrightarrow> db w' = db w"
  shows "harmless tables_of (on_store m)"
  using assms by (fastforce simp: harmless_def on_store_def tables_of_def split: prod.splits)

lemma harmless_request:
  assumes "perform cfg r = one m"
  shows "harmless tables_of (on_store m)"
proof (rule harmless_store)
  fix w e w' assume "m w = (Inl e, w')" "e \<noteq> StorageError"
  then have "perform cfg r w = (Inl e, w')" by (simp add: assms)
  then show "db w' = db w" using \<open>e \<noteq> StorageError\<close> by (rule refused_same)
qed

lemma reads_store:
  assumes "reading m"
  shows "reads_only tables_of (on_store m)"
  using reading.same_db [OF assms]
  by (simp add: reads_only_def on_store_def tables_of_def split: prod.split) (metis snd_conv)

interpretation river: quene_contract "river_quene cfg collate" tables_of for cfg collate
proof
  show "tables_of (snd (q_GenerateUID (river_quene cfg collate) w)) = tables_of w" for w
    by (simp add: river_quene_def draw_uid_def tables_of_def)
  show "ValidateName field (fst (q_GenerateUID (river_quene cfg collate) w)) = Inr ()" for field w
    by (simp add: river_quene_def draw_uid_def genID_valid)
  show "harmless tables_of (q_Push (river_quene cfg collate) j)" for j
    using harmless_request [of cfg "RPush j"] by (simp add: river_quene_def fun_eq_iff)
  show "harmless tables_of (q_Edit (river_quene cfg collate) g i u pl)" for g i u pl
    using harmless_request [of cfg "REdit g i u pl"] by (simp add: river_quene_def fun_eq_iff)
  show "harmless tables_of (q_Active (river_quene cfg collate) g i t)" for g i t
    using harmless_request [of cfg "RActive g i t"] by (simp add: river_quene_def fun_eq_iff)
  show "harmless tables_of (q_Pause (river_quene cfg collate) g i)" for g i
    using harmless_request [of cfg "RPause g i"] by (simp add: river_quene_def fun_eq_iff)
  show "harmless tables_of (q_Delete (river_quene cfg collate) g i)" for g i
    using harmless_request [of cfg "RDelete g i"] by (simp add: river_quene_def fun_eq_iff)
  show "harmless tables_of (q_DeleteJobs (river_quene cfg collate) g n)" for g n
    using refused_same [of cfg "RDeleteJobs g n"] by (simp add: river_quene_def harmless_store)
  show "harmless tables_of (q_RegisterGroup (river_quene cfg collate) g)" for g
    using harmless_request [of cfg "RRegister g"] by (simp add: river_quene_def fun_eq_iff)
  show "harmless tables_of (q_RemoveGroup (river_quene cfg collate) g)" for g
    using harmless_request [of cfg "RRemove g"] by (simp add: river_quene_def fun_eq_iff)
qed (simp_all add: river_quene_def reads_store list_of.reading_axioms group_exists.reading_axioms
    query_groups.reading_axioms group_info.reading_axioms stats.reading_axioms history.reading_axioms
    ping.reading_axioms)

end
