(* ===== verification/Go_Json.thy ===== *)
theory Go_Json
  imports Go_Strings
begin

text \<open>
  What the API layer uses of \<open>encoding/json\<close>: values, and decoding an object into a struct by its
  field tags. Keys match a tag exactly or under the case folding of \<open>foldName\<close>, unknown keys are
  skipped, \<open>null\<close> leaves a field as it is, a later key overwrites an earlier one, and a value of
  another type is an error. Numbers keep their text.
\<close>

datatype json =
    JNull
  | JBool bool
  | JNumber string
  | JString string
  | JArray "json list"
  | JObject "(string \<times> json) list"

section \<open>Decoding into a struct\<close>

text \<open>
  \<open>foldName\<close>: every letter stands for its fold class. Beside the ASCII letters only the Kelvin sign
  and the long s fold to one.
\<close>

definition upper :: "char \<Rightarrow> char" where
  "upper c = (let n = of_char c :: nat in if 97 \<le> n \<and> n \<le> 122 then char_of (n - 32) else c)"

fun fold_key :: "string \<Rightarrow> string" where
  "fold_key [] = []"
| "fold_key (c # cs) =
     (if take 3 (c # cs) = [CHR 0xE2, CHR 0x84, CHR 0xAA] then CHR ''K'' # fold_key (drop 2 cs)
      else if take 2 (c # cs) = [CHR 0xC5, CHR 0xBF] then CHR ''S'' # fold_key (drop 1 cs)
      else upper c # fold_key cs)"

text \<open>A field: its tag, and how a value is stored into it.\<close>

type_synonym 'p field = "string \<times> (json \<Rightarrow> 'p \<Rightarrow> 'p option)"

definition string_field :: "string \<Rightarrow> (string \<Rightarrow> 'p \<Rightarrow> 'p) \<Rightarrow> 'p field" where
  "string_field tag set_it = (tag, \<lambda>v p.
     (case v of JString s \<Rightarrow> Some (set_it s p) | JNull \<Rightarrow> Some p | _ \<Rightarrow> None))"

definition int64_field :: "string \<Rightarrow> (int \<Rightarrow> 'p \<Rightarrow> 'p) \<Rightarrow> 'p field" where
  "int64_field tag set_it = (tag, \<lambda>v p.
     (case v of JNumber lit \<Rightarrow> map_option (\<lambda>n. set_it n p) (atoi lit) | JNull \<Rightarrow> Some p | _ \<Rightarrow> None))"

fun decode_fields :: "'p field list \<Rightarrow> (string \<times> json) list \<Rightarrow> 'p \<Rightarrow> 'p option" where
  "decode_fields fs [] p = Some p"
| "decode_fields fs ((k, v) # kvs) p =
     (case find (\<lambda>f. fold_key (fst f) = fold_key k) fs of
        None \<Rightarrow> decode_fields fs kvs p
      | Some f \<Rightarrow> (case snd f v p of None \<Rightarrow> None | Some p' \<Rightarrow> decode_fields fs kvs p'))"

definition decode_struct :: "'p field list \<Rightarrow> 'p \<Rightarrow> json \<Rightarrow> 'p option" where
  "decode_struct fs p v =
     (case v of JObject kvs \<Rightarrow> decode_fields fs kvs p | JNull \<Rightarrow> Some p | _ \<Rightarrow> None)"

section \<open>Encoding\<close>

definition json_int :: "int \<Rightarrow> json" where
  "json_int n = JNumber (show_int n)"

lemma decode_fields_append:
  "decode_fields fs (kvs @ kvs') p = Option.bind (decode_fields fs kvs p) (decode_fields fs kvs')"
  by (induction kvs arbitrary: p) (auto split: option.split)

text \<open>Keys that match no tag do not matter.\<close>

lemma decode_fields_unknown:
  assumes "\<forall>kv \<in> set extra. find (\<lambda>f. fold_key (fst f) = fold_key (fst kv)) fs = None"
  shows "decode_fields fs extra p = Some p"
  using assms by (induction extra) auto

end
