(* ===== verification/Http_Api.thy ===== *)
theory Http_Api
  imports Quene_Interface Go_Json
begin

text \<open>
  The admin REST API: the handlers of \<open>httpv1/http.go\<close> with the payloads of \<open>httpv1/spec.go\<close>, and
  the routes and probes of \<open>cmd.go\<close>, over any implementation of the interface \<open>quene\<close>. A handler
  takes the state of the queue and gives a reply and the state after it. Log output is left out.
\<close>

section \<open>Requests and replies\<close>

text \<open>What reading the body and checking its syntax gives.\<close>

datatype body_read =
    Unreadable string
  | BodyBytes nat "string + json"

record api_request =
  rq_method :: string
  rq_path :: "string list"
  rq_query :: "(string \<times> string) list"
  rq_body :: body_read

text \<open>
  The data of a reply: a JSON value, the text of a queue error, a fixed text, or the text of a
  decoding error. \<open>Reply\<close> is the JSON envelope, \<open>success\<close> or \<open>error\<close>; \<open>Plain\<close> is a bare text.
\<close>

datatype reply_data = Value json | ErrorText gua_error | DecodeErrorText

datatype reply_body = SuccessBody reply_data | ErrorBody reply_data | PlainText string | NoBody | UiPage

record reply =
  rp_status :: nat
  rp_body :: reply_body

definition WriteJSON :: "reply_data \<Rightarrow> nat \<Rightarrow> reply" where
  "WriteJSON d status =
     \<lparr>rp_status = status, rp_body = (if status = 200 then SuccessBody d else ErrorBody d)\<rparr>"

definition text_value :: "string \<Rightarrow> reply_data" where
  "text_value s = Value (JString s)"

definition writeErr :: "gua_error \<Rightarrow> reply" where
  "writeErr err =
     (if errors_Is err ErrInvalid then WriteJSON (ErrorText err) 400
      else if errors_Is err ErrNotFound then WriteJSON (ErrorText err) 404
      else if errors_Is err ErrDuplicate then WriteJSON (ErrorText err) 409
      else WriteJSON (text_value ''internal error'') 500)"

definition maxBodyBytes :: nat where
  "maxBodyBytes = push_bit 20 1"

text \<open>The error response, or the decoded payload.\<close>

definition readJSON :: "body_read \<Rightarrow> 'p field list \<Rightarrow> 'p \<Rightarrow> reply + 'p" where
  "readJSON b fs dst =
     (case b of
        Unreadable e \<Rightarrow> Inl (WriteJSON (text_value (''read body: '' @ e)) 400)
      | BodyBytes n doc \<Rightarrow>
          if n > maxBodyBytes then Inl (WriteJSON (text_value ''body too large'') 413)
          else if n = 0 then Inr dst
          else (case doc of
              Inl e \<Rightarrow> Inl (WriteJSON DecodeErrorText 400)
            | Inr v \<Rightarrow> (case decode_struct fs dst v of
                None \<Rightarrow> Inl (WriteJSON DecodeErrorText 400)
              | Some p \<Rightarrow> Inr p)))"

section \<open>Payloads\<close>

record EditJobPayload =
  ep_RequestUrl :: string
  ep_Payload :: string

record AddJobPayload =
  ap_JobId :: string
  ap_Name :: string
  ap_Exectime :: int
  ap_RequestUrl :: string
  ap_IntervalPattern :: string
  ap_Payload :: string
  ap_Timeout :: int
  ap_Memo :: string

record RegisterGroupPayload =
  gp_GroupName :: string

record ActiveJobPayload =
  cp_Exectime :: int

definition edit_fields :: "EditJobPayload field list" where
  "edit_fields = [string_field ''request_url'' (\<lambda>s p. p\<lparr>ep_RequestUrl := s\<rparr>),
     string_field ''payload'' (\<lambda>s p. p\<lparr>ep_Payload := s\<rparr>)]"

definition add_fields :: "AddJobPayload field list" where
  "add_fields = [string_field ''job_id'' (\<lambda>s p. p\<lparr>ap_JobId := s\<rparr>),
     string_field ''name'' (\<lambda>s p. p\<lparr>ap_Name := s\<rparr>),
     int64_field ''exec_time'' (\<lambda>n p. p\<lparr>ap_Exectime := n\<rparr>),
     string_field ''request_url'' (\<lambda>s p. p\<lparr>ap_RequestUrl := s\<rparr>),
     string_field ''interval_pattern'' (\<lambda>s p. p\<lparr>ap_IntervalPattern := s\<rparr>),
     string_field ''payload'' (\<lambda>s p. p\<lparr>ap_Payload := s\<rparr>),
     int64_field ''timeout'' (\<lambda>n p. p\<lparr>ap_Timeout := n\<rparr>),
     string_field ''memo'' (\<lambda>s p. p\<lparr>ap_Memo := s\<rparr>)]"

definition register_fields :: "RegisterGroupPayload field list" where
  "register_fields = [string_field ''group_name'' (\<lambda>s p. p\<lparr>gp_GroupName := s\<rparr>)]"

definition active_fields :: "ActiveJobPayload field list" where
  "active_fields = [int64_field ''exec_time'' (\<lambda>n p. p\<lparr>cp_Exectime := n\<rparr>)]"

definition no_edit :: EditJobPayload where
  "no_edit = \<lparr>ep_RequestUrl = [], ep_Payload = []\<rparr>"

definition no_job :: AddJobPayload where
  "no_job = \<lparr>ap_JobId = [], ap_Name = [], ap_Exectime = 0, ap_RequestUrl = [],
     ap_IntervalPattern = [], ap_Payload = [], ap_Timeout = 0, ap_Memo = []\<rparr>"

text \<open>\<open>ResponseJobList\<close>, \<open>Stats\<close> and \<open>HistoryEntry\<close> as JSON; empty texts tagged \<open>omitempty\<close> are left out.\<close>

definition ResponseJobList :: "job \<Rightarrow> json" where
  "ResponseJobList v = JObject
     [(''name'', JString (job_name v)), (''id'', JString (job_id v)), (''exec_time'', json_int (exectime v)),
      (''interval_pattern'', JString (interval_pattern v)), (''request_url'', JString (request_url v)),
      (''payload'', JString (payload v)), (''timeout'', json_int (timeout v)),
      (''group_name'', JString (group_name v)), (''active'', JBool (active v)), (''memo'', JString (memo v))]"

definition stats_json :: "stats \<Rightarrow> json" where
  "stats_json s = JObject
     [(''now'', json_int (st_now s)), (''ready_queue_depth'', json_int (int (st_ready s))),
      (''running'', json_int (int (st_running s))), (''retryable'', json_int (int (st_retryable s))),
      (''jobs_active'', json_int (int (st_active s))), (''jobs_paused'', json_int (int (st_paused s)))]"

definition omit_empty :: "string \<Rightarrow> string \<Rightarrow> (string \<times> json) list" where
  "omit_empty tag s = (if s = [] then [] else [(tag, JString s)])"

definition history_json :: "history_entry \<Rightarrow> json" where
  "history_json e = JObject
     ([(''seq'', json_int (int (h_seq e))), (''job_id'', JString (h_job_id e)), (''group_name'', JString (h_group e)),
       (''type'', JString (h_type e)), (''plan_time'', json_int (h_plan e)), (''exec_time'', json_int (h_exec e)),
       (''finish_time'', json_int (h_finish e)), (''success'', JBool (h_success e))] @
      omit_empty ''message'' (h_message e) @ omit_empty ''error'' (h_error e) @
      [(''exec_machine_host'', JString (h_host e))])"

section \<open>Handlers\<close>

text \<open>\<open>if err != nil { writeErr(w, op, err); return }\<close>, and the reply otherwise.\<close>

definition answer :: "('w, 'a) call \<Rightarrow> ('a \<Rightarrow> reply_data) \<Rightarrow> 'w \<Rightarrow> reply \<times> 'w" where
  "answer m ok w = (case m w of
     (Inl err, w') \<Rightarrow> (writeErr err, w') | (Inr x, w') \<Rightarrow> (WriteJSON (ok x) 200, w'))"

definition Version :: "string \<Rightarrow> 'w \<Rightarrow> reply \<times> 'w" where
  "Version serverVersion w = (WriteJSON (text_value serverVersion) 200, w)"

definition Status :: "'w quene \<Rightarrow> 'w \<Rightarrow> reply \<times> 'w" where
  "Status q = answer (q_Stats q) (\<lambda>s. Value (stats_json s))"

definition query_get :: "api_request \<Rightarrow> string \<Rightarrow> string" where
  "query_get r key = (case map_of (rq_query r) key of None \<Rightarrow> [] | Some v \<Rightarrow> v)"

definition History_h :: "'w quene \<Rightarrow> string \<Rightarrow> api_request \<Rightarrow> 'w \<Rightarrow> reply \<times> 'w" where
  "History_h q grp r w =
     (let v = query_get r ''limit'' in
      case (if v \<noteq> [] then atoi v else Some 100) of
        None \<Rightarrow> (WriteJSON (text_value ''limit must be an integer'') 400, w)
      | Some lim \<Rightarrow> answer (q_History q grp lim) (\<lambda>es. Value (JArray (map history_json es))) w)"

definition GroupInfo_h :: "'w quene \<Rightarrow> string \<Rightarrow> 'w \<Rightarrow> reply \<times> 'w" where
  "GroupInfo_h q grp = answer (q_GroupInfo q grp) text_value"

definition GetGroupList :: "'w quene \<Rightarrow> 'w \<Rightarrow> reply \<times> 'w" where
  "GetGroupList q = answer (q_QueryGroups q) (\<lambda>gs. Value (JArray (map JString gs)))"

definition GetJobList :: "'w quene \<Rightarrow> string \<Rightarrow> 'w \<Rightarrow> reply \<times> 'w" where
  "GetJobList q grp = answer (q_List q grp) (\<lambda>js. Value (JArray (map ResponseJobList js)))"

definition RegisterGroup_h :: "'w quene \<Rightarrow> api_request \<Rightarrow> 'w \<Rightarrow> reply \<times> 'w" where
  "RegisterGroup_h q r w =
     (case readJSON (rq_body r) register_fields \<lparr>gp_GroupName = []\<rparr> of
        Inl rp \<Rightarrow> (rp, w)
      | Inr p \<Rightarrow> answer (q_RegisterGroup q (gp_GroupName p)) (\<lambda>_. text_value (gp_GroupName p)) w)"

definition RemoveGroup_h :: "'w quene \<Rightarrow> string \<Rightarrow> 'w \<Rightarrow> reply \<times> 'w" where
  "RemoveGroup_h q grp = answer (q_RemoveGroup q grp) (\<lambda>_. text_value ''ok'')"

definition job_of_payload :: "string \<Rightarrow> string \<Rightarrow> AddJobPayload \<Rightarrow> job" where
  "job_of_payload grp jobID p =
     \<lparr>job_id = jobID, group_name = grp, job_name = ap_Name p, request_url = ap_RequestUrl p,
      payload = ap_Payload p, interval_pattern = ap_IntervalPattern p, timeout = ap_Timeout p,
      exectime = ap_Exectime p, active = True, memo = ap_Memo p\<rparr>"

definition AddJob_h :: "'w quene \<Rightarrow> string \<Rightarrow> api_request \<Rightarrow> 'w \<Rightarrow> reply \<times> 'w" where
  "AddJob_h q grp r w =
     (case readJSON (rq_body r) add_fields no_job of
        Inl rp \<Rightarrow> (rp, w)
      | Inr p \<Rightarrow>
          (let (jobID, w1) = (if ap_JobId p = [] then q_GenerateUID q w else (ap_JobId p, w))
           in answer (q_Push q (job_of_payload grp jobID p)) (\<lambda>_. text_value jobID) w1))"

definition EditJob_h :: "'w quene \<Rightarrow> string \<Rightarrow> string \<Rightarrow> api_request \<Rightarrow> 'w \<Rightarrow> reply \<times> 'w" where
  "EditJob_h q grp jobID r w =
     (case readJSON (rq_body r) edit_fields no_edit of
        Inl rp \<Rightarrow> (rp, w)
      | Inr p \<Rightarrow>
          if ep_RequestUrl p = [] then (WriteJSON (text_value ''request_url is required'') 400, w)
          else answer (q_Edit q grp jobID (ep_RequestUrl p) (ep_Payload p)) (\<lambda>_. text_value jobID) w)"

definition DeleteJob_h :: "'w quene \<Rightarrow> string \<Rightarrow> string \<Rightarrow> 'w \<Rightarrow> reply \<times> 'w" where
  "DeleteJob_h q grp jobID = answer (q_Delete q grp jobID) (\<lambda>_. text_value ''ok'')"

definition DeleteJobs_h :: "'w quene \<Rightarrow> string \<Rightarrow> api_request \<Rightarrow> 'w \<Rightarrow> reply \<times> 'w" where
  "DeleteJobs_h q grp r =
     answer (q_DeleteJobs q grp (query_get r ''name'')) (\<lambda>n. Value (json_int (int n)))"

definition PauseJob_h :: "'w quene \<Rightarrow> string \<Rightarrow> string \<Rightarrow> 'w \<Rightarrow> reply \<times> 'w" where
  "PauseJob_h q grp jobID = answer (q_Pause q grp jobID) (\<lambda>_. text_value ''ok'')"

definition ActiveJob_h :: "'w quene \<Rightarrow> string \<Rightarrow> string \<Rightarrow> api_request \<Rightarrow> 'w \<Rightarrow> reply \<times> 'w" where
  "ActiveJob_h q grp jobID r w =
     (case readJSON (rq_body r) active_fields \<lparr>cp_Exectime = 0\<rparr> of
        Inl rp \<Rightarrow> (rp, w)
      | Inr p \<Rightarrow> answer (q_Active q grp jobID (cp_Exectime p)) (\<lambda>_. text_value ''ok'') w)"

section \<open>Probes and routes\<close>

definition Healthz :: "'w \<Rightarrow> reply \<times> 'w" where
  "Healthz w = (\<lparr>rp_status = 200, rp_body = PlainText ''ok''\<rparr>, w)"

text \<open>The text of the storage error after \<open>not ready: \<close> is the driver's and is left out.\<close>

definition Readyz :: "'w quene \<Rightarrow> 'w \<Rightarrow> reply \<times> 'w" where
  "Readyz q w = (case q_Ping q w of
     (Inl err, w') \<Rightarrow> (\<lparr>rp_status = 503, rp_body = PlainText ''not ready: ''\<rparr>, w')
   | (Inr _, w') \<Rightarrow> (\<lparr>rp_status = 200, rp_body = PlainText ''ready''\<rparr>, w'))"

text \<open>The console page, a constant text.\<close>

definition UI :: "'w \<Rightarrow> reply \<times> 'w" where
  "UI w = (\<lparr>rp_status = 200, rp_body = UiPage\<rparr>, w)"

declare UI_def [simp]

datatype route =
    OpVersion | OpUi | OpHealthz | OpReadyz | OpStatus | OpRegister | OpGroups | OpGroup string
  | OpRemove string | OpAddJob string | OpJobs string | OpDeleteJobs string | OpEdit string string
  | OpDelete string string | OpPause string string | OpActivate string string | OpHistory string

text \<open>
  The patterns of \<open>buildRouter\<close>, by the decoded segments of a clean path. \<open>ServeMux\<close> prefers the
  more specific pattern, a wildcard stands for one segment that is not empty, and no two of these
  patterns match the same path with the same method.
\<close>

fun route_at :: "string \<Rightarrow> string list \<Rightarrow> route option" where
  "route_at m [a] =
     (if m = ''GET'' \<and> a = ''version'' then Some OpVersion
      else if m = ''GET'' \<and> a = ''ui'' then Some OpUi
      else if m = ''GET'' \<and> a = ''healthz'' then Some OpHealthz
      else if m = ''GET'' \<and> a = ''readyz'' then Some OpReadyz else None)"
| "route_at m [a, b] =
     (if a \<noteq> ''v1'' then None
      else if m = ''GET'' \<and> b = ''status'' then Some OpStatus
      else if m = ''POST'' \<and> b = ''groups'' then Some OpRegister
      else if m = ''GET'' \<and> b = ''groups'' then Some OpGroups else None)"
| "route_at m [a, b, g] =
     (if a \<noteq> ''v1'' \<or> b \<noteq> ''groups'' \<or> g = [] then None
      else if m = ''GET'' then Some (OpGroup g)
      else if m = ''DELETE'' then Some (OpRemove g) else None)"
| "route_at m [a, b, g, c] =
     (if a \<noteq> ''v1'' \<or> b \<noteq> ''groups'' \<or> g = [] then None
      else if m = ''POST'' \<and> c = ''jobs'' then Some (OpAddJob g)
      else if m = ''GET'' \<and> c = ''jobs'' then Some (OpJobs g)
      else if m = ''DELETE'' \<and> c = ''jobs'' then Some (OpDeleteJobs g)
      else if m = ''GET'' \<and> c = ''history'' then Some (OpHistory g) else None)"
| "route_at m [a, b, g, c, j] =
     (if a \<noteq> ''v1'' \<or> b \<noteq> ''groups'' \<or> g = [] \<or> c \<noteq> ''jobs'' \<or> j = [] then None
      else if m = ''PATCH'' then Some (OpEdit g j)
      else if m = ''DELETE'' then Some (OpDelete g j) else None)"
| "route_at m [a, b, g, c, j, d] =
     (if a \<noteq> ''v1'' \<or> b \<noteq> ''groups'' \<or> g = [] \<or> c \<noteq> ''jobs'' \<or> j = [] then None
      else if m = ''POST'' \<and> d = ''pause'' then Some (OpPause g j)
      else if m = ''POST'' \<and> d = ''activate'' then Some (OpActivate g j) else None)"
| "route_at m _ = None"

definition http_methods :: "string list" where
  "http_methods = [''GET'', ''POST'', ''DELETE'', ''PATCH'']"

text \<open>A pattern for \<open>GET\<close> also matches \<open>HEAD\<close>; a path known under another method is a 405.\<close>

definition find_route :: "api_request \<Rightarrow> nat + route" where
  "find_route r =
     (case route_at (if rq_method r = ''HEAD'' then ''GET'' else rq_method r) (rq_path r) of
        Some op \<Rightarrow> Inr op
      | None \<Rightarrow> if list_ex (\<lambda>m. route_at m (rq_path r) \<noteq> None) http_methods then Inl 405 else Inl 404)"

fun handle :: "'w quene \<Rightarrow> string \<Rightarrow> route \<Rightarrow> api_request \<Rightarrow> 'w \<Rightarrow> reply \<times> 'w" where
  "handle q v OpVersion r w = Version v w"
| "handle q v OpUi r w = UI w"
| "handle q v OpHealthz r w = Healthz w"
| "handle q v OpReadyz r w = Readyz q w"
| "handle q v OpStatus r w = Status q w"
| "handle q v OpRegister r w = RegisterGroup_h q r w"
| "handle q v OpGroups r w = GetGroupList q w"
| "handle q v (OpGroup g) r w = GroupInfo_h q g w"
| "handle q v (OpRemove g) r w = RemoveGroup_h q g w"
| "handle q v (OpAddJob g) r w = AddJob_h q g r w"
| "handle q v (OpJobs g) r w = GetJobList q g w"
| "handle q v (OpDeleteJobs g) r w = DeleteJobs_h q g r w"
| "handle q v (OpEdit g j) r w = EditJob_h q g j r w"
| "handle q v (OpDelete g j) r w = DeleteJob_h q g j w"
| "handle q v (OpPause g j) r w = PauseJob_h q g j w"
| "handle q v (OpActivate g j) r w = ActiveJob_h q g j r w"
| "handle q v (OpHistory g) r w = History_h q g r w"

definition serve :: "'w quene \<Rightarrow> string \<Rightarrow> api_request \<Rightarrow> 'w \<Rightarrow> reply \<times> 'w" where
  "serve q v r w = (case find_route r of
     Inl status \<Rightarrow> (\<lparr>rp_status = status, rp_body = NoBody\<rparr>, w)
   | Inr op \<Rightarrow> handle q v op r w)"

end
