(* ===== verification/Grpc_Api.thy ===== *)
theory Grpc_Api
  imports Quene_Interface
begin

text \<open>
  The gRPC admin API, \<open>grpc.go\<close>, over any implementation of the interface \<open>quene\<close>. The messages
  are the fields of \<open>proto/gua.proto\<close> that the code reads and writes.
\<close>

section \<open>Statuses\<close>

datatype grpc_code = InvalidArgument | NotFound | AlreadyExists | InternalCode

text \<open>The code with its message: the text of the error, or the fixed \<open>internal error\<close>.\<close>

record grpc_status =
  gs_code :: grpc_code
  gs_cause :: "gua_error option"

definition grpcErr :: "gua_error \<Rightarrow> grpc_status" where
  "grpcErr err =
     (if errors_Is err ErrInvalid then \<lparr>gs_code = InvalidArgument, gs_cause = Some err\<rparr>
      else if errors_Is err ErrNotFound then \<lparr>gs_code = NotFound, gs_cause = Some err\<rparr>
      else if errors_Is err ErrDuplicate then \<lparr>gs_code = AlreadyExists, gs_cause = Some err\<rparr>
      else \<lparr>gs_code = InternalCode, gs_cause = None\<rparr>)"

section \<open>Delivery targets\<close>

text \<open>The enum of proto3 is open: 0 is HTTP, 1 is GRPC, any other number is unknown.\<close>

definition buildRequestURL :: "int \<Rightarrow> string \<Rightarrow> gua_error + string" where
  "buildRequestURL d target =
     rbind (if d = 0 then Inr ''HTTP'' else if d = 1 then Inr ''GRPC'' else Inl (UnknownDelivery d))
       (\<lambda>prefix. if target = [] then Inl TargetRequired else Inr (prefix @ ''@'' @ target))"

definition trim_prefix :: "string \<Rightarrow> string \<Rightarrow> string" where
  "trim_prefix p s = (if has_prefix p s then drop (length p) s else s)"

definition parseRequestURL :: "string \<Rightarrow> int \<times> string" where
  "parseRequestURL requestURL =
     (if has_prefix ''GRPC@'' requestURL then (1, trim_prefix ''GRPC@'' requestURL)
      else (0, trim_prefix ''HTTP@'' requestURL))"

section \<open>Messages\<close>

record AddJobRequest =
  ar_GroupName :: string
  ar_JobId :: string
  ar_Name :: string
  ar_ExecTime :: int
  ar_IntervalPattern :: string
  ar_Delivery :: int
  ar_Target :: string
  ar_Payload :: string
  ar_Timeout :: int
  ar_Memo :: string

record EditJobRequest =
  er_GroupName :: string
  er_JobId :: string
  er_Delivery :: int
  er_Target :: string
  er_Payload :: string

record JobInfo =
  ji_Name :: string
  ji_Id :: string
  ji_ExecTime :: int
  ji_IntervalPattern :: string
  ji_Delivery :: int
  ji_Target :: string
  ji_Payload :: string
  ji_GroupName :: string
  ji_Active :: bool
  ji_Memo :: string

section \<open>Handlers\<close>

definition respond :: "('w, 'a) call \<Rightarrow> ('a \<Rightarrow> 'b) \<Rightarrow> 'w \<Rightarrow> (grpc_status + 'b) \<times> 'w" where
  "respond m ok w = (case m w of (Inl err, w') \<Rightarrow> (Inl (grpcErr err), w') | (Inr x, w') \<Rightarrow> (Inr (ok x), w'))"

definition RegisterGroup_g :: "'w quene \<Rightarrow> string \<Rightarrow> 'w \<Rightarrow> (grpc_status + unit) \<times> 'w" where
  "RegisterGroup_g q grp = respond (q_RegisterGroup q grp) id"

definition RemoveGroup_g :: "'w quene \<Rightarrow> string \<Rightarrow> 'w \<Rightarrow> (grpc_status + unit) \<times> 'w" where
  "RemoveGroup_g q grp = respond (q_RemoveGroup q grp) id"

definition job_of_request :: "string \<Rightarrow> string \<Rightarrow> AddJobRequest \<Rightarrow> job" where
  "job_of_request jobID requestURL req =
     \<lparr>job_id = jobID, group_name = ar_GroupName req, job_name = ar_Name req, request_url = requestURL,
      payload = ar_Payload req, interval_pattern = ar_IntervalPattern req, timeout = ar_Timeout req,
      exectime = ar_ExecTime req, active = True, memo = ar_Memo req\<rparr>"

definition AddJob_g :: "'w quene \<Rightarrow> AddJobRequest \<Rightarrow> 'w \<Rightarrow> (grpc_status + string) \<times> 'w" where
  "AddJob_g q req w =
     (case buildRequestURL (ar_Delivery req) (ar_Target req) of
        Inl err \<Rightarrow> (Inl (grpcErr err), w)
      | Inr requestURL \<Rightarrow>
          (let (jobID, w1) = (if ar_JobId req = [] then q_GenerateUID q w else (ar_JobId req, w))
           in respond (q_Push q (job_of_request jobID requestURL req)) (\<lambda>_. jobID) w1))"

definition EditJob_g :: "'w quene \<Rightarrow> EditJobRequest \<Rightarrow> 'w \<Rightarrow> (grpc_status + unit) \<times> 'w" where
  "EditJob_g q req w =
     (case buildRequestURL (er_Delivery req) (er_Target req) of
        Inl err \<Rightarrow> (Inl (grpcErr err), w)
      | Inr requestURL \<Rightarrow>
          respond (q_Edit q (er_GroupName req) (er_JobId req) requestURL (er_Payload req)) id w)"

definition DeleteJob_g :: "'w quene \<Rightarrow> string \<Rightarrow> string \<Rightarrow> 'w \<Rightarrow> (grpc_status + unit) \<times> 'w" where
  "DeleteJob_g q grp i = respond (q_Delete q grp i) id"

definition PauseJob_g :: "'w quene \<Rightarrow> string \<Rightarrow> string \<Rightarrow> 'w \<Rightarrow> (grpc_status + unit) \<times> 'w" where
  "PauseJob_g q grp i = respond (q_Pause q grp i) id"

definition ActiveJob_g :: "'w quene \<Rightarrow> string \<Rightarrow> string \<Rightarrow> int \<Rightarrow> 'w \<Rightarrow> (grpc_status + unit) \<times> 'w" where
  "ActiveJob_g q grp i t = respond (q_Active q grp i t) id"

definition job_info :: "job \<Rightarrow> JobInfo" where
  "job_info j = (let (delivery, target) = parseRequestURL (request_url j) in
     \<lparr>ji_Name = job_name j, ji_Id = job_id j, ji_ExecTime = exectime j,
      ji_IntervalPattern = interval_pattern j, ji_Delivery = delivery, ji_Target = target,
      ji_Payload = payload j, ji_GroupName = group_name j, ji_Active = active j, ji_Memo = memo j\<rparr>)"

definition ListJobs_g :: "'w quene \<Rightarrow> string \<Rightarrow> 'w \<Rightarrow> (grpc_status + JobInfo list) \<times> 'w" where
  "ListJobs_g q grp = respond (q_List q grp) (map job_info)"

section \<open>Facts\<close>

lemma buildRequestURL_Inr_iff:
  "buildRequestURL d t = Inr u \<longleftrightarrow> t \<noteq> [] \<and> (d = 0 \<and> u = ''HTTP@'' @ t \<or> d = 1 \<and> u = ''GRPC@'' @ t)"
  by (auto simp: buildRequestURL_def)

lemma buildRequestURL_error: "buildRequestURL d t = Inl e \<Longrightarrow> errors_Is e ErrInvalid"
  by (auto simp: buildRequestURL_def errors_Is_def split: if_splits)

lemma parse_build: "buildRequestURL d t = Inr u \<Longrightarrow> parseRequestURL u = (d, t)"
  by (auto simp: buildRequestURL_Inr_iff parseRequestURL_def trim_prefix_def has_prefix_def)

lemma parse_stored:
  assumes "SplitRequestURL u = Inr (k, t)"
  shows "parseRequestURL u = (if k = ''GRPC'' then 1 else 0, t)"
    and "buildRequestURL (fst (parseRequestURL u)) (snd (parseRequestURL u)) = Inr u"
  using assms
  by (auto simp: SplitRequestURL_iff parseRequestURL_def trim_prefix_def has_prefix_def buildRequestURL_def)

end
