(* ===== verification/Api_Laws.thy ===== *)
theory Api_Laws
  imports Http_Api Grpc_Api
begin

text \<open>
  What the two API layers add to the queue. The facts that need only the contract of the interface
  are proved once inside its locale; the calls that change something are then identified with the
  requests of \<open>Queue_Spec\<close>.
\<close>

section \<open>Replies\<close>

lemma reply_simps [simp]:
  "rp_status (WriteJSON d s) = s" "rp_body (WriteJSON d 200) = SuccessBody d"
  "s \<noteq> 200 \<Longrightarrow> rp_body (WriteJSON d s) = ErrorBody d"
  by (simp_all add: WriteJSON_def)

lemma writeErr_status:
  "rp_status (writeErr e) = (case sentinel_of e of Some ErrInvalid \<Rightarrow> 400 | Some ErrNotFound \<Rightarrow> 404
     | Some ErrDuplicate \<Rightarrow> 409 | None \<Rightarrow> 500)"
  by (auto simp: writeErr_def errors_Is_def split: option.split sentinel.split)

lemma writeErr_caller: "rp_status (writeErr e) \<noteq> 500 \<Longrightarrow> sentinel_of e \<noteq> None"
  by (auto simp: writeErr_status split: option.splits)

lemma readJSON_refuses: "readJSON b fs dst = Inl rp \<Longrightarrow> rp_status rp = 400 \<or> rp_status rp = 413"
  by (auto simp: readJSON_def split: body_read.splits sum.splits option.splits if_splits)

text \<open>The calls of the gRPC service.\<close>

datatype grpc_call =
    GRegister string | GRemove string | GAdd AddJobRequest | GEdit EditJobRequest
  | GDelete string string | GPause string string | GActive string string int | GList string

definition status_only :: "(grpc_status + 'a) \<times> 'w \<Rightarrow> grpc_status option \<times> 'w" where
  "status_only x = (case x of (Inl s, w) \<Rightarrow> (Some s, w) | (Inr _, w) \<Rightarrow> (None, w))"

fun grpc_run :: "'w quene \<Rightarrow> grpc_call \<Rightarrow> 'w \<Rightarrow> grpc_status option \<times> 'w" where
  "grpc_run q (GRegister g) w = status_only (RegisterGroup_g q g w)"
| "grpc_run q (GRemove g) w = status_only (RemoveGroup_g q g w)"
| "grpc_run q (GAdd req) w = status_only (AddJob_g q req w)"
| "grpc_run q (GEdit req) w = status_only (EditJob_g q req w)"
| "grpc_run q (GDelete g i) w = status_only (DeleteJob_g q g i w)"
| "grpc_run q (GPause g i) w = status_only (PauseJob_g q g i w)"
| "grpc_run q (GActive g i t) w = status_only (ActiveJob_g q g i t w)"
| "grpc_run q (GList g) w = status_only (ListJobs_g q g w)"

section \<open>From the contract alone\<close>

lemma answer_keeps:
  assumes "answer m ok w = (rp, w')" and "harmless view m \<and> rp_status rp \<noteq> 200 \<and> rp_status rp \<noteq> 500 \<or> reads_only view m"
  shows "view w' = view w"
proof -
  obtain r w1 where m: "m w = (r, w1)" by (cases "m w")
  with assms(1) have "w' = w1" by (simp add: answer_def split: sum.splits)
  show ?thesis
  proof (cases "reads_only view m")
    case True
    from reads_onlyD [OF this m] \<open>w' = w1\<close> show ?thesis by simp
  next
    case False
    with assms m obtain e where e: "r = Inl e" "rp = writeErr e" "harmless view m" "rp_status rp \<noteq> 500"
      by (cases r) (auto simp: answer_def)
    then have "sentinel_of e \<noteq> None" using writeErr_caller by blast
    from harmlessD [OF e(3) m [unfolded e(1)] this] \<open>w' = w1\<close> show ?thesis by simp
  qed
qed

lemma respond_keeps:
  assumes "status_only (respond m ok w) = (s, w')"
    and "harmless view m \<and> (\<exists>st. s = Some st \<and> gs_code st \<noteq> InternalCode) \<or> reads_only view m"
  shows "view w' = view w"
proof -
  obtain r w1 where m: "m w = (r, w1)" by (cases "m w")
  with assms(1) have w1: "w' = w1" by (simp add: respond_def status_only_def split: sum.splits)
  show ?thesis
  proof (cases "reads_only view m")
    case True
    from reads_onlyD [OF this m] w1 show ?thesis by simp
  next
    case False
    with assms m obtain e where e: "r = Inl e" "s = Some (grpcErr e)" "harmless view m"
        "gs_code (grpcErr e) \<noteq> InternalCode"
      by (cases r) (auto simp: respond_def status_only_def)
    then have "sentinel_of e \<noteq> None"
      by (cases "sentinel_of e") (auto simp: grpcErr_def errors_Is_def)
    from harmlessD [OF e(3) m [unfolded e(1)] this] w1 show ?thesis by simp
  qed
qed

context quene_contract
begin

text \<open>A reply in the 400s is a refusal: the state is what it was.\<close>

lemma http_refused:
  assumes "handle q v op r w = (rp, w')" and "rp_status rp \<noteq> 200" and "rp_status rp \<noteq> 500" and "rp_status rp \<noteq> 503"
  shows "view w' = view w"
proof (cases op)
  case (OpAddJob g)
  show ?thesis
  proof (cases "readJSON (rq_body r) add_fields no_job")
    case (Inl x)
    with assms OpAddJob show ?thesis by (simp add: AddJob_h_def)
  next
    case (Inr p)
    let ?w1 = "if ap_JobId p = [] then snd (q_GenerateUID q w) else w"
    have "view ?w1 = view w" using uid_reads by simp
    moreover obtain j ok where "answer (q_Push q j) ok ?w1 = (rp, w')"
      using assms(1) OpAddJob Inr by (auto simp: AddJob_h_def Let_def split: if_splits prod.splits)
    then have "view w' = view ?w1" using answer_keeps [of "q_Push q j"] push_refused assms by blast
    ultimately show ?thesis by simp
  qed
next
  case OpReadyz
  with assms show ?thesis by (auto simp: Readyz_def split: prod.splits sum.splits)
next
  case (OpRegister)
  with assms answer_keeps [OF _ disjI1, OF _ conjI [OF register_refused]] show ?thesis
    by (auto simp: RegisterGroup_h_def split: sum.splits)
next
  case (OpEdit g i)
  with assms answer_keeps [OF _ disjI1, OF _ conjI [OF edit_refused]] show ?thesis
    by (auto simp: EditJob_h_def split: sum.splits if_splits)
next
  case (OpActivate g i)
  with assms answer_keeps [OF _ disjI1, OF _ conjI [OF active_refused]] show ?thesis
    by (auto simp: ActiveJob_h_def split: sum.splits)
next
  case (OpRemove g)
  with assms answer_keeps [OF _ disjI1, OF _ conjI [OF remove_refused]] show ?thesis by (auto simp: RemoveGroup_h_def)
next
  case (OpDelete g i)
  with assms answer_keeps [OF _ disjI1, OF _ conjI [OF delete_refused]] show ?thesis by (auto simp: DeleteJob_h_def)
next
  case (OpPause g i)
  with assms answer_keeps [OF _ disjI1, OF _ conjI [OF pause_refused]] show ?thesis by (auto simp: PauseJob_h_def)
next
  case (OpDeleteJobs g)
  with assms answer_keeps [OF _ disjI1, OF _ conjI [OF delete_jobs_refused]] show ?thesis by (auto simp: DeleteJobs_h_def)
next
  case (OpHistory g)
  with assms answer_keeps [OF _ disjI2, OF _ history_reads] show ?thesis
    by (auto simp: History_h_def Let_def split: option.splits)
next
  case OpStatus
  with assms answer_keeps [OF _ disjI2, OF _ stats_reads] show ?thesis by (auto simp: Status_def)
next
  case OpGroups
  with assms answer_keeps [OF _ disjI2, OF _ groups_reads] show ?thesis by (auto simp: GetGroupList_def)
next
  case (OpGroup g)
  with assms answer_keeps [OF _ disjI2, OF _ info_reads] show ?thesis by (auto simp: GroupInfo_h_def)
next
  case (OpJobs g)
  with assms answer_keeps [OF _ disjI2, OF _ list_reads] show ?thesis by (auto simp: GetJobList_def)
qed (use assms in \<open>simp_all add: Version_def Healthz_def\<close>)

lemma http_served_refused:
  assumes "serve q v r w = (rp, w')" and "400 \<le> rp_status rp" and "rp_status rp < 500"
  shows "view w' = view w"
  using assms http_refused by (auto simp: serve_def split: sum.splits)

text \<open>A \<open>GET\<close> changes nothing, whatever it replies.\<close>

lemma GET_routes: "find_route r = Inr op \<Longrightarrow> rq_method r = ''GET'' \<or> rq_method r = ''HEAD'' \<Longrightarrow>
    op \<in> {OpVersion, OpUi, OpHealthz, OpReadyz, OpStatus, OpGroups} \<or>
    (\<exists>g. op = OpGroup g \<or> op = OpJobs g \<or> op = OpHistory g)"
  by (cases "(if rq_method r = ''HEAD'' then ''GET'' else rq_method r, rq_path r)" rule: route_at.cases)
    (auto simp: find_route_def split: if_splits option.splits)

lemma http_reads:
  assumes "serve q v r w = (rp, w')" and "rq_method r = ''GET'' \<or> rq_method r = ''HEAD''"
  shows "view w' = view w"
proof (cases "find_route r")
  case (Inl s)
  with assms(1) show ?thesis by (simp add: serve_def)
next
  case (Inr op)
  from Inr assms(1) have h: "handle q v op r w = (rp, w')" by (simp add: serve_def)
  have ping: "view (snd (q_Ping q w)) = view w" using ping_reads by (simp add: reads_only_def)
  from GET_routes [OF Inr assms(2)] h show ?thesis
  proof (elim disjE insertE emptyE exE)
    assume "op = OpReadyz"
    with h ping show ?thesis by (auto simp: Readyz_def split: prod.splits sum.splits)
  next
    assume "op = OpStatus"
    with h answer_keeps [OF _ disjI2, OF _ stats_reads] show ?thesis by (auto simp: Status_def)
  next
    assume "op = OpGroups"
    with h answer_keeps [OF _ disjI2, OF _ groups_reads] show ?thesis by (auto simp: GetGroupList_def)
  next
    fix g assume "op = OpGroup g"
    with h answer_keeps [OF _ disjI2, OF _ info_reads] show ?thesis by (auto simp: GroupInfo_h_def)
  next
    fix g assume "op = OpJobs g"
    with h answer_keeps [OF _ disjI2, OF _ list_reads] show ?thesis by (auto simp: GetJobList_def)
  next
    fix g assume "op = OpHistory g"
    with h answer_keeps [OF _ disjI2, OF _ history_reads] show ?thesis
      by (auto simp: History_h_def Let_def split: option.splits)
  qed (simp_all add: Version_def Healthz_def)
qed

lemma grpc_harmless:
  "harmless view m \<Longrightarrow> gs_code s \<noteq> InternalCode \<Longrightarrow> status_only (respond m ok w) = (Some s, w') \<Longrightarrow> view w' = view w"
  using respond_keeps [of m ok w "Some s" w' view] by blast

lemma grpc_refused:
  assumes "grpc_run q c w = (Some s, w')" and "gs_code s \<noteq> InternalCode"
  shows "view w' = view w"
proof (cases c)
  case (GAdd req)
  show ?thesis
  proof (cases "buildRequestURL (ar_Delivery req) (ar_Target req)")
    case (Inl e)
    with assms GAdd show ?thesis by (simp add: AddJob_g_def status_only_def)
  next
    case (Inr u)
    let ?w1 = "if ar_JobId req = [] then snd (q_GenerateUID q w) else w"
    obtain j and ok :: "unit \<Rightarrow> string" where "status_only (respond (q_Push q j) ok ?w1) = (Some s, w')"
      using assms(1) GAdd Inr by (auto simp: AddJob_g_def Let_def split: if_splits prod.splits)
    from grpc_harmless [OF push_refused assms(2) this] show ?thesis using uid_reads by simp
  qed
next
  case (GEdit req)
  show ?thesis
  proof (cases "buildRequestURL (er_Delivery req) (er_Target req)")
    case (Inl e)
    with assms GEdit show ?thesis by (simp add: EditJob_g_def status_only_def)
  next
    case (Inr u)
    with assms(1) GEdit have "status_only (respond (q_Edit q (er_GroupName req) (er_JobId req) u (er_Payload req)) id w) = (Some s, w')"
      by (simp add: EditJob_g_def)
    from grpc_harmless [OF edit_refused assms(2) this] show ?thesis .
  qed
next
  case (GRegister g)
  from grpc_harmless [OF register_refused assms(2) assms(1) [unfolded this grpc_run.simps RegisterGroup_g_def]] show ?thesis .
next
  case (GRemove g)
  from grpc_harmless [OF remove_refused assms(2) assms(1) [unfolded this grpc_run.simps RemoveGroup_g_def]] show ?thesis .
next
  case (GDelete g i)
  from grpc_harmless [OF delete_refused assms(2) assms(1) [unfolded this grpc_run.simps DeleteJob_g_def]] show ?thesis .
next
  case (GPause g i)
  from grpc_harmless [OF pause_refused assms(2) assms(1) [unfolded this grpc_run.simps PauseJob_g_def]] show ?thesis .
next
  case (GActive g i t)
  from grpc_harmless [OF active_refused assms(2) assms(1) [unfolded this grpc_run.simps ActiveJob_g_def]] show ?thesis .
next
  case (GList g)
  with assms(1) have "status_only (respond (q_List q g) (map job_info) w) = (Some s, w')" by (simp add: ListJobs_g_def)
  from respond_keeps [OF this disjI2, OF list_reads] show ?thesis .
qed

end

section \<open>The calls as requests\<close>

text \<open>The request behind a call with an acceptable payload that names its job.\<close>

fun http_request_of :: "route \<Rightarrow> api_request \<Rightarrow> request option" where
  "http_request_of OpRegister r = (case readJSON (rq_body r) register_fields \<lparr>gp_GroupName = []\<rparr> of
     Inl _ \<Rightarrow> None | Inr p \<Rightarrow> Some (RRegister (gp_GroupName p)))"
| "http_request_of (OpRemove g) r = Some (RRemove g)"
| "http_request_of (OpAddJob g) r = (case readJSON (rq_body r) add_fields no_job of
     Inl _ \<Rightarrow> None | Inr p \<Rightarrow> if ap_JobId p = [] then None else Some (RPush (job_of_payload g (ap_JobId p) p)))"
| "http_request_of (OpEdit g i) r = (case readJSON (rq_body r) edit_fields no_edit of
     Inl _ \<Rightarrow> None | Inr p \<Rightarrow> if ep_RequestUrl p = [] then None else Some (REdit g i (ep_RequestUrl p) (ep_Payload p)))"
| "http_request_of (OpDelete g i) r = Some (RDelete g i)"
| "http_request_of (OpDeleteJobs g) r = Some (RDeleteJobs g (query_get r ''name''))"
| "http_request_of (OpPause g i) r = Some (RPause g i)"
| "http_request_of (OpActivate g i) r = (case readJSON (rq_body r) active_fields \<lparr>cp_Exectime = 0\<rparr> of
     Inl _ \<Rightarrow> None | Inr p \<Rightarrow> Some (RActive g i (cp_Exectime p)))"
| "http_request_of _ r = None"

fun grpc_request_of :: "grpc_call \<Rightarrow> request option" where
  "grpc_request_of (GRegister g) = Some (RRegister g)"
| "grpc_request_of (GRemove g) = Some (RRemove g)"
| "grpc_request_of (GAdd req) = (case buildRequestURL (ar_Delivery req) (ar_Target req) of
     Inl _ \<Rightarrow> None | Inr u \<Rightarrow> if ar_JobId req = [] then None else Some (RPush (job_of_request (ar_JobId req) u req)))"
| "grpc_request_of (GEdit req) = (case buildRequestURL (er_Delivery req) (er_Target req) of
     Inl _ \<Rightarrow> None | Inr u \<Rightarrow> Some (REdit (er_GroupName req) (er_JobId req) u (er_Payload req)))"
| "grpc_request_of (GDelete g i) = Some (RDelete g i)"
| "grpc_request_of (GPause g i) = Some (RPause g i)"
| "grpc_request_of (GActive g i t) = Some (RActive g i t)"
| "grpc_request_of (GList g) = None"

definition error_status :: "gua_error \<Rightarrow> nat" where
  "error_status e = rp_status (writeErr e)"

definition result_status :: "gua_error + 'a \<Rightarrow> nat" where
  "result_status x = (case x of Inl e \<Rightarrow> error_status e | Inr _ \<Rightarrow> 200)"

lemma answer_result:
  "rp_status (fst (answer (on_store m) ok n)) = result_status (fst (m (store n)))"
  "snd (answer (on_store m) ok n) = n\<lparr>store := snd (m (store n))\<rparr>"
  by (auto simp: answer_def on_store_def result_status_def error_status_def split: prod.split sum.split)

lemma result_one: "result_status (fst (one m w)) = result_status (fst (m w))" "snd (one m w) = snd (m w)"
  by (auto simp: result_status_def split: prod.split sum.split)

lemma handle_request:
  assumes "http_request_of op r = Some rq"
  shows "rp_status (fst (handle (river_quene cfg collate) v op r n)) = result_status (fst (perform cfg rq (store n)))"
    and "snd (handle (river_quene cfg collate) v op r n) = n\<lparr>store := snd (perform cfg rq (store n))\<rparr>"
  using assms
  by (cases op; auto simp: river_quene_def RegisterGroup_h_def RemoveGroup_h_def AddJob_h_def EditJob_h_def
      DeleteJob_h_def DeleteJobs_h_def PauseJob_h_def ActiveJob_h_def answer_result result_one
      simp del: one_simps split: sum.splits if_splits)+

definition code_status :: "grpc_code \<Rightarrow> nat" where
  "code_status c = (case c of InvalidArgument \<Rightarrow> 400 | NotFound \<Rightarrow> 404 | AlreadyExists \<Rightarrow> 409 | InternalCode \<Rightarrow> 500)"

definition grpc_status_number :: "grpc_status option \<Rightarrow> nat" where
  "grpc_status_number s = (case s of None \<Rightarrow> 200 | Some st \<Rightarrow> code_status (gs_code st))"

lemma grpcErr_status: "code_status (gs_code (grpcErr e)) = error_status e"
  by (auto simp: code_status_def grpcErr_def error_status_def writeErr_status errors_Is_def
      split: option.split sentinel.split)

lemma respond_result:
  "grpc_status_number (fst (status_only (respond (on_store m) ok n))) = result_status (fst (m (store n)))"
  "snd (status_only (respond (on_store m) ok n)) = n\<lparr>store := snd (m (store n))\<rparr>"
  by (auto simp: respond_def status_only_def on_store_def result_status_def grpc_status_number_def
      grpcErr_status split: prod.split sum.split)

lemma grpc_run_request:
  assumes "grpc_request_of c = Some rq"
  shows "grpc_status_number (fst (grpc_run (river_quene cfg collate) c n)) = result_status (fst (perform cfg rq (store n)))"
    and "snd (grpc_run (river_quene cfg collate) c n) = n\<lparr>store := snd (perform cfg rq (store n))\<rparr>"
  using assms
  by (cases c; auto simp: river_quene_def RegisterGroup_g_def RemoveGroup_g_def AddJob_g_def EditJob_g_def
      DeleteJob_g_def PauseJob_g_def ActiveJob_g_def respond_result result_one
      simp del: one_simps split: sum.splits if_splits)+

text \<open>The status of a promised result.\<close>

definition promised_status :: "sentinel + nat \<Rightarrow> nat" where
  "promised_status p = (case p of Inr _ \<Rightarrow> 200 | Inl ErrInvalid \<Rightarrow> 400 | Inl ErrNotFound \<Rightarrow> 404 | Inl ErrDuplicate \<Rightarrow> 409)"

lemma class_status: "result_class x = promised_class p \<Longrightarrow> result_status x = promised_status p"
  by (cases x; cases p) (auto simp: result_status_def promised_status_def error_status_def writeErr_status
      split: sentinel.split)

end
