(* ===== verification/Api_Theorems.thy ===== *)
theory Api_Theorems
  imports Api_Laws
begin

text \<open>
  The properties of the HTTP and gRPC admin APIs, on the Postgres queue: what a call does and what
  its status says, that the two APIs agree, and the round trips of what they print and read.
\<close>

section \<open>Small instances\<close>

definition demo_node :: "outcome list \<Rightarrow> node" where
  "demo_node fs = \<lparr>store = demo_world fs, random = (\<lambda>_. 0xAB), drawn = 0\<rparr>"

lemma demo_node_simps [simp]: "store (demo_node fs) = demo_world fs" "tables_of (demo_node fs) = demo_tables"
  by (simp_all add: demo_node_def tables_of_def)

definition demo_quene :: "node quene" where
  "demo_quene = river_quene demo_config length"

definition call_of :: "string \<Rightarrow> string list \<Rightarrow> json \<Rightarrow> api_request" where
  "call_of m p v = \<lparr>rq_method = m, rq_path = p, rq_query = [], rq_body = BodyBytes 2 (Inr v)\<rparr>"

section \<open>Refinement\<close>

text \<open>C26: the HTTP API keeps the queue's contract. A mutating call with an acceptable payload does the
  promised step and its status tells which result that is, 200, 400, 404 or 409; or the store fails,
  the status is 500, and nothing or all of the step is done.\<close>

theorem http_refines_promise:
  assumes "serve (river_quene cfg collate) v r n = (rp, n')" and "find_route r = Inr op"
    and "http_request_of op r = Some rq"
    and "wf_world (store n)" and "0 \<le> clock (store n) (reads (store n))"
  shows "let p = promised (unix_secs (clock (store n) (reads (store n)))) rq (abs_queue (tables_of n)) in
    (rp_status rp = promised_status (fst p) \<and> abs_queue (tables_of n') = snd p) \<or>
    (rp_status rp = 500 \<and> (abs_queue (tables_of n') = abs_queue (tables_of n) \<or> abs_queue (tables_of n') = snd p))"
proof -
  obtain x w' where p: "perform cfg rq (store n) = (x, w')" by (cases "perform cfg rq (store n)")
  have h: "handle (river_quene cfg collate) v op r n = (rp, n')" using assms(1,2) by (simp add: serve_def)
  have st: "rp_status rp = result_status x" and db: "tables_of n' = db w'" "tables_of n = db (store n)"
    using handle_request [OF assms(3), of cfg collate v n] by (simp_all add: h p tables_of_def)
  have "result_status (Inl StorageError :: gua_error + nat) = 500"
    by (simp add: result_status_def error_status_def writeErr_status)
  with request_refines [OF p assms(4,5)] show ?thesis
    unfolding st db Let_def by (auto dest: class_status)
qed

definition pause_call :: api_request where
  "pause_call = call_of ''POST'' [''v1'', ''groups'', ''g'', ''jobs'', ''j1'', ''pause''] JNull"

lemma pause_route: "find_route pause_call = Inr (OpPause ''g'' ''j1'')"
  by (simp add: pause_call_def call_of_def find_route_def)

theorem http_refines_promise_witness:
  "let p = promised 1000 (RPause ''g'' ''j1'') (abs_queue demo_tables);
       s = serve demo_quene [] pause_call (demo_node [Works, Fails]) in
    (rp_status (fst s) = promised_status (fst p) \<and> abs_queue (tables_of (snd s)) = snd p) \<or>
    (rp_status (fst s) = 500 \<and> (abs_queue (tables_of (snd s)) = abs_queue demo_tables \<or> abs_queue (tables_of (snd s)) = snd p))"
  using http_refines_promise [OF surjective_pairing pause_route, of "RPause ''g'' ''j1''" "demo_node [Works, Fails]"
      demo_config length "[]"]
  by (simp add: Let_def unix_secs_def nanos_per_sec_def demo_quene_def)

text \<open>C27: the two admin APIs agree. A gRPC call and an HTTP call for the same request leave the same
  state, and their statuses correspond: OK to 200, InvalidArgument to 400, NotFound to 404,
  AlreadyExists to 409 and Internal to 500.\<close>

theorem apis_agree:
  assumes "http_request_of op r = Some rq" and "grpc_request_of c = Some rq"
  shows "rp_status (fst (handle (river_quene cfg collate) v op r n)) =
      grpc_status_number (fst (grpc_run (river_quene cfg collate) c n)) \<and>
    snd (handle (river_quene cfg collate) v op r n) = snd (grpc_run (river_quene cfg collate) c n)"
  using handle_request [OF assms(1), of cfg collate v n] grpc_run_request [OF assms(2), of cfg collate n] by simp

theorem apis_agree_witness:
  "rp_status (fst (handle demo_quene [] (OpPause ''g'' ''j9'') pause_call (demo_node []))) =
      grpc_status_number (fst (grpc_run demo_quene (GPause ''g'' ''j9'') (demo_node []))) \<and>
    snd (handle demo_quene [] (OpPause ''g'' ''j9'') pause_call (demo_node [])) =
      snd (grpc_run demo_quene (GPause ''g'' ''j9'') (demo_node []))"
  unfolding demo_quene_def by (rule apis_agree) simp_all

text \<open>C28: a refused call changes nothing: an HTTP reply in the 400s, or a gRPC status other than
  Internal, leaves every table as it was, whatever fails in the store.\<close>

theorem refused_calls_change_nothing:
  assumes "serve (river_quene cfg collate) v r n = (rp, n')" and "400 \<le> rp_status rp" and "rp_status rp < 500"
    and "grpc_run (river_quene cfg collate) c m = (Some s, m')" and "gs_code s \<noteq> InternalCode"
  shows "tables_of n' = tables_of n \<and> tables_of m' = tables_of m"
  using river.http_served_refused [OF assms(1-3)] river.grpc_refused [OF assms(4,5)] by simp

theorem refused_calls_change_nothing_witness:
  "tables_of (snd (serve demo_quene [] (call_of ''POST'' [''v1''] JNull) (demo_node []))) = tables_of (demo_node []) \<and>
   tables_of (snd (grpc_run demo_quene (GActive ''g'' ''j1'' (-1)) (demo_node [Works]))) = tables_of (demo_node [Works])"
proof (rule refused_calls_change_nothing [where rp = "\<lparr>rp_status = 404, rp_body = NoBody\<rparr>" and v = "[]"
      and r = "call_of ''POST'' [''v1''] JNull" and cfg = demo_config and collate = length
      and c = "GActive ''g'' ''j1'' (-1)" and s = "grpcErr ExecTimeNegative"])
  show "serve (river_quene demo_config length) [] (call_of ''POST'' [''v1''] JNull) (demo_node []) =
    (\<lparr>rp_status = 404, rp_body = NoBody\<rparr>, snd (serve demo_quene [] (call_of ''POST'' [''v1''] JNull) (demo_node [])))"
    by (simp add: demo_quene_def serve_def find_route_def call_of_def http_methods_def)
  show "grpc_run (river_quene demo_config length) (GActive ''g'' ''j1'' (-1)) (demo_node [Works]) =
    (Some (grpcErr ExecTimeNegative), snd (grpc_run demo_quene (GActive ''g'' ''j1'' (-1)) (demo_node [Works])))"
    by (simp add: demo_quene_def river_quene_def ActiveJob_g_def respond_def status_only_def on_store_def
        Active_def op_bind_def)
qed (simp_all add: grpcErr_def errors_Is_def)

text \<open>A read changes nothing: whatever a \<open>GET\<close> or \<open>HEAD\<close> asks for and whatever it is answered,
  the tables are as they were.\<close>

theorem get_changes_nothing:
  assumes "serve (river_quene cfg collate) v r n = (rp, n')" and "rq_method r = ''GET'' \<or> rq_method r = ''HEAD''"
  shows "tables_of n' = tables_of n"
  using assms by (rule river.http_reads)

theorem get_changes_nothing_witness:
  "tables_of (snd (serve demo_quene [] (call_of ''GET'' [''readyz''] JNull) (demo_node [Lost]))) = tables_of (demo_node [Lost])"
  unfolding demo_quene_def by (rule get_changes_nothing [OF surjective_pairing]) (simp add: call_of_def)

section \<open>Adding a job\<close>

lemma added_job:
  assumes "AddJob_h (river_quene cfg collate) g r n = (rp, n')" and "rp_status rp = 200"
    and "0 \<le> clock (store n) (reads (store n))"
  shows "\<exists>p i. readJSON (rq_body r) add_fields no_job = Inr p \<and> rp_body rp = SuccessBody (text_value i) \<and>
    (ap_JobId p \<noteq> [] \<longrightarrow> i = ap_JobId p) \<and> valid_job (job_of_payload g i p) \<and> i \<notin> set (map job_id (gua_jobs (tables_of n))) \<and>
    (let j = stored_job (unix_secs (clock (store n) (reads (store n)))) (job_of_payload g i p) in
     tables_of n' = (tables_of n)\<lparr>gua_jobs := gua_jobs (tables_of n) @ [j],
       river_job := river_job (tables_of n) @ [new_row cfg (next_row (store n)) i g (exectime j)]\<rparr>)"
proof -
  obtain p where p: "readJSON (rq_body r) add_fields no_job = Inr p"
  proof (cases "readJSON (rq_body r) add_fields no_job")
    case (Inl x)
    with assms(1,2) readJSON_refuses [OF Inl] show ?thesis by (simp add: AddJob_h_def)
  qed
  define i where "i = (if ap_JobId p = [] then fst (draw_uid n) else ap_JobId p)"
  define n1 where "n1 = (if ap_JobId p = [] then snd (draw_uid n) else n)"
  have n1: "store n1 = store n" by (simp add: n1_def draw_uid_def)
  have uid: "(if ap_JobId p = [] then q_GenerateUID (river_quene cfg collate) n else (ap_JobId p, n)) = (i, n1)"
    by (simp add: river_quene_def i_def n1_def)
  have push: "q_Push (river_quene cfg collate) j = on_store (Push cfg j)" for j
    by (simp add: river_quene_def)
  have run: "answer (on_store (Push cfg (job_of_payload g i p))) (\<lambda>_. text_value i) n1 = (rp, n')"
    using assms(1) by (simp add: AddJob_h_def p uid push)
  obtain x w' where w': "Push cfg (job_of_payload g i p) (store n) = (x, w')"
    by (cases "Push cfg (job_of_payload g i p) (store n)")
  have m: "on_store (Push cfg (job_of_payload g i p)) n1 = (x, n1\<lparr>store := w'\<rparr>)"
    by (simp add: on_store_def n1 w')
  have "x = Inr () \<and> rp_body rp = SuccessBody (text_value i) \<and> tables_of n' = db w'"
  proof (cases x)
    case (Inl e)
    have "answer (on_store (Push cfg (job_of_payload g i p))) (\<lambda>_. text_value i) n1 = (writeErr e, n1\<lparr>store := w'\<rparr>)"
      unfolding answer_def m Inl by simp
    with run have "rp = writeErr e" by simp
    with assms(2) have "rp_status (writeErr e) = 200" by simp
    then show ?thesis unfolding writeErr_status by (simp split: option.splits sentinel.splits)
  next
    case (Inr u)
    have "answer (on_store (Push cfg (job_of_payload g i p))) (\<lambda>_. text_value i) n1 =
        (WriteJSON (text_value i) 200, n1\<lparr>store := w'\<rparr>)"
      unfolding answer_def m Inr by simp
    with run have "rp = WriteJSON (text_value i) 200" "n' = n1\<lparr>store := w'\<rparr>" by simp_all
    with Inr show ?thesis by (simp add: tables_of_def)
  qed
  then have ok: "x = Inr ()" "rp_body rp = SuccessBody (text_value i)" "tables_of n' = db w'" by simp_all
  note stored = Push_success [OF w' [unfolded ok(1)] assms(3)]
  have id: "job_id (job_of_payload g i p) = i" "group_name (job_of_payload g i p) = g"
    by (simp_all add: job_of_payload_def)
  show ?thesis using p ok stored unfolding id
    by (intro exI [of _ p] exI [of _ i]) (auto simp: i_def tables_of_def Let_def)
qed

text \<open>C29: the reply to an added job names the stored job. When adding succeeds, the id in the reply is
  the one asked for, or a generated valid name, it was free, and under it the definition is stored,
  active, with the fields of the payload in the group of the path.\<close>

theorem added_job_is_stored:
  assumes "AddJob_h (river_quene cfg collate) g r n = (rp, n')" and "rp_status rp = 200"
    and "wf_world (store n)" and "0 \<le> clock (store n) (reads (store n))"
  shows "\<exists>p i. readJSON (rq_body r) add_fields no_job = Inr p \<and> rp_body rp = SuccessBody (text_value i) \<and>
    (ap_JobId p \<noteq> [] \<longrightarrow> i = ap_JobId p) \<and> ValidateName ''job_id'' i = Inr () \<and>
    find_job i (gua_jobs (tables_of n)) = None \<and>
    find_job i (gua_jobs (tables_of n')) =
      Some (stored_job (unix_secs (clock (store n) (reads (store n)))) (job_of_payload g i p))"
proof -
  from added_job [OF assms(1,2,4)] obtain p i where
    p: "readJSON (rq_body r) add_fields no_job = Inr p" "rp_body rp = SuccessBody (text_value i)" "ap_JobId p \<noteq> [] \<longrightarrow> i = ap_JobId p"
    and j: "valid_job (job_of_payload g i p)" "i \<notin> set (map job_id (gua_jobs (tables_of n)))"
      and "let j = stored_job (unix_secs (clock (store n) (reads (store n)))) (job_of_payload g i p) in
     tables_of n' = (tables_of n)\<lparr>gua_jobs := gua_jobs (tables_of n) @ [j],
       river_job := river_job (tables_of n) @ [new_row cfg (next_row (store n)) i g (exectime j)]\<rparr>"
    by blast
  then have rows: "gua_jobs (tables_of n') = gua_jobs (tables_of n) @ [stored_job (unix_secs (clock (store n) (reads (store n)))) (job_of_payload g i p)]"
    by (simp add: Let_def)
  have id: "job_id (job_of_payload g i p) = i" "job_id (stored_job t (job_of_payload g i p)) = i" for t
    by (simp_all add: job_of_payload_def stored_job_def)
  have "ValidateName ''job_id'' i = Inr ()" using j(1) id by (simp add: valid_job_def)
  moreover have "find_job i (gua_jobs (tables_of n)) = None" using j(2) unfolding find_job_None .
  ultimately show ?thesis using p id unfolding rows
    by (intro exI [of _ p] exI [of _ i]) (simp add: find_job_append)
qed

definition add_call :: api_request where
  "add_call = call_of ''POST'' [''v1'', ''groups'', ''g'', ''jobs'']
     (JObject [(''job_id'', JString ''j2''), (''Name'', JString ''n''),
       (''request_url'', JString ''HTTP@http://c''), (''exec_time'', JNumber ''500'')])"

lemma demo_add: "rp_status (fst (AddJob_h demo_quene ''g'' add_call (demo_node []))) = 200"
proof -
  let ?p = "\<lparr>ap_JobId = ''j2'', ap_Name = ''n'', ap_Exectime = 500, ap_RequestUrl = ''HTTP@http://c'',
      ap_IntervalPattern = [], ap_Payload = [], ap_Timeout = 0, ap_Memo = []\<rparr>"
  have n: "atoi ''500'' = Some 500" "char_of (78 :: nat) = CHR ''N''" by code_simp+
  have p: "readJSON (rq_body add_call) add_fields no_job = Inr ?p"
    by (simp add: readJSON_def add_call_def call_of_def maxBodyBytes_def decode_struct_def add_fields_def
        string_field_def int64_field_def upper_def no_job_def Let_def n)
  have j: "job_of_payload ''g'' ''j2'' ?p = demo_job\<lparr>job_id := ''j2'', interval_pattern := []\<rparr>"
    by (simp add: job_of_payload_def demo_job_def)
  show ?thesis
    by (simp add: AddJob_h_def p j demo_quene_def river_quene_def answer_def on_store_def demo_push)
qed

theorem added_job_is_stored_witness:
  "\<exists>p i. ValidateName ''job_id'' i = Inr () \<and>
    find_job i (gua_jobs (tables_of (snd (AddJob_h demo_quene ''g'' add_call (demo_node []))))) =
      Some (stored_job 1000 (job_of_payload ''g'' i p))"
proof -
  have "unix_secs (clock (store (demo_node [])) (reads (store (demo_node [])))) = 1000"
    by (simp add: unix_secs_def nanos_per_sec_def)
  with added_job_is_stored [OF surjective_pairing demo_add [unfolded demo_quene_def], folded demo_quene_def]
  show ?thesis by fastforce
qed

section \<open>Round trips\<close>

text \<open>A job that was listed can be posted back. Decoding the JSON of a listed job as the payload of
  a new one gives every field of the definition back, whatever its texts and numbers; the keys the
  payload does not have are skipped.\<close>

theorem listed_job_roundtrip:
  assumes "- (2 ^ 63) \<le> exectime j" "exectime j < 2 ^ 63" "- (2 ^ 63) \<le> timeout j" "timeout j < 2 ^ 63"
  shows "\<exists>p. readJSON (BodyBytes 1 (Inr (ResponseJobList j))) add_fields no_job = Inr p \<and>
    job_of_payload (group_name j) (job_id j) p = j\<lparr>active := True\<rparr>"
proof -
  have "decode_struct add_fields no_job (ResponseJobList j) =
      Some \<lparr>ap_JobId = [], ap_Name = job_name j, ap_Exectime = exectime j, ap_RequestUrl = request_url j,
        ap_IntervalPattern = interval_pattern j, ap_Payload = payload j, ap_Timeout = timeout j, ap_Memo = memo j\<rparr>"
    using atoi_show_int [OF assms(1,2)] atoi_show_int [OF assms(3,4)]
    by (simp add: decode_struct_def ResponseJobList_def add_fields_def string_field_def int64_field_def
        upper_def json_int_def no_job_def Let_def)
  then show ?thesis
    by (simp add: readJSON_def maxBodyBytes_def job_of_payload_def)
qed

theorem listed_job_roundtrip_witness:
  "\<exists>p. readJSON (BodyBytes 1 (Inr (ResponseJobList demo_job))) add_fields no_job = Inr p \<and>
    job_of_payload (group_name demo_job) (job_id demo_job) p = demo_job\<lparr>active := True\<rparr>"
  by (rule listed_job_roundtrip) (simp_all add: demo_job_def)

text \<open>C30: targets survive the gRPC API. The delivery type and target that \<open>ListJobs\<close> shows for a job
  with a valid request URL are the ones that build this URL again, and the ones that built a URL
  are read back from it.\<close>

theorem grpc_target_roundtrip:
  assumes "SplitRequestURL (request_url j) = Inr (k, target)" and "buildRequestURL d t = Inr u"
  shows "buildRequestURL (ji_Delivery (job_info j)) (ji_Target (job_info j)) = Inr (request_url j) \<and>
    ji_Target (job_info j) = target \<and> parseRequestURL u = (d, t)"
  using parse_stored [OF assms(1)] parse_build [OF assms(2)]
  by (simp add: job_info_def split: prod.split)

theorem grpc_target_roundtrip_witness:
  "ji_Target (job_info demo_job) = ''http://c'' \<and> parseRequestURL ''GRPC@h:1'' = (1, ''h:1'')"
proof -
  have u: "SplitRequestURL (request_url demo_job) = Inr (''HTTP'', ''http://c'')" by code_simp
  have b: "buildRequestURL 1 ''h:1'' = Inr ''GRPC@h:1''" by code_simp
  from grpc_target_roundtrip [OF u b] show ?thesis by simp
qed

end
