(* ===== verification/River_Lifecycle.thy ===== *)
theory River_Lifecycle
  imports Worker_Laws Cron_Theorems
begin

text \<open>
  The life of occurrences on a cluster: any number of nodes serve requests and run workers over one
  store, in any interleaving of requests with the three parts of \<open>Work\<close>. What River does with an
  occurrence follows its documentation: a due occurrence becomes available, a worker fetches it and
  counts an attempt, the result of \<open>Work\<close> completes it, leaves it for a retry, or discards it after
  the last attempt, a running occurrence that no worker holds is rescued, and finished ones are
  cleaned away. In the relation \<open>step\<close> the flag says whether the store may fail for a worker, and
  whether a node may die; requests may always meet failures.
\<close>

section \<open>The cluster\<close>

datatype stage = Fetched | Loaded job | Delivered job "deliver_error + string"

record cluster =
  c_world :: world
  c_flights :: "(river_row \<times> stage) list"
  c_sends :: "(nat \<times> nat) list"

definition replace_row :: "river_row \<Rightarrow> world \<Rightarrow> world" where
  "replace_row row w = w\<lparr>db := (db w)\<lparr>river_job :=
     map (\<lambda>r. if r_id r = r_id row then row else r) (river_job (db w))\<rparr>\<rparr>"

definition after_work :: "work_result \<Rightarrow> river_row \<Rightarrow> river_state" where
  "after_work r row = (case r of Failed e \<Rightarrow> if r_attempt row < r_max row then Retryable else Discarded
     | _ \<Rightarrow> Completed)"

definition finish :: "river_row \<Rightarrow> work_result \<Rightarrow> world \<Rightarrow> world" where
  "finish row r = replace_row (row\<lparr>r_state := after_work r row\<rparr>)"

definition attempt_key :: "river_row \<Rightarrow> nat \<times> nat" where
  "attempt_key row = (r_id row, r_attempt row)"

definition moved :: "river_row \<times> stage \<Rightarrow> (river_row \<times> stage) list \<Rightarrow> world \<Rightarrow> cluster \<Rightarrow> cluster" where
  "moved f new w s = s\<lparr>c_world := w, c_flights := new @ filter (\<lambda>g. g \<noteq> f) (c_flights s)\<rparr>"

inductive step :: "config \<Rightarrow> location \<Rightarrow> bool \<Rightarrow> cluster \<Rightarrow> cluster \<Rightarrow> bool"
  for cfg :: config and loc :: location and faulty :: bool and s :: cluster where
  request: "step cfg loc faulty s (s\<lparr>c_world := snd (perform cfg rq ((c_world s)\<lparr>fate := fs\<rparr>))\<rparr>)"
| prune: "step cfg loc faulty s (s\<lparr>c_world := snd (prune_Work cfg ((c_world s)\<lparr>fate := fs\<rparr>))\<rparr>)"
| promote: "row \<in> set (river_job (db (c_world s))) \<Longrightarrow> r_state row \<in> {Scheduled, Retryable} \<Longrightarrow>
    step cfg loc faulty s (s\<lparr>c_world := replace_row (row\<lparr>r_state := Available\<rparr>) (c_world s)\<rparr>)"
| fetch: "row \<in> set (river_job (db (c_world s))) \<Longrightarrow> r_state row = Available \<Longrightarrow> Kind (r_args row) = ''gua_delivery'' \<Longrightarrow>
    run = row\<lparr>r_state := Running, r_attempt := Suc (r_attempt row)\<rparr> \<Longrightarrow>
    step cfg loc faulty s (s\<lparr>c_world := replace_row run (c_world s), c_flights := (run, Fetched) # c_flights s\<rparr>)"
| skip: "(row, Fetched) \<in> set (c_flights s) \<Longrightarrow> (fs = [] \<or> faulty) \<Longrightarrow>
    work_load (arg_job (r_args row)) ((c_world s)\<lparr>fate := fs\<rparr>) = (Inl r, w) \<Longrightarrow>
    step cfg loc faulty s (moved (row, Fetched) [] (finish row r w) s)"
| load: "(row, Fetched) \<in> set (c_flights s) \<Longrightarrow>
    work_load (arg_job (r_args row)) ((c_world s)\<lparr>fate := fs\<rparr>) = (Inr df, w) \<Longrightarrow>
    step cfg loc faulty s (moved (row, Fetched) [(row, Loaded df)] w s)"
| deliver: "(row, Loaded df) \<in> set (c_flights s) \<Longrightarrow>
    work_deliver cfg c (r_id row) (arg_plan (r_args row)) df ((c_world s)\<lparr>fate := fs\<rparr>) = (resp, sent, w) \<Longrightarrow>
    step cfg loc faulty s ((moved (row, Loaded df) [(row, Delivered df resp)] w s)\<lparr>c_sends := map (\<lambda>_. attempt_key row) sent @ c_sends s\<rparr>)"
| settle: "(row, Delivered df resp) \<in> set (c_flights s) \<Longrightarrow> (fs = [] \<or> faulty) \<Longrightarrow>
    work_settle cfg loc row df resp ((c_world s)\<lparr>fate := fs\<rparr>) = (r, w) \<Longrightarrow> r \<noteq> Hangs \<Longrightarrow>
    step cfg loc faulty s (moved (row, Delivered df resp) [] (finish row r w) s)"
| crash: "f \<in> set (c_flights s) \<Longrightarrow> faulty \<Longrightarrow> step cfg loc faulty s (moved f [] (c_world s) s)"
| rescue: "row \<in> set (river_job (db (c_world s))) \<Longrightarrow> r_state row = Running \<Longrightarrow>
    r_id row \<notin> r_id ` fst ` set (c_flights s) \<Longrightarrow>
    step cfg loc faulty s (s\<lparr>c_world := replace_row (row\<lparr>r_state := if r_attempt row < r_max row then Retryable else Discarded\<rparr>) (c_world s)\<rparr>)"
| clean: "s' = s\<lparr>c_world := (c_world s)\<lparr>db := (db (c_world s))\<lparr>river_job :=
      filter (\<lambda>r. r_id r \<noteq> k \<or> r_state r \<notin> {Completed, Cancelled, Discarded}) (river_job (db (c_world s)))\<rparr>\<rparr>\<rparr> \<Longrightarrow>
    step cfg loc faulty s s'"

inductive reachable :: "config \<Rightarrow> location \<Rightarrow> bool \<Rightarrow> cluster \<Rightarrow> cluster \<Rightarrow> bool"
  for cfg loc faulty s where
  start: "reachable cfg loc faulty s s"
| after: "reachable cfg loc faulty s t \<Longrightarrow> step cfg loc faulty t u \<Longrightarrow> reachable cfg loc faulty s u"

inductive_cases stepE: "step cfg loc faulty s s'"

section \<open>What the store operations do to occurrences\<close>

text \<open>
  Requests and workers add occurrences that were never attempted, keep those that are running, and
  otherwise only remove some.
\<close>

definition evolves :: "config \<Rightarrow> world \<Rightarrow> world \<Rightarrow> bool" where
  "evolves cfg w w' \<longleftrightarrow> next_row w \<le> next_row w' \<and> clock w' = clock w \<and>
     (\<forall>r \<in> set (river_job (db w')). r \<in> set (river_job (db w)) \<or>
        next_row w \<le> r_id r \<and> r_attempt r = 0 \<and> r_max r = nat (MaxAttempts cfg)) \<and>
     (\<forall>r \<in> set (river_job (db w)). r_state r = Running \<longrightarrow> r \<in> set (river_job (db w')))"

lemma evolves_refl [simp]: "evolves cfg w w" and evolves_fate [simp]: "evolves cfg w (w\<lparr>fate := fs\<rparr>)"
  and evolves_fate_left [simp]: "evolves cfg (w\<lparr>fate := fs\<rparr>) w' \<longleftrightarrow> evolves cfg w w'"
  by (simp_all add: evolves_def)

lemma evolves_trans: "evolves cfg u v \<Longrightarrow> evolves cfg v w \<Longrightarrow> evolves cfg u w"
  unfolding evolves_def by (metis order_trans)

lemma evolves_same: "grows w w' \<Longrightarrow> river_job (db w') = river_job (db w) \<Longrightarrow> evolves cfg w w'"
  by (auto simp: evolves_def grows_def)

lemma evolves_rollback: "evolves cfg u w \<Longrightarrow> db v = db u \<Longrightarrow> next_row v = next_row w \<Longrightarrow> clock v = clock w \<Longrightarrow> evolves cfg u v"
  by (simp add: evolves_def)

text \<open>The operations with this effect, and the compositions that keep it.\<close>

locale evolving =
  fixes cfg :: config and m :: "world \<Rightarrow> 'a \<times> world"
  assumes evolves: "evolves cfg w (snd (m w))"

lemma evolving_plain:
  assumes "statement f" and "\<And>w. river_job (db (snd (f w))) = river_job (db w)"
  shows "evolving cfg f"
  using assms(2) statement.grow [OF assms(1)] by unfold_locales (rule evolves_same)

lemma evolving_update_jobs: "evolving cfg (update_jobs P f)"
  by (rule evolving_plain [OF statement_update_jobs]) (simp add: update_jobs_def)

lemma evolving_delete_jobs: "evolving cfg (delete_jobs P)"
  by (rule evolving_plain [OF statement_delete_jobs]) (simp add: delete_jobs_def)

lemma evolving_insert_job: "evolving cfg (insert_job j)"
  by (rule evolving_plain [OF statement_insert_job]) (simp add: insert_job_def)

lemma evolving_insert_group: "evolving cfg (insert_group g)"
  by (rule evolving_plain [OF statement_insert_group]) (simp add: insert_group_def)

lemma evolving_delete_group: "evolving cfg (delete_group g)"
  by (rule evolving_plain [OF statement_delete_group]) (simp add: delete_group_def)

lemma evolving_insert_execution: "evolving cfg (insert_execution h t)"
  by (rule evolving_plain [OF statement_insert_execution]) (simp add: insert_execution_def)

lemma evolving_delete_executions: "evolving cfg (delete_executions old)"
  by (rule evolving_plain [OF statement_delete_executions]) (simp add: delete_executions_def)

lemma evolving_delete_occurrences: "evolving cfg (delete_occurrences P)"
  by unfold_locales (auto simp: delete_occurrences_def evolves_def pending_delivery_def pendingStates_def)

lemma evolving_insert_occurrence: "evolving cfg (insert_occurrence (nat (MaxAttempts cfg)) a t)"
  by unfold_locales (auto simp: insert_occurrence_def evolves_def time_Now_def Let_def)

lemma evolving_delete_jobs_stmt: "evolving cfg (delete_jobs_stmt g n)"
proof
  fix w
  let ?v = "snd (delete_jobs (in_group_named g n) w)"
  let ?P = "\<lambda>r. of_group g r \<and> arg_job (r_args r) \<in> set (map job_id (filter (in_group_named g n) (gua_jobs (db w))))"
  have "evolves cfg w ?v" "evolves cfg ?v (snd (delete_occurrences ?P ?v))"
    by (rule evolving.evolves [OF evolving_delete_jobs] evolving.evolves [OF evolving_delete_occurrences])+
  then show "evolves cfg w (snd (delete_jobs_stmt g n w))"
    by (auto simp: delete_jobs_stmt_def split: prod.split intro: evolves_trans)
qed

lemmas evolving_statements = evolving_update_jobs evolving_delete_jobs evolving_insert_job evolving_insert_group
  evolving_delete_group evolving_insert_execution evolving_delete_executions evolving_delete_occurrences
  evolving_insert_occurrence evolving_delete_jobs_stmt

lemma evolving_pure: "evolving cfg (op_return x)" "evolving cfg (op_fail e)" "evolving cfg (op_lift r)"
  by unfold_locales simp_all

lemma evolving_exec:
  assumes "evolving cfg f"
  shows "evolving cfg (tx_exec f)" and "evolving cfg (pool_exec f)"
proof -
  have e: "evolves cfg w (snd (f (w\<lparr>fate := fs\<rparr>)))" for w fs
    using evolving.evolves [OF assms, of "w\<lparr>fate := fs\<rparr>"] by simp
  show "evolving cfg (tx_exec f)"
  proof
    fix w obtain fa fs where "next_fate w = (fa, w\<lparr>fate := fs\<rparr>)" by (rule next_fate_cases)
    with e [of w fs] show "evolves cfg w (snd (tx_exec f w))"
      by (cases fa) (simp_all add: tx_exec_def case_prod_beta)
  qed
  show "evolving cfg (pool_exec f)"
  proof
    fix w obtain fa fs where "next_fate w = (fa, w\<lparr>fate := fs\<rparr>)" by (rule next_fate_cases)
    with e [of w fs] show "evolves cfg w (snd (pool_exec f w))"
      by (cases fa) (simp_all add: pool_exec_def case_prod_beta)
  qed
qed

lemma evolving_reading: "reading m \<Longrightarrow> evolving cfg m"
  using reading.same_db [of m] steady.grow [of m]
  by unfold_locales (simp add: reading_def evolves_same)

lemma evolving_bind:
  assumes "evolving cfg m" and "\<And>x. evolving cfg (f x)"
  shows "evolving cfg (op_bind m f)"
proof
  fix w
  obtain r w1 where m: "m w = (r, w1)" by (cases "m w")
  have "evolves cfg w w1" using evolving.evolves [OF assms(1), of w] m by simp
  then show "evolves cfg w (snd (op_bind m f w))"
    using evolving.evolves [OF assms(2)] by (cases r) (auto simp: op_bind_def m intro: evolves_trans)
qed

lemma evolving_run_tx:
  assumes "evolving cfg body"
  shows "evolving cfg (run_tx body)"
proof
  fix w
  obtain fa fs where n: "next_fate w = (fa, w\<lparr>fate := fs\<rparr>)" by (rule next_fate_cases)
  obtain r v where b: "body (w\<lparr>fate := fs\<rparr>) = (r, v)" by (cases "body (w\<lparr>fate := fs\<rparr>)")
  have e: "evolves cfg w v" using evolving.evolves [OF assms, of "w\<lparr>fate := fs\<rparr>"] b by simp
  have undone: "evolves cfg w (v\<lparr>db := db w\<rparr>)" "evolves cfg w (v\<lparr>fate := gs, db := db w\<rparr>)" "evolves cfg w (v\<lparr>fate := gs\<rparr>)" for gs
    using e by (simp_all add: evolves_def)
  obtain fb gs where nb: "next_fate v = (fb, v\<lparr>fate := gs\<rparr>)" by (rule next_fate_cases)
  show "evolves cfg w (snd (run_tx body w))"
    using n nb undone by (cases fa; cases fb) (auto simp: run_tx_def b split: sum.split tx_end.split)
qed

lemma evolving_if: "evolving cfg m \<Longrightarrow> evolving cfg n \<Longrightarrow> evolving cfg (if b then m else n)"
  by simp

lemmas evolving_rules = evolving_bind evolving_run_tx evolving_if evolving_exec evolving_statements evolving_pure
  reading_query [THEN evolving_reading] reading_now_unix [THEN evolving_reading]
  reading_Push_checks [THEN evolving_reading]

lemma evolving_Push_tx: "evolving cfg (Push_tx cfg j)"
  unfolding Push_tx_def insertOccurrenceTx_def by (intro evolving_rules)

interpretation request_rows: evolving cfg "perform cfg rq" for cfg rq
  by (cases rq; simp only: perform.simps one_def Push_def Edit_def Active_def Active_tx_def Pause_def
      Delete_def DeleteJobs_def RegisterGroup_def RemoveGroup_def insertOccurrenceTx_def cancelOccurrencesTx_def;
    intro evolving_rules evolving_Push_tx)

interpretation rescheduling: evolving cfg "scheduleNext cfg i g at" for cfg i g at
  unfolding scheduleNext_def insertOccurrenceTx_def by (intro evolving_rules)

interpretation pausing: evolving cfg "pause_job i" for cfg i
  unfolding pause_job_def by (intro evolving_rules)

interpretation dropping: evolving cfg "drop_job i" for cfg i
  unfolding drop_job_def by (intro evolving_rules)

lemma evolves_work_load: "work_load i w = (x, w') \<Longrightarrow> evolves cfg w w'"
  by (simp add: work_load_result evolves_same)

lemma evolves_work_deliver: "work_deliver cfg c k p df w = (resp, sent, w') \<Longrightarrow> evolves cfg w w'"
  by (rule evolves_same [OF work_deliver_result(4)]) (simp_all add: work_deliver_keeps)

lemma evolves_work_settle:
  assumes "work_settle cfg loc row df resp w = (r, w')"
  shows "evolves cfg w w'"
proof -
  have t: "evolves cfg w (snd (time_Now w))" by (simp add: time_Now_def evolves_def)
  from assms show ?thesis
  proof (cases rule: settle_cases)
    case (scheduled at x)
    with rescheduling.evolves [of cfg "snd (time_Now w)" "job_id df" "group_name df" at] t
    show ?thesis by (auto intro: evolves_trans)
  qed (use t pausing.evolves dropping.evolves in auto)
qed

lemma evolves_prune: "evolves cfg w (snd (prune_Work cfg w))"
proof (rule evolves_same [OF grows_prune])
  show "river_job (db (snd (prune_Work cfg w))) = river_job (db w)"
    using prune_result [OF surjective_pairing, of cfg w] by auto
qed

section \<open>The invariant of the cluster\<close>

definition rows_ok :: "config \<Rightarrow> world \<Rightarrow> bool" where
  "rows_ok cfg w \<longleftrightarrow> (\<forall>r \<in> set (river_job (db w)). r_max r = nat (MaxAttempts cfg) \<and>
     (r_state r \<in> set pendingStates \<longrightarrow> r_attempt r < r_max r))"

definition flights_ok :: "cluster \<Rightarrow> bool" where
  "flights_ok s \<longleftrightarrow> distinct (map (r_id \<circ> fst) (c_flights s)) \<and>
     (\<forall>f \<in> set (c_flights s). fst f \<in> set (river_job (db (c_world s))) \<and> r_state (fst f) = Running \<and>
        0 < r_attempt (fst f))"

fun unsent :: "stage \<Rightarrow> bool" where
  "unsent (Delivered df resp) = False"
| "unsent _ = True"

definition sends_ok :: "config \<Rightarrow> cluster \<Rightarrow> bool" where
  "sends_ok cfg s \<longleftrightarrow> distinct (c_sends s) \<and>
     (\<forall>e \<in> set (c_sends s). 0 < snd e \<and> snd e \<le> nat (MaxAttempts cfg) \<and> fst e < next_row (c_world s) \<and>
        (\<forall>r \<in> set (river_job (db (c_world s))). r_id r = fst e \<longrightarrow> snd e \<le> r_attempt r)) \<and>
     (\<forall>f \<in> set (c_flights s). unsent (snd f) \<longrightarrow> attempt_key (fst f) \<notin> set (c_sends s))"

definition life_inv :: "config \<Rightarrow> cluster \<Rightarrow> bool" where
  "life_inv cfg s \<longleftrightarrow> wf_world (c_world s) \<and> (\<forall>k. 0 \<le> clock (c_world s) k) \<and> rows_ok cfg (c_world s) \<and>
     flights_ok s \<and> sends_ok cfg s"

lemmas life_defs = life_inv_def rows_ok_def flights_ok_def sends_ok_def

text \<open>A change of the store that evolves.\<close>

lemma life_evolves:
  assumes "life_inv cfg s" and "0 < MaxAttempts cfg" and "evolves cfg (c_world s) w" and "wf_world w"
  shows "life_inv cfg (s\<lparr>c_world := w\<rparr>)"
proof -
  have new: "r \<in> set (river_job (db (c_world s))) \<or> next_row (c_world s) \<le> r_id r \<and> r_attempt r = 0 \<and> r_max r = nat (MaxAttempts cfg)"
    if "r \<in> set (river_job (db w))" for r using assms(3) that by (simp add: evolves_def)
  have "rows_ok cfg w"
    unfolding rows_ok_def
  proof
    fix r assume "r \<in> set (river_job (db w))"
    from new [OF this] assms(1,2) show "r_max r = nat (MaxAttempts cfg) \<and> (r_state r \<in> set pendingStates \<longrightarrow> r_attempt r < r_max r)"
      by (auto simp: life_inv_def rows_ok_def)
  qed
  moreover have "flights_ok (s\<lparr>c_world := w\<rparr>)"
    using assms(1,3) by (auto simp: life_inv_def flights_ok_def evolves_def)
  moreover have "sends_ok cfg (s\<lparr>c_world := w\<rparr>)"
    unfolding sends_ok_def
  proof (intro conjI ballI impI)
    show "distinct (c_sends (s\<lparr>c_world := w\<rparr>))" using assms(1) by (simp add: life_inv_def sends_ok_def)
  next
    fix e assume "e \<in> set (c_sends (s\<lparr>c_world := w\<rparr>))"
    then have e: "0 < snd e" "snd e \<le> nat (MaxAttempts cfg)" "fst e < next_row (c_world s)"
      "\<And>r. r \<in> set (river_job (db (c_world s))) \<Longrightarrow> r_id r = fst e \<Longrightarrow> snd e \<le> r_attempt r"
      using assms(1) by (auto simp: life_inv_def sends_ok_def)
    show "0 < snd e" "snd e \<le> nat (MaxAttempts cfg)" by (rule e)+
    show "fst e < next_row (c_world (s\<lparr>c_world := w\<rparr>))" using e(3) assms(3) by (simp add: evolves_def)
    fix r assume "r \<in> set (river_job (db (c_world (s\<lparr>c_world := w\<rparr>))))" "r_id r = fst e"
    with new [of r] e(3,4) show "snd e \<le> r_attempt r" by auto
  next
    fix f assume "f \<in> set (c_flights (s\<lparr>c_world := w\<rparr>))" "unsent (snd f)"
    then show "attempt_key (fst f) \<notin> set (c_sends (s\<lparr>c_world := w\<rparr>))"
      using assms(1) by (auto simp: life_inv_def sends_ok_def)
  qed
  ultimately show ?thesis using assms by (simp add: life_inv_def evolves_def)
qed

text \<open>A change of one occurrence.\<close>

lemma row_unique:
  assumes "wf_world w" and "r \<in> set (river_job (db w))" and "q \<in> set (river_job (db w))" and "r_id r = r_id q"
  shows "r = q"
proof -
  have "distinct (map r_id (river_job (db w)))"
    using assms(1) unfolding wf_world_def wf_tables_def by blast
  then have "inj_on r_id (set (river_job (db w)))" unfolding distinct_map by blast
  from inj_onD [OF this assms(4,2,3)] show ?thesis .
qed

lemma replace_row_simps [simp]:
  "next_row (replace_row row w) = next_row w" "next_seq (replace_row row w) = next_seq w"
  "clock (replace_row row w) = clock w" "gua_jobs (db (replace_row row w)) = gua_jobs (db w)"
  "gua_groups (db (replace_row row w)) = gua_groups (db w)"
  "gua_executions (db (replace_row row w)) = gua_executions (db w)" "fate (replace_row row w) = fate w"
  "reads (replace_row row w) = reads w"
  by (simp_all add: replace_row_def)

lemma replace_row_set:
  assumes "wf_world w" and "row \<in> set (river_job (db w))" and "r_id row' = r_id row"
  shows "set (river_job (db (replace_row row' w))) = insert row' (set (river_job (db w)) - {row})"
proof -
  let ?R = "set (river_job (db w))" and ?f = "\<lambda>r. if r = row then row' else r"
  have "r_id r = r_id row \<longleftrightarrow> r = row" if "r \<in> ?R" for r
    using row_unique [OF assms(1) that assms(2)] by blast
  then have "(\<lambda>r. if r_id r = r_id row' then row' else r) ` ?R = ?f ` ?R"
    unfolding assms(3) by (intro image_cong) simp_all
  also have "\<dots> = insert row' (?R - {row})" using assms(2) by auto
  finally show ?thesis by (simp add: replace_row_def)
qed

lemma wf_replace:
  assumes "wf_world w" and "row \<in> set (river_job (db w))" and "r_id row' = r_id row" and "wf_row row'"
  shows "wf_world (replace_row row' w)"
proof -
  have "map r_id (river_job (db (replace_row row' w))) = map r_id (river_job (db w))"
    using assms(3) by (auto simp: replace_row_def)
  moreover have "r_id row < next_row w" using assms(1,2) by (auto simp: wf_world_def wf_tables_def list_all_iff)
  ultimately show ?thesis
    using assms replace_row_set [OF assms(1-3)] by (auto simp: wf_world_def wf_tables_def list_all_iff)
qed

lemma life_replace:
  assumes "life_inv cfg s" and "row \<in> set (river_job (db (c_world s)))"
    and "r_id row' = r_id row" "r_max row' = r_max row" "r_attempt row' = r_attempt row"
    and "r_state row' \<in> set pendingStates \<Longrightarrow> r_attempt row < r_max row"
    and "row \<notin> fst ` set (c_flights s)"
  shows "life_inv cfg (s\<lparr>c_world := replace_row row' (c_world s)\<rparr>)"
proof -
  have wf: "wf_world (c_world s)" using assms(1) by (simp add: life_inv_def)
  note rows = replace_row_set [OF wf assms(2,3)]
  have "wf_row row" using wf assms(2) by (auto simp: wf_world_def wf_tables_def list_all_iff)
  then have "wf_row row'" using assms(4,5) by (simp add: wf_row_def)
  from wf_replace [OF wf assms(2,3) this] have "wf_world (replace_row row' (c_world s))" .
  moreover have "rows_ok cfg (replace_row row' (c_world s))"
    using assms(1,2,4-6) unfolding rows_ok_def rows by (auto simp: life_inv_def rows_ok_def)
  moreover have "flights_ok (s\<lparr>c_world := replace_row row' (c_world s)\<rparr>)"
    unfolding flights_ok_def
  proof (intro conjI ballI)
    show "distinct (map (r_id \<circ> fst) (c_flights (s\<lparr>c_world := replace_row row' (c_world s)\<rparr>)))"
      using assms(1) by (simp add: life_inv_def flights_ok_def)
    fix f assume "f \<in> set (c_flights (s\<lparr>c_world := replace_row row' (c_world s)\<rparr>))"
    then have f: "f \<in> set (c_flights s)" by simp
    then have "fst f \<noteq> row" using assms(7) by blast
    moreover have "fst f \<in> set (river_job (db (c_world s)))" "r_state (fst f) = Running" "0 < r_attempt (fst f)"
      using assms(1) f by (simp_all add: life_inv_def flights_ok_def)
    ultimately show "fst f \<in> set (river_job (db (c_world (s\<lparr>c_world := replace_row row' (c_world s)\<rparr>))))"
      "r_state (fst f) = Running" "0 < r_attempt (fst f)" by (simp_all add: rows)
  qed
  moreover have "sends_ok cfg (s\<lparr>c_world := replace_row row' (c_world s)\<rparr>)"
    using assms(1,2,3,5) by (auto simp: life_inv_def sends_ok_def rows)
  ultimately show ?thesis using assms(1) by (simp add: life_inv_def)
qed

text \<open>A run that ends, or goes on to its next part.\<close>

lemma life_land:
  assumes "life_inv cfg s"
  shows "life_inv cfg (s\<lparr>c_flights := filter (\<lambda>g. g \<noteq> f) (c_flights s)\<rparr>)"
  using assms by (auto simp: life_inv_def flights_ok_def sends_ok_def distinct_map_filter)

lemma landed:
  assumes "life_inv cfg s" and "(row, g) \<in> set (c_flights s)"
  shows "r_id row \<notin> (r_id \<circ> fst) ` set (filter (\<lambda>h. h \<noteq> (row, g)) (c_flights s))"
proof
  assume "r_id row \<in> (r_id \<circ> fst) ` set (filter (\<lambda>h. h \<noteq> (row, g)) (c_flights s))"
  then obtain h where h: "h \<in> set (c_flights s)" "h \<noteq> (row, g)" "(r_id \<circ> fst) (row, g) = (r_id \<circ> fst) h" by auto
  have "inj_on (r_id \<circ> fst) (set (c_flights s))"
    using assms(1) unfolding life_inv_def flights_ok_def distinct_map by blast
  from inj_onD [OF this h(3) assms(2) h(1)] h(2) show False by simp
qed

lemma landed_row:
  assumes "life_inv cfg s" and "(row, g) \<in> set (c_flights s)"
  shows "row \<notin> fst ` set (filter (\<lambda>h. h \<noteq> (row, g)) (c_flights s))"
  using landed [OF assms] by force

lemma flight_row:
  assumes "life_inv cfg s" and "(row, g) \<in> set (c_flights s)"
  shows "row \<in> set (river_job (db (c_world s)))" "r_state row = Running" "0 < r_attempt row"
  using assms by (auto simp: life_inv_def flights_ok_def)

lemma life_restage:
  assumes "life_inv cfg s" and "(row, g) \<in> set (c_flights s)" and "unsent g' \<longrightarrow> unsent g"
  shows "life_inv cfg (s\<lparr>c_flights := (row, g') # filter (\<lambda>h. h \<noteq> (row, g)) (c_flights s)\<rparr>)"
proof -
  have "distinct (map (r_id \<circ> fst) (c_flights s))"
    using assms(1) by (simp add: life_inv_def flights_ok_def)
  with landed [OF assms(1,2)] have "distinct (map (r_id \<circ> fst) ((row, g') # filter (\<lambda>h. h \<noteq> (row, g)) (c_flights s)))"
    by (simp add: distinct_map_filter)
  with flight_row [OF assms(1,2)] assms(1) have "flights_ok (s\<lparr>c_flights := (row, g') # filter (\<lambda>h. h \<noteq> (row, g)) (c_flights s)\<rparr>)"
    by (auto simp: life_inv_def flights_ok_def)
  moreover have "unsent g' \<Longrightarrow> attempt_key row \<notin> set (c_sends s)"
    using assms by (auto simp: life_inv_def sends_ok_def)
  ultimately show ?thesis
    using assms(1) by (simp add: life_inv_def sends_ok_def)
qed

lemma life_finish:
  assumes "life_inv cfg s" and "(row, g) \<in> set (c_flights s)" and "0 < MaxAttempts cfg"
    and "evolves cfg (c_world s) w" and "wf_world w"
  shows "life_inv cfg (moved (row, g) [] (finish row r w) s)"
proof -
  let ?t = "s\<lparr>c_world := w\<rparr>" and ?fl = "filter (\<lambda>h. h \<noteq> (row, g)) (c_flights s)"
  have t: "life_inv cfg ?t" by (rule life_evolves [OF assms(1,3,4,5)])
  have u: "life_inv cfg (?t\<lparr>c_flights := ?fl\<rparr>)" using life_land [OF t, of "(row, g)"] by simp
  have row: "row \<in> set (river_job (db w))" using t assms(2) by (force simp: life_inv_def flights_ok_def)
  have "life_inv cfg ((?t\<lparr>c_flights := ?fl\<rparr>)\<lparr>c_world := replace_row (row\<lparr>r_state := after_work r row\<rparr>) w\<rparr>)"
    using life_replace [OF u, of row "row\<lparr>r_state := after_work r row\<rparr>"] row landed_row [OF assms(1,2)]
    by (auto simp: after_work_def pendingStates_def split: work_result.splits if_splits)
  then show ?thesis by (cases s) (simp add: moved_def finish_def)
qed

text \<open>Fetching counts an attempt.\<close>

lemma life_fetch:
  assumes "life_inv cfg s" and "row \<in> set (river_job (db (c_world s)))" and "r_state row = Available"
    and "run = row\<lparr>r_state := Running, r_attempt := Suc (r_attempt row)\<rparr>"
  shows "life_inv cfg (s\<lparr>c_world := replace_row run (c_world s), c_flights := (run, Fetched) # c_flights s\<rparr>)"
proof -
  let ?w = "replace_row run (c_world s)" and ?s = "s\<lparr>c_world := replace_row run (c_world s), c_flights := (run, Fetched) # c_flights s\<rparr>"
  have wf: "wf_world (c_world s)" using assms(1) by (simp add: life_inv_def)
  have id: "r_id run = r_id row" "r_max run = r_max row" "r_attempt run = Suc (r_attempt row)" "r_state run = Running"
    by (simp_all add: assms(4))
  note rows = replace_row_set [OF wf assms(2) id(1)]
  have lim: "r_max row = nat (MaxAttempts cfg)" "r_attempt row < r_max row"
    using assms(1-3) by (auto simp: life_inv_def rows_ok_def pendingStates_def)
  then have "wf_row run" by (simp add: wf_row_def id)
  from wf_replace [OF wf assms(2) id(1) this] have 1: "wf_world ?w" .
  have 2: "rows_ok cfg ?w"
    using assms(1) id lim by (auto simp: rows_ok_def rows life_inv_def pendingStates_def)
  have free: "r_id row \<noteq> r_id (fst f) \<and> fst f \<in> set (river_job (db (c_world s))) - {row}" if "f \<in> set (c_flights s)" for f
  proof -
    have f: "fst f \<in> set (river_job (db (c_world s)))" "r_state (fst f) = Running"
      using assms(1) that by (simp_all add: life_inv_def flights_ok_def)
    then have "fst f \<noteq> row" using assms(3) by auto
    with f row_unique [OF wf assms(2) f(1)] show ?thesis by blast
  qed
  then have "r_id run \<notin> (r_id \<circ> fst) ` set (c_flights s)" unfolding id by auto
  with free assms(1) id have 3: "flights_ok ?s"
    by (auto simp: flights_ok_def rows life_inv_def)
  have old: "\<And>e. e \<in> set (c_sends s) \<Longrightarrow> fst e = r_id row \<Longrightarrow> snd e \<le> r_attempt row"
    using assms(1,2) by (auto simp: life_inv_def sends_ok_def)
  then have "attempt_key run \<notin> set (c_sends s)" by (fastforce simp: attempt_key_def id)
  moreover have "snd e \<le> r_attempt r" if "e \<in> set (c_sends s)" "r_id r = fst e" "r \<in> set (river_job (db ?w))" for e r
  proof (cases "r = run")
    case True
    with old [OF that(1)] that(2) show ?thesis by (simp add: id)
  next
    case False
    with that assms(1) show ?thesis by (auto simp: rows life_inv_def sends_ok_def)
  qed
  ultimately have "sends_ok cfg ?s"
    using assms(1) by (simp add: life_inv_def sends_ok_def)
  with 1 2 3 assms(1) show ?thesis by (simp add: life_inv_def)
qed

text \<open>Sending is remembered under the occurrence and its attempt.\<close>

lemma life_send:
  assumes "life_inv cfg s" and "(row, Delivered df resp) \<in> set (c_flights s)"
    and "attempt_key row \<notin> set (c_sends s)"
  shows "life_inv cfg (s\<lparr>c_sends := attempt_key row # c_sends s\<rparr>)"
proof -
  have wf: "wf_world (c_world s)" using assms(1) by (simp add: life_inv_def)
  note row = flight_row [OF assms(1,2)]
  have lim: "r_attempt row \<le> nat (MaxAttempts cfg)"
    using assms(1) wf row(1) by (auto simp: life_inv_def rows_ok_def wf_world_def wf_tables_def list_all_iff wf_row_def)
  have below: "r_id row < next_row (c_world s)"
    using wf row(1) by (auto simp: wf_world_def wf_tables_def list_all_iff)
  have same: "r_attempt row \<le> r_attempt r" if "r \<in> set (river_job (db (c_world s)))" "r_id r = r_id row" for r
    using row_unique [OF wf that(1) row(1) that(2)] by simp
  have "sends_ok cfg (s\<lparr>c_sends := attempt_key row # c_sends s\<rparr>)"
    unfolding sends_ok_def
  proof (intro conjI ballI impI)
    show "distinct (c_sends (s\<lparr>c_sends := attempt_key row # c_sends s\<rparr>))"
      using assms(1,3) by (simp add: life_inv_def sends_ok_def)
  next
    fix e assume e: "e \<in> set (c_sends (s\<lparr>c_sends := attempt_key row # c_sends s\<rparr>))"
    have old: "e \<in> set (c_sends s) \<Longrightarrow> 0 < snd e \<and> snd e \<le> nat (MaxAttempts cfg) \<and> fst e < next_row (c_world s) \<and>
        (\<forall>r \<in> set (river_job (db (c_world s))). r_id r = fst e \<longrightarrow> snd e \<le> r_attempt r)"
      using assms(1) by (simp add: life_inv_def sends_ok_def)
    show "0 < snd e" "snd e \<le> nat (MaxAttempts cfg)" "fst e < next_row (c_world (s\<lparr>c_sends := attempt_key row # c_sends s\<rparr>))"
      using e old lim below row(3) by (auto simp: attempt_key_def)
    fix r assume "r \<in> set (river_job (db (c_world (s\<lparr>c_sends := attempt_key row # c_sends s\<rparr>))))" "r_id r = fst e"
    with e old same show "snd e \<le> r_attempt r" by (auto simp: attempt_key_def)
  next
    fix f assume f: "f \<in> set (c_flights (s\<lparr>c_sends := attempt_key row # c_sends s\<rparr>))" "unsent (snd f)"
    then have m: "f \<in> set (filter (\<lambda>g. g \<noteq> (row, Delivered df resp)) (c_flights s))" by auto
    have "attempt_key (fst f) \<noteq> attempt_key row"
    proof
      assume "attempt_key (fst f) = attempt_key row"
      then have "r_id row = (r_id \<circ> fst) f" by (simp add: attempt_key_def)
      with m landed [OF assms(1,2)] show False by (metis imageI)
    qed
    moreover have "attempt_key (fst f) \<notin> set (c_sends s)" using f assms(1) by (simp add: life_inv_def sends_ok_def)
    ultimately show "attempt_key (fst f) \<notin> set (c_sends (s\<lparr>c_sends := attempt_key row # c_sends s\<rparr>))" by simp
  qed
  with assms(1) show ?thesis by (simp add: life_inv_def flights_ok_def)
qed

lemma wf_fate [simp]: "wf_world (w\<lparr>fate := fs\<rparr>) = wf_world w"
  by (simp add: wf_world_def)

lemma wf_work_load: "work_load i w = (x, w') \<Longrightarrow> wf_world w \<Longrightarrow> wf_world w'"
  using work_load_result(1,2) [of i w x w'] wf_tables_mono unfolding wf_world_def grows_def by metis

lemma wf_work_settle: "work_settle cfg loc row df resp w = (r, w') \<Longrightarrow> wf_world w \<Longrightarrow> wf_world w'"
  using wf_settle [of w cfg loc row df resp] by simp

lemma wf_cleaned:
  "wf_world w \<Longrightarrow> wf_world (w\<lparr>db := (db w)\<lparr>river_job := filter P (river_job (db w))\<rparr>\<rparr>)"
  using wf_filtered [where d = "db w" and P = "\<lambda>_. True" and Q = P] by (simp add: wf_world_def)

lemma life_step:
  assumes "step cfg loc faulty s s'" and "life_inv cfg s" and "0 < MaxAttempts cfg"
  shows "life_inv cfg s'"
  using assms(1)
proof (cases rule: step.cases)
  case (request rq fs)
  have "0 \<le> clock ((c_world s)\<lparr>fate := fs\<rparr>) (reads ((c_world s)\<lparr>fate := fs\<rparr>))" "wf_world ((c_world s)\<lparr>fate := fs\<rparr>)"
    using assms(2) by (simp_all add: life_inv_def)
  from request_wf [OF this(2,1), of cfg rq] request_rows.evolves [of cfg "(c_world s)\<lparr>fate := fs\<rparr>" rq]
  show ?thesis unfolding request using life_evolves [OF assms(2,3)] by simp
next
  case (prune fs)
  have "wf_world ((c_world s)\<lparr>fate := fs\<rparr>)" using assms(2) by (simp add: life_inv_def)
  from wf_prune [OF this, of cfg] evolves_prune [of cfg "(c_world s)\<lparr>fate := fs\<rparr>"]
  show ?thesis unfolding prune using life_evolves [OF assms(2,3)] by simp
next
  case (promote row)
  have "row \<notin> fst ` set (c_flights s)"
    using promote(3) flight_row(2) [OF assms(2)] by force
  moreover have "r_attempt row < r_max row"
    using promote(2,3) assms(2) by (auto simp: life_inv_def rows_ok_def pendingStates_def)
  ultimately show ?thesis
    unfolding promote(1) using life_replace [OF assms(2) promote(2)] by simp
next
  case (fetch row run)
  show ?thesis unfolding fetch(1) by (rule life_fetch [OF assms(2) fetch(2,3,5)])
next
  case (skip row fs r w)
  have "wf_world w" using wf_work_load [OF skip(4)] assms(2) by (simp add: life_inv_def)
  with evolves_work_load [OF skip(4), of cfg] show ?thesis
    unfolding skip(1) using life_finish [OF assms(2) skip(2) assms(3)] by simp
next
  case (load row fs df w)
  have "wf_world w" using wf_work_load [OF load(3)] assms(2) by (simp add: life_inv_def)
  with evolves_work_load [OF load(3), of cfg] have t: "life_inv cfg (s\<lparr>c_world := w\<rparr>)"
    using life_evolves [OF assms(2,3)] by simp
  from life_restage [OF t, of row Fetched "Loaded df"] load(2) show ?thesis
    unfolding load(1) by (simp add: moved_def)
next
  case (deliver row df c fs resp sent w)
  have "wf_world w" using work_deliver_result(5) [OF deliver(3)] assms(2) by (simp add: life_inv_def)
  with evolves_work_deliver [OF deliver(3)] have t: "life_inv cfg (s\<lparr>c_world := w\<rparr>)"
    using life_evolves [OF assms(2,3)] by simp
  let ?u = "(s\<lparr>c_world := w\<rparr>)\<lparr>c_flights := (row, Delivered df resp) # filter (\<lambda>h. h \<noteq> (row, Loaded df)) (c_flights s)\<rparr>"
  from life_restage [OF t, of row "Loaded df" "Delivered df resp"] deliver(2)
  have u: "life_inv cfg ?u" by simp
  from work_deliver_result(1) [OF deliver(3)] have "sent = [] \<or> (\<exists>d. sent = [d])"
    using may_send_one(1) by (metis list.exhaust)
  then have s': "s' = ?u \<or> s' = ?u\<lparr>c_sends := attempt_key row # c_sends s\<rparr>"
    unfolding deliver(1) by (cases s) (auto simp: moved_def)
  have "attempt_key row \<notin> set (c_sends s)"
    using assms(2) deliver(2) by (force simp: life_inv_def sends_ok_def)
  with life_send [OF u, of row df resp] have "life_inv cfg (?u\<lparr>c_sends := attempt_key row # c_sends s\<rparr>)" by simp
  with u s' show ?thesis by auto
next
  case (settle row df resp fs r w)
  have "wf_world w" using wf_work_settle [OF settle(4)] assms(2) by (simp add: life_inv_def)
  with evolves_work_settle [OF settle(4)] show ?thesis
    unfolding settle(1) using life_finish [OF assms(2) settle(2) assms(3)] by simp
next
  case (crash f)
  show ?thesis unfolding crash(1) moved_def using life_land [OF assms(2), of f] by simp
next
  case (rescue row)
  have "row \<notin> fst ` set (c_flights s)" using rescue(4) by blast
  then show ?thesis
    unfolding rescue(1)
    by (intro life_replace [OF assms(2) rescue(2)]) (simp_all add: pendingStates_def split: if_splits)
next
  case (clean k)
  have "evolves cfg (c_world s) (c_world s')" unfolding clean by (auto simp: evolves_def)
  moreover have "wf_world (c_world s')" unfolding clean using assms(2) by (simp add: wf_cleaned life_inv_def)
  moreover have "s' = s\<lparr>c_world := c_world s'\<rparr>" unfolding clean by simp
  ultimately show ?thesis using life_evolves [OF assms(2,3)] by metis
qed

lemma life_reachable:
  assumes "reachable cfg loc faulty s t" and "life_inv cfg s" and "0 < MaxAttempts cfg"
  shows "life_inv cfg t"
  using assms by (induction rule: reachable.induct) (auto intro: life_step)

end
