(* ===== verification/Cluster_Coverage.thy ===== *)
theory Cluster_Coverage
  imports River_Lifecycle
begin

text \<open>
  Who fires next: while no worker meets a failing store and no node dies, every active definition of
  the cluster has an occurrence that is pending, or a run that will leave one.
\<close>

section \<open>On its way\<close>

definition occurrence_of :: "string \<Rightarrow> string \<Rightarrow> river_args \<Rightarrow> bool" where
  "occurrence_of i h a \<longleftrightarrow> (\<exists>p. a = guaJobArgs i h p)"

definition due_in :: "aqueue \<Rightarrow> string \<Rightarrow> string \<Rightarrow> bool" where
  "due_in a i h \<longleftrightarrow> (\<exists>x. x \<in># q_due a \<and> occurrence_of i h x)"

fun carries :: "string \<Rightarrow> string \<Rightarrow> stage \<Rightarrow> bool" where
  "carries i h Fetched = True"
| "carries i h (Loaded df) = (job_id df = i \<and> group_name df = h \<and> wf_job df)"
| "carries i h (Delivered df resp) = (job_id df = i \<and> group_name df = h \<and> wf_job df)"

definition in_flight :: "(river_row \<times> stage) list \<Rightarrow> string \<Rightarrow> string \<Rightarrow> bool" where
  "in_flight fl i h \<longleftrightarrow> (\<exists>f \<in> set fl. occurrence_of i h (r_args (fst f)) \<and> carries i h (snd f))"

definition covered :: "cluster \<Rightarrow> bool" where
  "covered s \<longleftrightarrow> (\<forall>i j. find_job i (gua_jobs (db (c_world s))) = Some j \<longrightarrow> active j \<longrightarrow>
     due_in (abs_queue (db (c_world s))) i (group_name j) \<or> in_flight (c_flights s) i (group_name j))"

lemma due_in_rows:
  "due_in (abs_queue d) i h \<longleftrightarrow> (\<exists>r \<in> set (river_job d). pending_delivery r \<and> occurrence_of i h (r_args r))"
  by (auto simp: due_in_def)

lemma flight_covers:
  "f \<in> set fl \<Longrightarrow> occurrence_of i h (r_args (fst f)) \<Longrightarrow> carries i h (snd f) \<Longrightarrow> in_flight fl i h"
  unfolding in_flight_def by blast

section \<open>Requests\<close>

lemma due_mono:
  "due_in a i h \<Longrightarrow> (\<And>x. x \<in># q_due a \<Longrightarrow> occurrence_of i h x \<Longrightarrow> x \<in># q_due b) \<Longrightarrow> due_in b i h"
  by (auto simp: due_in_def)

lemma occurrence_about:
  "occurrence_of i h x \<Longrightarrow> about_job k x \<longleftrightarrow> k = i" "occurrence_of i h x \<Longrightarrow> about_group g x \<longleftrightarrow> g = h"
  "occurrence_of i h x \<Longrightarrow> arg_job x = i" "occurrence_of i h (guaJobArgs i h p)"
  by (auto simp: occurrence_of_def)

text \<open>Every active definition after a request was there and active before, or is due.\<close>

lemma promised_active:
  assumes "q_jobs (snd (promised now rq a)) i = Some j" and "active j"
  shows "due_in (snd (promised now rq a)) i (group_name j) \<or>
    (\<exists>j0. q_jobs a i = Some j0 \<and> active j0 \<and> group_name j0 = group_name j \<and>
      (\<forall>x. x \<in># q_due a \<longrightarrow> occurrence_of i (group_name j) x \<longrightarrow> x \<in># q_due (snd (promised now rq a))))"
proof (cases rq)
  case (RPush k)
  show ?thesis
  proof (cases "q_jobs a i = Some j")
    case True
    with assms RPush show ?thesis by auto
  next
    case False
    with assms RPush have "i = job_id k" "j = stored_job now k" "snd (promised now rq a) =
        a\<lparr>q_jobs := (q_jobs a)(job_id k \<mapsto> stored_job now k),
          q_due := q_due a + {#guaJobArgs (job_id k) (group_name k) (exectime (stored_job now k))#}\<rparr>"
      by (auto split: if_splits)
    then show ?thesis by (auto simp: due_in_def occurrence_of_def stored_job_def)
  qed
next
  case (REdit g k u pl)
  with assms show ?thesis by (auto split: if_splits option.splits dest!: lookup_in_SomeD)
next
  case (RActive g k t)
  show ?thesis
  proof (cases "lookup_in a g k")
    case None
    with assms RActive show ?thesis by (cases "t < 0") auto
  next
    case (Some j1)
    then show ?thesis
      using assms RActive lookup_in_SomeD [OF Some]
      by (cases "t < 0"; cases "i = k") (auto simp: due_in_def occurrence_about Let_def intro: occurrence_about(4))
  qed
next
  case (RPause g k)
  with assms show ?thesis
    by (auto simp: occurrence_about split: option.splits if_splits)
next
  case (RDelete g k)
  with assms show ?thesis
    by (auto simp: occurrence_about split: option.splits if_splits)
next
  case (RDeleteJobs g n)
  then have "q_jobs a i = Some j" "\<not> in_group_named g n j"
    using assms(1) by (auto simp: Let_def split: if_splits)
  with assms RDeleteJobs show ?thesis by (auto simp: Let_def occurrence_about)
next
  case (RRegister g)
  with assms show ?thesis by (auto split: if_splits)
next
  case (RRemove g)
  show ?thesis
  proof (cases "g \<in> q_groups a")
    case True
    with assms(1) RRemove have j: "q_jobs a i = Some j" "lookup_in a g i = None" by (auto split: if_splits)
    then have "group_name j \<noteq> g" by (auto simp: lookup_in_def)
    with assms j RRemove True show ?thesis by (auto simp: occurrence_about)
  next
    case False
    with assms RRemove show ?thesis by auto
  qed
qed

lemma promised_covers:
  assumes "\<And>i j. q_jobs a i = Some j \<Longrightarrow> active j \<Longrightarrow> due_in a i (group_name j) \<or> F i (group_name j)"
    and "q_jobs (snd (promised now rq a)) i = Some j" and "active j"
  shows "due_in (snd (promised now rq a)) i (group_name j) \<or> F i (group_name j)"
  using promised_active [OF assms(2,3)] assms(1) due_mono by metis

lemma covered_request:
  assumes "covered s" and "wf_world (c_world s)" and "\<forall>k. 0 \<le> clock (c_world s) k"
  shows "covered (s\<lparr>c_world := snd (perform cfg rq ((c_world s)\<lparr>fate := fs\<rparr>))\<rparr>)"
proof -
  let ?w = "(c_world s)\<lparr>fate := fs\<rparr>" and ?a = "abs_queue (db (c_world s))"
  let ?F = "in_flight (c_flights s)"
  obtain x w' where p: "perform cfg rq ?w = (x, w')" by (cases "perform cfg rq ?w")
  have "wf_world ?w" "0 \<le> clock ?w (reads ?w)" using assms by simp_all
  from request_refines [OF p this] obtain now where
    "abs_queue (db w') = ?a \<or> abs_queue (db w') = snd (promised now rq ?a)" by (auto simp: Let_def)
  moreover have old: "\<And>i j. q_jobs ?a i = Some j \<Longrightarrow> active j \<Longrightarrow> due_in ?a i (group_name j) \<or> ?F i (group_name j)"
    using assms(1) by (auto simp: covered_def)
  ultimately have "\<And>i j. q_jobs (abs_queue (db w')) i = Some j \<Longrightarrow> active j \<Longrightarrow>
      due_in (abs_queue (db w')) i (group_name j) \<or> ?F i (group_name j)"
    using promised_covers [OF old] by metis
  then show ?thesis by (simp add: covered_def p)
qed

section \<open>The other steps\<close>

text \<open>
  Coverage survives when every active definition has an active ancestor of its id and group, every
  pending occurrence it may rely on stays, and a run that ends leaves an occurrence.
\<close>

lemma covered_change:
  assumes "covered s"
    and "\<And>i j. find_job i (gua_jobs (db (c_world t))) = Some j \<Longrightarrow> active j \<Longrightarrow>
      \<exists>j0. find_job i (gua_jobs (db (c_world s))) = Some j0 \<and> active j0 \<and> group_name j0 = group_name j"
    and "\<And>i j r. find_job i (gua_jobs (db (c_world t))) = Some j \<Longrightarrow> active j \<Longrightarrow>
      r \<in> set (river_job (db (c_world s))) \<Longrightarrow> pending_delivery r \<Longrightarrow> occurrence_of i (group_name j) (r_args r) \<Longrightarrow>
      due_in (abs_queue (db (c_world t))) i (group_name j) \<or> in_flight (c_flights t) i (group_name j)"
    and "\<And>i j f. find_job i (gua_jobs (db (c_world t))) = Some j \<Longrightarrow> active j \<Longrightarrow>
      f \<in> set (c_flights s) \<Longrightarrow> occurrence_of i (group_name j) (r_args (fst f)) \<Longrightarrow> carries i (group_name j) (snd f) \<Longrightarrow>
      due_in (abs_queue (db (c_world t))) i (group_name j) \<or> in_flight (c_flights t) i (group_name j)"
  shows "covered t"
  unfolding covered_def
proof (intro allI impI)
  fix i j assume j: "find_job i (gua_jobs (db (c_world t))) = Some j" "active j"
  from assms(2) [OF j] obtain j0 where "find_job i (gua_jobs (db (c_world s))) = Some j0" "active j0"
    "group_name j0 = group_name j" by blast
  with assms(1) consider r where "r \<in> set (river_job (db (c_world s)))" "pending_delivery r" "occurrence_of i (group_name j) (r_args r)"
    | f where "f \<in> set (c_flights s)" "occurrence_of i (group_name j) (r_args (fst f))" "carries i (group_name j) (snd f)"
    unfolding covered_def due_in_rows in_flight_def by metis
  then show "due_in (abs_queue (db (c_world t))) i (group_name j) \<or> in_flight (c_flights t) i (group_name j)"
    by cases (use assms(3,4) j in blast)+
qed

lemma covered_same:
  assumes "covered s" and "gua_jobs (db (c_world t)) = gua_jobs (db (c_world s))"
    and "\<And>r i h. r \<in> set (river_job (db (c_world s))) \<Longrightarrow> pending_delivery r \<Longrightarrow> occurrence_of i h (r_args r) \<Longrightarrow>
      due_in (abs_queue (db (c_world t))) i h \<or> in_flight (c_flights t) i h"
    and "\<And>f. f \<in> set (c_flights s) \<Longrightarrow> f \<in> set (c_flights t)"
  shows "covered t"
proof (rule covered_change [OF assms(1)])
  show "\<exists>j0. find_job i (gua_jobs (db (c_world s))) = Some j0 \<and> active j0 \<and> group_name j0 = group_name j"
    if "find_job i (gua_jobs (db (c_world t))) = Some j" "active j" for i j
    using that assms(2) by simp
  show "due_in (abs_queue (db (c_world t))) i (group_name j) \<or> in_flight (c_flights t) i (group_name j)"
    if "f \<in> set (c_flights s)" "occurrence_of i (group_name j) (r_args (fst f))" "carries i (group_name j) (snd f)" for i j f
    using that assms(4) [OF that(1)] unfolding in_flight_def by blast
qed (use assms(3) in blast)

lemma pending_states: "pending_delivery r \<longleftrightarrow> Kind (r_args r) = ''gua_delivery'' \<and> r_state r \<in> {Available, Scheduled, Retryable, Pending}"
  by (simp add: pending_delivery_def pendingStates_def)

text \<open>The end of a run.\<close>

lemma covered_finish:
  assumes "life_inv cfg s" and "covered s" and "(row, g) \<in> set (c_flights s)"
    and rows: "set (river_job (db (c_world s))) \<subseteq> set (river_job (db w))" and "wf_world w"
    and jobs: "\<And>i j. find_job i (gua_jobs (db w)) = Some j \<Longrightarrow> active j \<Longrightarrow>
      \<exists>j0. find_job i (gua_jobs (db (c_world s))) = Some j0 \<and> active j0 \<and> group_name j0 = group_name j"
    and leaves: "\<And>i j. find_job i (gua_jobs (db w)) = Some j \<Longrightarrow> active j \<Longrightarrow> occurrence_of i (group_name j) (r_args row) \<Longrightarrow>
      carries i (group_name j) g \<Longrightarrow> after_work r row = Retryable \<or> due_in (abs_queue (db w)) i (group_name j)"
  shows "covered (moved (row, g) [] (finish row r w) s)"
proof -
  let ?row = "row\<lparr>r_state := after_work r row\<rparr>" and ?t = "moved (row, g) [] (finish row r w) s"
  have run: "row \<in> set (river_job (db w))" "r_state row = Running"
    using flight_row [OF assms(1,3)] rows by auto
  have w: "gua_jobs (db (c_world ?t)) = gua_jobs (db w)"
    "set (river_job (db (c_world ?t))) = insert ?row (set (river_job (db w)) - {row})"
    "c_flights ?t = filter (\<lambda>f. f \<noteq> (row, g)) (c_flights s)"
    using replace_row_set [OF assms(5) run(1), of ?row] by (simp_all add: moved_def finish_def)
  have kept: "due_in (abs_queue (db (c_world ?t))) i h" if "due_in (abs_queue (db w)) i h" for i h
  proof -
    from that obtain r where r: "r \<in> set (river_job (db w))" "pending_delivery r" "occurrence_of i h (r_args r)"
      by (auto simp: due_in_rows)
    then have "r \<noteq> row" using run(2) by (auto simp: pending_states)
    with r show ?thesis unfolding due_in_rows w by blast
  qed
  show ?thesis
  proof (rule covered_change [OF assms(2)])
    show "\<exists>j0. find_job i (gua_jobs (db (c_world s))) = Some j0 \<and> active j0 \<and> group_name j0 = group_name j"
      if "find_job i (gua_jobs (db (c_world ?t))) = Some j" "active j" for i j
      using that jobs unfolding w by blast
    show "due_in (abs_queue (db (c_world ?t))) i (group_name j) \<or> in_flight (c_flights ?t) i (group_name j)"
      if "r \<in> set (river_job (db (c_world s)))" "pending_delivery r" "occurrence_of i (group_name j) (r_args r)" for i j r
    proof -
      have "due_in (abs_queue (db w)) i (group_name j)" unfolding due_in_rows using that rows by blast
      from kept [OF this] show ?thesis ..
    qed
    show "due_in (abs_queue (db (c_world ?t))) i (group_name j) \<or> in_flight (c_flights ?t) i (group_name j)"
      if j: "find_job i (gua_jobs (db (c_world ?t))) = Some j" "active j"
        and f: "f \<in> set (c_flights s)" "occurrence_of i (group_name j) (r_args (fst f))" "carries i (group_name j) (snd f)" for i j f
    proof (cases "f = (row, g)")
      case False
      then have "f \<in> set (c_flights ?t)" using f(1) unfolding w by simp
      from flight_covers [OF this f(2,3)] show ?thesis ..
    next
      case True
      with leaves [of i j] j f w have "after_work r row = Retryable \<or> due_in (abs_queue (db w)) i (group_name j)" by simp
      then show ?thesis
      proof
        assume "due_in (abs_queue (db w)) i (group_name j)"
        then show ?thesis using kept by blast
      next
        assume "after_work r row = Retryable"
        moreover have "Kind (r_args row) = ''gua_delivery''" using f(2) True by (auto simp: occurrence_of_def)
        ultimately have "pending_delivery ?row" by (simp add: pending_states)
        moreover have "occurrence_of i (group_name j) (r_args ?row)" using f(2) True by simp
        moreover have "?row \<in> set (river_job (db (c_world ?t)))" unfolding w by blast
        ultimately show ?thesis unfolding due_in_rows by blast
      qed
    qed
  qed
qed

lemma wf_finds: "wf_world w \<Longrightarrow> find_job i (gua_jobs (db w)) = Some j \<Longrightarrow> wf_job j"
  by (auto simp: wf_world_def wf_tables_def list_all_iff dest: find_job_SomeD)

lemma occurrence_job: "occurrence_of i h a \<Longrightarrow> arg_job a = i"
  by (auto simp: occurrence_of_def)

lemma covered_skip:
  assumes "life_inv cfg s" and "covered s" and "(row, Fetched) \<in> set (c_flights s)"
    and "work_load (arg_job (r_args row)) ((c_world s)\<lparr>fate := []\<rparr>) = (Inl r, w)"
  shows "covered (moved (row, Fetched) [] (finish row r w) s)"
proof -
  let ?v = "(c_world s)\<lparr>fate := []\<rparr>"
  have "work_load (arg_job (r_args row)) ?v = (case find_job (arg_job (r_args row)) (gua_jobs (db ?v)) of
      Some df \<Rightarrow> if active df then Inr df else Inl Done | None \<Rightarrow> Inl Done, ?v)"
    by (rule calm_work_load) simp
  with assms(4) have w: "db w = db (c_world s)" "wf_world w" and
    none: "\<And>j. find_job (arg_job (r_args row)) (gua_jobs (db (c_world s))) = Some j \<Longrightarrow> \<not> active j"
    using assms(1) by (auto simp: life_inv_def split: option.splits if_splits)
  show ?thesis
  proof (rule covered_finish [OF assms(1-3) _ w(2)])
    fix i j assume "find_job i (gua_jobs (db w)) = Some j" "active j" "occurrence_of i (group_name j) (r_args row)"
    with none occurrence_job show "after_work r row = Retryable \<or> due_in (abs_queue (db w)) i (group_name j)"
      unfolding w by metis
  qed (auto simp: w)
qed

lemma covered_load:
  assumes "life_inv cfg s" and "covered s" and "(row, Fetched) \<in> set (c_flights s)"
    and "work_load (arg_job (r_args row)) ((c_world s)\<lparr>fate := fs\<rparr>) = (Inr df, w)"
  shows "covered (moved (row, Fetched) [(row, Loaded df)] w s)"
proof -
  let ?t = "moved (row, Fetched) [(row, Loaded df)] w s"
  have db: "db (c_world ?t) = db (c_world s)" using work_load_result(1) [OF assms(4)] by (simp add: moved_def)
  have df: "find_job (arg_job (r_args row)) (gua_jobs (db (c_world s))) = Some df"
    using work_load_result(4) [OF assms(4)] by simp
  have fl: "c_flights ?t = (row, Loaded df) # filter (\<lambda>g. g \<noteq> (row, Fetched)) (c_flights s)"
    by (simp add: moved_def)
  show ?thesis
  proof (rule covered_change [OF assms(2)])
    fix i j f assume j: "find_job i (gua_jobs (db (c_world ?t))) = Some j" "active j"
      and f: "f \<in> set (c_flights s)" "occurrence_of i (group_name j) (r_args (fst f))" "carries i (group_name j) (snd f)"
    show "due_in (abs_queue (db (c_world ?t))) i (group_name j) \<or> in_flight (c_flights ?t) i (group_name j)"
    proof (cases "f = (row, Fetched)")
      case False
      then have "f \<in> set (c_flights ?t)" using f(1) unfolding fl by simp
      from flight_covers [OF this f(2,3)] show ?thesis ..
    next
      case True
      then have "arg_job (r_args row) = i" using f(2) occurrence_job by simp
      with df j(1) have "j = df" "job_id df = i" unfolding db by (auto dest: find_job_SomeD)
      moreover have "wf_job df" using wf_finds [OF _ df] assms(1) by (simp add: life_inv_def)
      ultimately have "carries i (group_name j) (Loaded df)" by simp
      moreover have "occurrence_of i (group_name j) (r_args row)" using f(2) True by simp
      moreover have "(row, Loaded df) \<in> set (c_flights ?t)" unfolding fl by simp
      ultimately have "in_flight (c_flights ?t) i (group_name j)" using flight_covers by fastforce
      then show ?thesis ..
    qed
  qed (auto simp: db due_in_rows)
qed

lemma covered_deliver:
  assumes "covered s" and "(row, Loaded df) \<in> set (c_flights s)"
    and "work_deliver cfg c (r_id row) (arg_plan (r_args row)) df ((c_world s)\<lparr>fate := fs\<rparr>) = (resp, sent, w)"
  shows "covered ((moved (row, Loaded df) [(row, Delivered df resp)] w s)\<lparr>c_sends := ss\<rparr>)"
proof -
  let ?t = "(moved (row, Loaded df) [(row, Delivered df resp)] w s)\<lparr>c_sends := ss\<rparr>"
  have db: "gua_jobs (db (c_world ?t)) = gua_jobs (db (c_world s))" "river_job (db (c_world ?t)) = river_job (db (c_world s))"
    using work_deliver_keeps [OF assms(3)] by (simp_all add: moved_def)
  have fl: "c_flights ?t = (row, Delivered df resp) # filter (\<lambda>g. g \<noteq> (row, Loaded df)) (c_flights s)"
    by (simp add: moved_def)
  show ?thesis
  proof (rule covered_change [OF assms(1)])
    fix i j f assume f: "f \<in> set (c_flights s)" "occurrence_of i (group_name j) (r_args (fst f))" "carries i (group_name j) (snd f)"
    show "due_in (abs_queue (db (c_world ?t))) i (group_name j) \<or> in_flight (c_flights ?t) i (group_name j)"
    proof (cases "f = (row, Loaded df)")
      case True
      then have "occurrence_of i (group_name j) (r_args row)" "carries i (group_name j) (Delivered df resp)"
        using f(2,3) by simp_all
      moreover have "(row, Delivered df resp) \<in> set (c_flights ?t)" unfolding fl by simp
      ultimately have "in_flight (c_flights ?t) i (group_name j)" using flight_covers by fastforce
      then show ?thesis ..
    next
      case False
      then have "f \<in> set (c_flights ?t)" using f(1) unfolding fl by simp
      from flight_covers [OF this f(2,3)] show ?thesis ..
    qed
  qed (use db due_in_rows in auto)
qed

text \<open>The end of \<open>Work\<close> on a store that works: what it does to the definitions and the occurrences.\<close>

definition descends :: "world \<Rightarrow> world \<Rightarrow> bool" where
  "descends w w' \<longleftrightarrow> set (river_job (db w)) \<subseteq> set (river_job (db w')) \<and>
     (\<forall>i j. find_job i (gua_jobs (db w')) = Some j \<longrightarrow> active j \<longrightarrow>
        (\<exists>j0. find_job i (gua_jobs (db w)) = Some j0 \<and> active j0 \<and> group_name j0 = group_name j))"

lemma descends_same: "db w' = db w \<Longrightarrow> descends w w'"
  by (simp add: descends_def)

lemma descends_paused:
  assumes "db w' = (db w)\<lparr>gua_jobs := map (\<lambda>j. if job_id j = i then j\<lparr>active := False\<rparr> else j) (gua_jobs (db w))\<rparr>"
  shows "descends w w'"
  by (auto simp: descends_def assms find_job_map)

lemma descends_dropped:
  assumes "db w' = (db w)\<lparr>gua_jobs := filter (\<lambda>j. job_id j \<noteq> i) (gua_jobs (db w))\<rparr>"
    and "distinct (map job_id (gua_jobs (db w)))"
  shows "descends w w'"
  by (auto simp: descends_def assms find_job_filter [OF assms(2)] split: option.splits if_splits)

lemma descends_rescheduled: "db w' = rescheduled cfg i g at w \<Longrightarrow> descends w w'"
  by (auto simp: descends_def rescheduled_def find_job_map)

lemma settle_descends:
  assumes "work_settle cfg loc row df resp w = (r, w')" and "wf_world w"
  shows "descends w w'"
  using assms(1)
proof (cases rule: settle_cases)
  case same
  then have "db w' = db w" by (elim disjE) (simp_all add: time_Now_def)
  then show ?thesis by (rule descends_same)
next
  case paused
  with paused_rows [of "job_id df" w] descends_same descends_paused show ?thesis by blast
next
  case dropped
  have "distinct (map job_id (gua_jobs (db w)))" using assms(2) by (simp add: wf_world_def wf_tables_def)
  with dropped dropped_rows [of "job_id df" w] descends_same descends_dropped show ?thesis by blast
next
  case (scheduled at x)
  let ?v = "snd (time_Now w)"
  have v: "db ?v = db w" by (simp add: time_Now_def)
  from scheduleNext_result(2) [OF scheduled] have "descends ?v w'"
    using descends_same descends_rescheduled by blast
  then show ?thesis by (simp add: descends_def v)
qed

text \<open>A definition that is still active has its next occurrence, or the attempt is retried.\<close>

lemma settle_leaves:
  assumes "work_settle cfg loc row df resp w = (r, w')" and "r \<noteq> Hangs" and "fate w = []" and "wf_job df"
    and j: "find_job (job_id df) (gua_jobs (db w')) = Some j" "active j"
  shows "after_work r row = Retryable \<or> due_in (abs_queue (db w')) (job_id df) (group_name df)"
proof (cases resp)
  case (Inl e)
  then have s: "settle_failure row df e w = (r, w')" using assms(1) by (simp add: work_settle_def)
  have "r_attempt row < r_max row"
  proof (rule ccontr)
    assume "\<not> r_attempt row < r_max row"
    with s have "w' = snd (pause_job (job_id df) w)" by (simp add: settle_failure_def)
    then show False using j by (auto simp: calm_pause_job [OF assms(3)] find_job_map dest: find_job_SomeD)
  qed
  with settle_failure_result(1) [OF s] show ?thesis by (simp add: after_work_def)
next
  case (Inr m)
  then have s: "settle_success cfg loc df w = (r, w')" using assms(1) by (simp add: work_settle_def)
  have once: "\<not> IsOnce (interval_pattern df)"
  proof
    assume "IsOnce (interval_pattern df)"
    from settle_once [OF this, of cfg loc w] s have "w' = snd (drop_job (job_id df) w)" by simp
    then show False using j find_job_SomeD [OF j(1)] by (auto simp: calm_drop_job [OF assms(3)])
  qed
  with assms(4) obtain sch where p: "Parse (interval_pattern df) = Inr sch"
    by (auto simp: wf_job_def ValidatePattern_def split: sum.splits if_splits)
  let ?v = "snd (time_Now w)"
  obtain at where at: "sched_next loc sch (clock w (reads w)) = Some at"
    using s assms(2) once p by (cases "sched_next loc sch (clock w (reads w))") (auto simp: settle_success_def time_Now_def)
  have v: "fate ?v = []" "db ?v = db w" using assms(3) by (simp_all add: time_Now_def)
  show ?thesis
  proof (cases "filter (\<lambda>j. job_id j = job_id df \<and> active j) (gua_jobs (db ?v)) = []")
    case True
    with s settle_next [OF once p at, of cfg] have "w' = ?v" by (simp add: calm_scheduleNext [OF v(1)])
    then have "db w' = db w" using v(2) by simp
    with True j find_job_SomeD [OF j(1)] show ?thesis by (auto simp: v(2) filter_empty_conv)
  next
    case False
    with s settle_next [OF once p at, of cfg] have "db w' = rescheduled cfg (job_id df) (group_name df) at ?v"
      by (auto simp: calm_scheduleNext [OF v(1)])
    then have "occurrence_at cfg (next_row ?v) (job_id df) (group_name df) at (clock ?v (reads ?v)) \<in> set (river_job (db w'))"
      by (simp add: rescheduled_def)
    then show ?thesis unfolding due_in_rows by (intro disjI2 bexI) (auto simp: occurrence_about(4))
  qed
qed

lemma covered_settle:
  assumes "life_inv cfg s" and "covered s" and "(row, Delivered df resp) \<in> set (c_flights s)"
    and "work_settle cfg loc row df resp ((c_world s)\<lparr>fate := []\<rparr>) = (r, w)" and "r \<noteq> Hangs"
  shows "covered (moved (row, Delivered df resp) [] (finish row r w) s)"
proof -
  have wf: "wf_world ((c_world s)\<lparr>fate := []\<rparr>)" using assms(1) by (simp add: life_inv_def)
  have d: "descends (c_world s) w" using settle_descends [OF assms(4) wf] by (simp add: descends_def)
  show ?thesis
  proof (rule covered_finish [OF assms(1-3)])
    show "wf_world w" by (rule wf_work_settle [OF assms(4) wf])
    show "set (river_job (db (c_world s))) \<subseteq> set (river_job (db w))" using d by (simp add: descends_def)
    fix i j assume j: "find_job i (gua_jobs (db w)) = Some j" "active j"
    with d show "\<exists>j0. find_job i (gua_jobs (db (c_world s))) = Some j0 \<and> active j0 \<and> group_name j0 = group_name j"
      by (simp add: descends_def)
    assume "carries i (group_name j) (Delivered df resp)"
    then have df: "i = job_id df" "group_name j = group_name df" "wf_job df" by simp_all
    from settle_leaves [OF assms(4,5) _ df(3)] j
    show "after_work r row = Retryable \<or> due_in (abs_queue (db w)) i (group_name j)" by (simp add: df(1,2))
  qed
qed

section \<open>River's own steps\<close>

lemma covered_replace:
  assumes "life_inv cfg s" and "covered s" and row: "row \<in> set (river_job (db (c_world s)))" "r_id row' = r_id row"
    and "\<And>f. f \<in> set (c_flights s) \<Longrightarrow> f \<in> set fl"
    and "\<And>i h. pending_delivery row \<Longrightarrow> occurrence_of i h (r_args row) \<Longrightarrow>
      pending_delivery row' \<and> occurrence_of i h (r_args row') \<or> in_flight fl i h"
  shows "covered (s\<lparr>c_world := replace_row row' (c_world s), c_flights := fl\<rparr>)"
proof (rule covered_same [OF assms(2)])
  have "wf_world (c_world s)" using assms(1) by (simp add: life_inv_def)
  note rows = replace_row_set [OF this row]
  fix r i h assume r: "r \<in> set (river_job (db (c_world s)))" "pending_delivery r" "occurrence_of i h (r_args r)"
  let ?t = "s\<lparr>c_world := replace_row row' (c_world s), c_flights := fl\<rparr>"
  show "due_in (abs_queue (db (c_world ?t))) i h \<or> in_flight (c_flights ?t) i h"
  proof (cases "r = row")
    case True
    with assms(6) [of i h] r show ?thesis by (auto simp: due_in_rows rows)
  next
    case False
    with r have "due_in (abs_queue (db (c_world ?t))) i h" by (auto simp: due_in_rows rows)
    then show ?thesis ..
  qed
qed (simp_all add: assms(5))

lemma covered_step:
  assumes "step cfg loc False s s'" and "life_inv cfg s" and "covered s"
  shows "covered s'"
  using assms(1)
proof (cases rule: step.cases)
  case (request rq fs)
  show ?thesis unfolding request
    by (rule covered_request [OF assms(3)]) (use assms(2) in \<open>simp_all add: life_inv_def\<close>)
next
  case (prune fs)
  have d: "gua_jobs (db (snd (prune_Work cfg ((c_world s)\<lparr>fate := fs\<rparr>)))) = gua_jobs (db (c_world s))"
    "river_job (db (snd (prune_Work cfg ((c_world s)\<lparr>fate := fs\<rparr>)))) = river_job (db (c_world s))"
    using prune_result [OF surjective_pairing, of cfg "(c_world s)\<lparr>fate := fs\<rparr>"] by auto
  show ?thesis unfolding prune using d by (intro covered_same [OF assms(3)]) (auto simp: due_in_rows)
next
  case (promote row)
  have "covered (s\<lparr>c_world := replace_row (row\<lparr>r_state := Available\<rparr>) (c_world s), c_flights := c_flights s\<rparr>)"
    by (rule covered_replace [OF assms(2,3) promote(2)]) (auto simp: pending_states)
  then show ?thesis unfolding promote(1) by simp
next
  case (fetch row run)
  show ?thesis unfolding fetch(1)
    by (rule covered_replace [OF assms(2,3) fetch(2)]) (auto simp: fetch(5) in_flight_def)
next
  case (skip row fs r w)
  then show ?thesis using covered_skip [OF assms(2,3)] by simp
next
  case (load row fs df w)
  then show ?thesis using covered_load [OF assms(2,3)] by simp
next
  case (deliver row df c fs resp sent w)
  show ?thesis unfolding deliver(1) by (rule covered_deliver [OF assms(3) deliver(2,3)])
next
  case (settle row df resp fs r w)
  then show ?thesis using covered_settle [OF assms(2,3)] by simp
next
  case (rescue row)
  have "covered (s\<lparr>c_world := replace_row (row\<lparr>r_state := if r_attempt row < r_max row then Retryable else Discarded\<rparr>) (c_world s),
      c_flights := c_flights s\<rparr>)"
    by (rule covered_replace [OF assms(2,3) rescue(2)]) (use rescue(3) in \<open>auto simp: pending_states\<close>)
  then show ?thesis unfolding rescue(1) by simp
next
  case (clean k)
  show ?thesis
    by (rule covered_same [OF assms(3)]) (auto simp: clean due_in_rows pending_states)
qed simp

lemma covered_reachable:
  assumes "reachable cfg loc False s t" and "life_inv cfg s" and "covered s" and "0 < MaxAttempts cfg"
  shows "covered t"
proof -
  from assms(1) have "covered t \<and> life_inv cfg t"
    by (induction rule: reachable.induct)
      (use assms(2-4) in \<open>auto intro: covered_step life_step\<close>)
  then show ?thesis ..
qed

end
