(* ===== verification/Cluster_Theorems.thy ===== *)
theory Cluster_Theorems
  imports Cluster_Coverage Worker_Theorems
begin

text \<open>
  The properties of a whole cluster: every interleaving of requests, workers, crashes and River's
  own steps, over any number of nodes, from a store at rest.
\<close>

definition resting :: "config \<Rightarrow> cluster \<Rightarrow> bool" where
  "resting cfg s \<longleftrightarrow> wf_world (c_world s) \<and> (\<forall>k. 0 \<le> clock (c_world s) k) \<and> rows_ok cfg (c_world s) \<and>
     c_flights s = [] \<and> c_sends s = []"

lemma resting_life: "resting cfg s \<Longrightarrow> life_inv cfg s"
  by (simp add: resting_def life_inv_def flights_ok_def sends_ok_def)

lemma rested_life: "reachable cfg loc faulty s t \<Longrightarrow> resting cfg s \<Longrightarrow> 0 < MaxAttempts cfg \<Longrightarrow> life_inv cfg t"
  using life_reachable resting_life by blast

section \<open>A small cluster\<close>

text \<open>
  One recurring job whose occurrence is due, on a queue that keeps no history; the attempts allowed
  are a parameter.
\<close>

definition small_config :: "nat \<Rightarrow> config" where
  "small_config m = demo_config\<lparr>HistoryTTL := 0, MaxAttempts := int m\<rparr>"

definition due_row :: "nat \<Rightarrow> river_row" where
  "due_row m = \<lparr>r_id = 0, r_args = guaJobArgs ''j1'' ''g'' 500, r_state = Available, r_attempt = 0,
     r_max = m, r_at = 500000000000\<rparr>"

definition run_row :: "nat \<Rightarrow> river_row" where
  "run_row m = (due_row m)\<lparr>r_state := Running, r_attempt := 1\<rparr>"

definition small_world :: "river_row list \<Rightarrow> nat \<Rightarrow> world" where
  "small_world rows n = (demo_world [])\<lparr>db := demo_tables\<lparr>river_job := rows\<rparr>, reads := n\<rparr>"

definition small_cluster :: "nat \<Rightarrow> cluster" where
  "small_cluster m = \<lparr>c_world = small_world [due_row m] 0, c_flights = [], c_sends = []\<rparr>"

definition sent_cluster :: "nat \<Rightarrow> cluster" where
  "sent_cluster m = \<lparr>c_world = small_world [run_row m] 2,
     c_flights = [(run_row m, Delivered demo_job (Inr ''ok''))], c_sends = [(0, 1)]\<rparr>"

lemma small_simps [simp]:
  "MaxAttempts (small_config m) = int m" "HistoryTTL (small_config m) = 0"
  "gua_jobs (db (small_world rows n)) = [demo_job]" "river_job (db (small_world rows n)) = rows"
  "fate (small_world rows n) = []" "(small_world rows n)\<lparr>fate := []\<rparr> = small_world rows n"
  "clock (small_world rows n) k = 1000000000000" "reads (small_world rows n) = n"
  "next_row (small_world rows n) = 1" "(small_world rows n)\<lparr>reads := k\<rparr> = small_world rows k"
  by (simp_all add: small_config_def small_world_def demo_tables_def)

lemma row_simps [simp]:
  "r_id (due_row m) = 0" "r_attempt (due_row m) = 0" "r_state (due_row m) = Available" "r_max (due_row m) = m"
  "r_args (due_row m) = guaJobArgs ''j1'' ''g'' 500"
  "r_id (run_row m) = 0" "r_attempt (run_row m) = 1" "r_state (run_row m) = Running" "r_max (run_row m) = m"
  "r_args (run_row m) = guaJobArgs ''j1'' ''g'' 500"
  by (simp_all add: due_row_def run_row_def)

lemma demo_job_simps [simp]: "job_id demo_job = ''j1''" "group_name demo_job = ''g''" "active demo_job"
  "interval_pattern demo_job = ''@every 60s''"
  by (simp_all add: demo_job_def)

lemma small_resting: "0 < m \<Longrightarrow> resting (small_config m) (small_cluster m)"
  using demo_job_wf
  by (simp add: resting_def small_cluster_def wf_world_def wf_tables_def rows_ok_def wf_row_def small_world_def demo_tables_def)

lemma small_find: "find_job ''j1'' (gua_jobs (db (small_world rows n))) = Some demo_job"
  by (simp add: find_job_def)

lemma small_deliver:
  "work_deliver (small_config m) (demo_consumer 200) 0 500 demo_job (small_world rows 0) =
     (Inr ''ok'', fst (snd (work_deliver (small_config m) (demo_consumer 200) 0 500 demo_job (small_world rows 0))), small_world rows 2) \<and>
   length (fst (snd (work_deliver (small_config m) (demo_consumer 200) 0 500 demo_job (small_world rows 0)))) = 1"
proof -
  have u: "SplitRequestURL (request_url demo_job) = Inr (''HTTP'', ''http://c'')" by code_simp
  show ?thesis
    by (simp add: work_deliver_def deliver_def u Let_def time_Now_def recordExecution_def deliver_http_def
        PostRaw_def demo_consumer_def case_prod_beta numeral_2_eq_2)
qed

lemma reach_sent: "reachable (small_config m) loc faulty (small_cluster m) (sent_cluster m)"
proof -
  let ?cfg = "small_config m"
  let ?s1 = "\<lparr>c_world = small_world [run_row m] 0, c_flights = [(run_row m, Fetched)], c_sends = []\<rparr>"
  let ?s2 = "\<lparr>c_world = small_world [run_row m] 0, c_flights = [(run_row m, Loaded demo_job)], c_sends = []\<rparr>"
  have replaced: "replace_row (run_row m) (small_world [due_row m] 0) = small_world [run_row m] 0"
    by (simp add: replace_row_def small_world_def)
  have run: "run_row m = (due_row m)\<lparr>r_state := Running, r_attempt := Suc (r_attempt (due_row m))\<rparr>"
    by (simp add: run_row_def)
  have "step ?cfg loc faulty (small_cluster m) ((small_cluster m)\<lparr>c_world := replace_row (run_row m) (c_world (small_cluster m)),
      c_flights := (run_row m, Fetched) # c_flights (small_cluster m)\<rparr>)"
    by (rule step.fetch [OF _ _ _ run]) (simp_all add: small_cluster_def)
  then have 1: "step ?cfg loc faulty (small_cluster m) ?s1" by (simp add: small_cluster_def replaced)
  have "step ?cfg loc faulty ?s1 (moved (run_row m, Fetched) [(run_row m, Loaded demo_job)] (small_world [run_row m] 0) ?s1)"
    by (rule step.load [where fs = "[]"]) (simp_all add: calm_work_load find_job_def)
  then have 2: "step ?cfg loc faulty ?s1 ?s2" by (simp add: moved_def)
  from small_deliver [of m "[run_row m]"] obtain sent where
    d: "work_deliver ?cfg (demo_consumer 200) 0 500 demo_job (small_world [run_row m] 0) = (Inr ''ok'', sent, small_world [run_row m] 2)"
    "length sent = 1" by metis
  have "step ?cfg loc faulty ?s2 ((moved (run_row m, Loaded demo_job) [(run_row m, Delivered demo_job (Inr ''ok''))]
      (small_world [run_row m] 2) ?s2)\<lparr>c_sends := map (\<lambda>_. attempt_key (run_row m)) sent @ c_sends ?s2\<rparr>)"
    by (rule step.deliver [where fs = "[]" and c = "demo_consumer 200"]) (simp_all add: d(1))
  then have 3: "step ?cfg loc faulty ?s2 (sent_cluster m)"
    using d(2) by (cases sent) (simp_all add: moved_def sent_cluster_def attempt_key_def)
  show ?thesis by (rule reachable.after [OF reachable.after [OF reachable.after [OF reachable.start 1] 2] 3])
qed

section \<open>Every interleaving\<close>



text \<open>Two workers never run the same occurrence at the same time.\<close>

theorem one_worker_per_occurrence:
  assumes "reachable cfg loc faulty s t" and "resting cfg s" and "0 < MaxAttempts cfg"
    and "f \<in> set (c_flights t)" and "g \<in> set (c_flights t)" and "r_id (fst f) = r_id (fst g)"
  shows "f = g"
proof -
  have "life_inv cfg t" by (rule rested_life [OF assms(1-3)])
  then have "inj_on (r_id \<circ> fst) (set (c_flights t))"
    unfolding life_inv_def flights_ok_def distinct_map by blast
  from inj_onD [OF this _ assms(4,5)] assms(6) show ?thesis by simp
qed

theorem one_worker_per_occurrence_witness:
  "let f = (run_row 25, Delivered demo_job (Inr ''ok'')) in f \<in> set (c_flights (sent_cluster 25)) \<and> f = f"
  using one_worker_per_occurrence [OF reach_sent [where m = 25 and loc = "zone 0" and faulty = True] small_resting,
      of "(run_row 25, Delivered demo_job (Inr ''ok''))" "(run_row 25, Delivered demo_job (Inr ''ok''))"]
  by (simp add: sent_cluster_def)

text \<open>C6: deliveries are bounded. A firing reaches its consumer at most once per attempt and at most
  \<open>MaxAttempts\<close> times in all, although workers crash, are rescued and race with requests.\<close>

theorem attempts_bounded:
  assumes "reachable cfg loc faulty s t" and "resting cfg s" and "0 < MaxAttempts cfg"
  shows "distinct (c_sends t) \<and> length (filter (\<lambda>e. fst e = k) (c_sends t)) \<le> nat (MaxAttempts cfg)"
proof -
  let ?F = "filter (\<lambda>e. fst e = k) (c_sends t)"
  have i: "sends_ok cfg t" using rested_life [OF assms] by (simp add: life_inv_def)
  then have d: "distinct (c_sends t)" by (simp add: sends_ok_def)
  have "set ?F \<subseteq> Pair k ` {1..nat (MaxAttempts cfg)}"
    using i by (auto simp: sends_ok_def image_iff Ball_def Suc_le_eq)
  then have "card (set ?F) \<le> card (Pair k ` {1..nat (MaxAttempts cfg)})" by (intro card_mono) simp_all
  also have "\<dots> \<le> nat (MaxAttempts cfg)" using card_image_le [of "{1..nat (MaxAttempts cfg)}" "Pair k"] by simp
  finally show ?thesis using d distinct_card [of ?F] by simp
qed

theorem attempts_bounded_witness:
  "length (filter (\<lambda>e. fst e = 0) (c_sends (sent_cluster 1))) \<le> 1 \<and> c_sends (sent_cluster 1) = [(0, 1)]"
  using attempts_bounded [OF reach_sent [where m = 1 and loc = "zone 0" and faulty = True] small_resting, of 0]
  by (simp add: sent_cluster_def)



section \<open>A due occurrence can fire\<close>

lemma valid_target_sent:
  assumes "\<not> isl (SplitRequestURL (request_url df))"
  shows "\<exists>resp d w'. work_deliver cfg (demo_consumer 200) k p df w = (resp, [d], w')"
proof -
  obtain kind target where u: "SplitRequestURL (request_url df) = Inr (kind, target)"
    using assms by (cases "SplitRequestURL (request_url df)") auto
  then have "kind = ''HTTP'' \<or> kind = ''GRPC''" by (simp add: SplitRequestURL_iff)
  then show ?thesis
    by (auto simp: work_deliver_def deliver_def u Let_def time_Now_def demo_consumer_def)
qed

lemma reachable_trans: "reachable cfg loc faulty t u \<Longrightarrow> reachable cfg loc faulty s t \<Longrightarrow> reachable cfg loc faulty s u"
  by (induction rule: reachable.induct) (auto intro: reachable.after)

text \<open>An occurrence that is available is sent in three steps.\<close>

lemma available_fires:
  assumes "life_inv cfg t" and "r \<in> set (river_job (db (c_world t)))" and "r_state r = Available"
    and "Kind (r_args r) = ''gua_delivery''"
    and "find_job (arg_job (r_args r)) (gua_jobs (db (c_world t))) = Some df" and "active df"
  shows "\<exists>u. reachable cfg loc faulty t u \<and> c_sends u = (r_id r, Suc (r_attempt r)) # c_sends t"
proof -
  let ?run = "r\<lparr>r_state := Running, r_attempt := Suc (r_attempt r)\<rparr>"
  let ?t1 = "t\<lparr>c_world := replace_row ?run (c_world t), c_flights := (?run, Fetched) # c_flights t\<rparr>"
  let ?w = "(c_world ?t1)\<lparr>fate := []\<rparr>"
  let ?t2 = "moved (?run, Fetched) [(?run, Loaded df)] ?w ?t1"
  have 1: "step cfg loc faulty t ?t1" by (rule step.fetch [OF assms(2-4) refl])
  have "work_load (arg_job (r_args ?run)) ?w = (Inr df, ?w)"
    using assms(5,6) by (simp add: calm_work_load)
  from step.load [OF _ this, where faulty = faulty] have 2: "step cfg loc faulty ?t1 ?t2" by simp
  have "wf_job df" using wf_finds [OF _ assms(5)] assms(1) by (simp add: life_inv_def)
  then have "\<not> isl (SplitRequestURL (request_url df))" by (simp add: wf_job_def)
  from valid_target_sent [OF this] obtain resp d w' where
    d: "work_deliver cfg (demo_consumer 200) (r_id ?run) (arg_plan (r_args ?run)) df ((c_world ?t2)\<lparr>fate := []\<rparr>) = (resp, [d], w')"
    by blast
  let ?u = "(moved (?run, Loaded df) [(?run, Delivered df resp)] w' ?t2)\<lparr>c_sends := map (\<lambda>_. attempt_key ?run) [d] @ c_sends ?t2\<rparr>"
  have "(?run, Loaded df) \<in> set (c_flights ?t2)" by (simp add: moved_def)
  from step.deliver [OF this d, where faulty = faulty] have 3: "step cfg loc faulty ?t2 ?u" .
  have "reachable cfg loc faulty t ?u"
    by (rule reachable.after [OF reachable.after [OF reachable.after [OF reachable.start 1] 2] 3])
  moreover have "c_sends ?u = (r_id r, Suc (r_attempt r)) # c_sends t" by (simp add: moved_def attempt_key_def)
  ultimately show ?thesis by blast
qed

text \<open>C5: a firing cannot get stuck. From every reachable cluster, an occurrence that is available, scheduled
  or waiting for a retry and whose definition is active can be brought to the consumer, with the
  next attempt, whatever went wrong before.\<close>

theorem pending_can_fire:
  assumes "reachable cfg loc faulty s t" and "resting cfg s" and "0 < MaxAttempts cfg"
    and "r \<in> set (river_job (db (c_world t)))" and "r_state r \<in> {Available, Scheduled, Retryable}"
    and "Kind (r_args r) = ''gua_delivery''"
    and "find_job (arg_job (r_args r)) (gua_jobs (db (c_world t))) = Some df" and "active df"
  shows "\<exists>u. reachable cfg loc faulty t u \<and> c_sends u = (r_id r, Suc (r_attempt r)) # c_sends t"
proof (cases "r_state r = Available")
  case True
  from available_fires [OF rested_life [OF assms(1-3)] assms(4) True assms(6-8)] show ?thesis .
next
  case False
  let ?r = "r\<lparr>r_state := Available\<rparr>" and ?t = "t\<lparr>c_world := replace_row (r\<lparr>r_state := Available\<rparr>) (c_world t)\<rparr>"
  from False assms(5) have "r_state r \<in> {Scheduled, Retryable}" by simp
  from step.promote [OF assms(4) this, of cfg loc faulty] have 1: "step cfg loc faulty t ?t" .
  have i: "life_inv cfg t" by (rule rested_life [OF assms(1-3)])
  then have "wf_world (c_world t)" by (simp add: life_inv_def)
  from replace_row_set [OF this assms(4), of ?r] have "?r \<in> set (river_job (db (c_world ?t)))" by simp
  from available_fires [OF life_step [OF 1 i assms(3)] this, of df loc faulty] assms(6-8) obtain u where
    "reachable cfg loc faulty ?t u" "c_sends u = (r_id r, Suc (r_attempt r)) # c_sends t" by auto
  with reachable_trans [OF this(1) reachable.after [OF reachable.start 1]] show ?thesis by blast
qed

theorem pending_can_fire_witness:
  "\<exists>u. reachable (small_config 25) (zone 0) False (small_cluster 25) u \<and> c_sends u = [(0, 1)]"
proof -
  have "due_row 25 \<in> set (river_job (db (c_world (small_cluster 25))))"
    "find_job (arg_job (r_args (due_row 25))) (gua_jobs (db (c_world (small_cluster 25)))) = Some demo_job"
    by (simp_all add: small_cluster_def find_job_def)
  from pending_can_fire [OF reachable.start small_resting _ this(1) _ _ this(2), of "zone 0" False] show ?thesis
    by (simp add: small_cluster_def)
qed

section \<open>Where the chain breaks or forks\<close>

lemma minute_settles:
  "\<exists>at. work_settle cfg (zone 0) row demo_job (Inr m) w =
    (case scheduleNext cfg ''j1'' ''g'' at (snd (time_Now w)) of
       (Inl e, w2) \<Rightarrow> (Failed (StoreError e), w2) | (Inr _, w2) \<Rightarrow> (Done, w2))"
proof -
  have "\<not> isl (Parse ''@every 60s'')" by code_simp
  then obtain sch where p: "Parse (interval_pattern demo_job) = Inr sch" by (cases "Parse ''@every 60s''") simp_all
  from sched_next_later [OF p, of 0 "clock w (reads w)"] obtain at
    where at: "sched_next (zone 0) sch (clock w (reads w)) = Some at" by blast
  have "\<not> IsOnce (interval_pattern demo_job)" by (simp add: IsOnce_def)
  from settle_next [OF this p at, of cfg] show ?thesis by (auto simp: work_settle_def)
qed

lemma minute_reschedules:
  assumes "fate w = []" and "gua_jobs (db w) = [j]" and "job_id j = ''j1''" and "active j"
  shows "\<exists>at w2. work_settle cfg (zone 0) row demo_job (Inr m) w = (Done, w2) \<and>
    db w2 = rescheduled cfg ''j1'' ''g'' at (snd (time_Now w))"
proof -
  from minute_settles obtain at where
    s: "work_settle cfg (zone 0) row demo_job (Inr m) w =
      (case scheduleNext cfg ''j1'' ''g'' at (snd (time_Now w)) of
       (Inl e, w2) \<Rightarrow> (Failed (StoreError e), w2) | (Inr _, w2) \<Rightarrow> (Done, w2))" by blast
  have v: "fate (snd (time_Now w)) = []" "db (snd (time_Now w)) = db w" using assms(1) by (simp_all add: time_Now_def)
  show ?thesis unfolding s calm_scheduleNext [OF v(1)] v(2) by (intro exI [of _ at]) (simp add: assms)
qed



end
