(* ===== verification/Grpc_Pool.thy ===== *)
theory Grpc_Pool
  imports Gua_Prelude
begin

text \<open>
  The pool of \<open>delayquene/grpcpool.go\<close>: \<open>conn\<close> and \<open>Close\<close> as the steps of goroutines
  that share a map under a \<open>sync.RWMutex\<close>. Each line that touches the mutex or the map is a step,
  and the steps of any number of goroutines interleave. What \<open>grpc.NewClient\<close> answers for a target
  is a parameter; a connection it makes is a number that was not used before.
\<close>

section \<open>The pool and its goroutines\<close>

datatype pool_call = ConnCall string | CloseCall

text \<open>Where a goroutine is: between which lines of \<open>conn\<close> or \<open>Close\<close>.\<close>

datatype place =
    Begin
  | Reading
  | ReadDone "nat option"
  | Missed
  | Writing
  | Dialled nat
  | Closing "nat set"
  | Leaving "string + nat option"
  | Returned "string + nat option"

record grpcClientPool =
  mu_readers :: "nat set"
  mu_writer :: "nat option"
  conns :: "string \<rightharpoonup> nat"
  made :: "nat \<rightharpoonup> string"
  shut :: "nat set"
  unused :: nat
  place_of :: "nat \<Rightarrow> place"

definition newGrpcClientPool :: grpcClientPool where
  "newGrpcClientPool = \<lparr>mu_readers = {}, mu_writer = None, conns = Map.empty, made = Map.empty,
     shut = {}, unused = 0, place_of = (\<lambda>_. Begin)\<rparr>"

definition goes :: "nat \<Rightarrow> place \<Rightarrow> grpcClientPool \<Rightarrow> grpcClientPool" where
  "goes i q p = p\<lparr>place_of := (place_of p)(i := q)\<rparr>"

text \<open>The lines of \<open>conn\<close>, up to the return of a connection that is in the map.\<close>

inductive conn_step :: "(string \<Rightarrow> string option) \<Rightarrow> nat \<Rightarrow> string \<Rightarrow> grpcClientPool \<Rightarrow> grpcClientPool \<Rightarrow> bool"
  for newClient i target p where
  RLock: "place_of p i = Begin \<Longrightarrow> mu_writer p = None \<Longrightarrow>
    conn_step newClient i target p (goes i Reading (p\<lparr>mu_readers := insert i (mu_readers p)\<rparr>))"
| look: "place_of p i = Reading \<Longrightarrow>
    conn_step newClient i target p (goes i (ReadDone (conns p target)) p)"
| RUnlock: "place_of p i = ReadDone c \<Longrightarrow>
    conn_step newClient i target p
      (goes i (case c of Some k \<Rightarrow> Returned (Inr (Some k)) | None \<Rightarrow> Missed) (p\<lparr>mu_readers := mu_readers p - {i}\<rparr>))"
| Lock: "place_of p i = Missed \<Longrightarrow> mu_writer p = None \<Longrightarrow> mu_readers p = {} \<Longrightarrow>
    conn_step newClient i target p (goes i Writing (p\<lparr>mu_writer := Some i\<rparr>))"
| recheck: "place_of p i = Writing \<Longrightarrow> conns p target = Some k \<Longrightarrow>
    conn_step newClient i target p (goes i (Leaving (Inr (Some k))) p)"
| refused: "place_of p i = Writing \<Longrightarrow> conns p target = None \<Longrightarrow> newClient target = Some e \<Longrightarrow>
    conn_step newClient i target p (goes i (Leaving (Inl e)) p)"
| dialled: "place_of p i = Writing \<Longrightarrow> conns p target = None \<Longrightarrow> newClient target = None \<Longrightarrow>
    conn_step newClient i target p
      (goes i (Dialled (unused p)) (p\<lparr>made := (made p)(unused p \<mapsto> target), unused := Suc (unused p)\<rparr>))"
| keep: "place_of p i = Dialled k \<Longrightarrow>
    conn_step newClient i target p (goes i (Leaving (Inr (Some k))) (p\<lparr>conns := (conns p)(target \<mapsto> k)\<rparr>))"
| Unlock: "place_of p i = Leaving r \<Longrightarrow>
    conn_step newClient i target p (goes i (Returned r) (p\<lparr>mu_writer := None\<rparr>))"

text \<open>The lines of \<open>Close\<close>; the loop takes the connections in any order.\<close>

inductive Close_step :: "nat \<Rightarrow> grpcClientPool \<Rightarrow> grpcClientPool \<Rightarrow> bool" for i p where
  Lock: "place_of p i = Begin \<Longrightarrow> mu_writer p = None \<Longrightarrow> mu_readers p = {} \<Longrightarrow>
    Close_step i p (goes i (Closing (ran (conns p))) (p\<lparr>mu_writer := Some i\<rparr>))"
| each: "place_of p i = Closing ks \<Longrightarrow> k \<in> ks \<Longrightarrow>
    Close_step i p (goes i (Closing (ks - {k})) (p\<lparr>shut := insert k (shut p)\<rparr>))"
| reset: "place_of p i = Closing {} \<Longrightarrow>
    Close_step i p (goes i (Leaving (Inr None)) (p\<lparr>conns := Map.empty\<rparr>))"
| Unlock: "place_of p i = Leaving r \<Longrightarrow>
    Close_step i p (goes i (Returned r) (p\<lparr>mu_writer := None\<rparr>))"

fun pool_step :: "(string \<Rightarrow> string option) \<Rightarrow> nat \<Rightarrow> pool_call \<Rightarrow> grpcClientPool \<Rightarrow> grpcClientPool \<Rightarrow> bool" where
  "pool_step newClient i (ConnCall t) = conn_step newClient i t"
| "pool_step newClient i CloseCall = Close_step i"

text \<open>The runs of goroutines that make the given calls.\<close>

inductive pool_run :: "(string \<Rightarrow> string option) \<Rightarrow> (nat \<Rightarrow> pool_call) \<Rightarrow> grpcClientPool \<Rightarrow> bool"
  for newClient calls where
  start: "pool_run newClient calls newGrpcClientPool"
| after: "pool_run newClient calls p \<Longrightarrow> pool_step newClient i (calls i) p q \<Longrightarrow> pool_run newClient calls q"

section \<open>The invariant\<close>

fun in_read :: "place \<Rightarrow> bool" where
  "in_read Reading = True" | "in_read (ReadDone c) = True" | "in_read _ = False"

fun in_write :: "place \<Rightarrow> bool" where
  "in_write Writing = True" | "in_write (Dialled k) = True" | "in_write (Closing ks) = True"
| "in_write (Leaving r) = True" | "in_write _ = False"

text \<open>What a goroutine of a call knows at its place.\<close>

fun holds :: "grpcClientPool \<Rightarrow> pool_call \<Rightarrow> place \<Rightarrow> bool" where
  "holds p (ConnCall t) (ReadDone (Some k)) = (made p k = Some t \<and> (k \<in> shut p \<or> conns p t = Some k))"
| "holds p (ConnCall t) (Leaving (Inr (Some k))) = (made p k = Some t \<and> (k \<in> shut p \<or> conns p t = Some k))"
| "holds p (ConnCall t) (Returned (Inr (Some k))) = (made p k = Some t \<and> (k \<in> shut p \<or> conns p t = Some k))"
| "holds p (ConnCall t) (Dialled k) = (made p k = Some t \<and> k \<notin> shut p \<and> conns p t = None)"
| "holds p (ConnCall t) (Closing ks) = False"
| "holds p (ConnCall t) q = True"
| "holds p CloseCall (Closing ks) = (ks = ran (conns p) - shut p)"
| "holds p CloseCall (Leaving r) = (conns p = Map.empty \<and> dom (made p) \<subseteq> shut p)"
| "holds p CloseCall q = (q = Begin \<or> (\<exists>r. q = Returned r))"

fun dialling :: "place \<Rightarrow> nat option" where
  "dialling (Dialled k) = Some k" | "dialling _ = None"

fun closing :: "place \<Rightarrow> bool" where
  "closing (Closing ks) = True" | "closing _ = False"

definition lock_inv :: "grpcClientPool \<Rightarrow> bool" where
  "lock_inv p \<longleftrightarrow> (\<forall>i. i \<in> mu_readers p \<longleftrightarrow> in_read (place_of p i)) \<and>
     (\<forall>i. mu_writer p = Some i \<longleftrightarrow> in_write (place_of p i)) \<and> (mu_writer p \<noteq> None \<longrightarrow> mu_readers p = {})"

definition map_inv :: "grpcClientPool \<Rightarrow> bool" where
  "map_inv p \<longleftrightarrow> (\<forall>t k. conns p t = Some k \<longrightarrow> made p k = Some t) \<and>
     (\<forall>k t. made p k = Some t \<longrightarrow> k < unused p \<and> (k \<in> shut p \<or> conns p t = Some k \<or> (\<exists>i. place_of p i = Dialled k))) \<and>
     (\<forall>t k. conns p t = Some k \<longrightarrow> k \<in> shut p \<longrightarrow> (\<exists>i ks. place_of p i = Closing ks)) \<and>
     shut p \<subseteq> dom (made p)"

definition pool_inv :: "(nat \<Rightarrow> pool_call) \<Rightarrow> grpcClientPool \<Rightarrow> bool" where
  "pool_inv calls p \<longleftrightarrow> lock_inv p \<and> map_inv p \<and> (\<forall>i. holds p (calls i) (place_of p i))"

lemma goes_simps [simp]:
  "mu_readers (goes i q p) = mu_readers p" "mu_writer (goes i q p) = mu_writer p" "conns (goes i q p) = conns p"
  "made (goes i q p) = made p" "shut (goes i q p) = shut p" "unused (goes i q p) = unused p"
  "place_of (goes i q p) = (place_of p)(i := q)"
  by (simp_all add: goes_def)

lemma pool_inv_start: "pool_inv calls newGrpcClientPool"
proof -
  have "holds newGrpcClientPool c Begin" for c by (cases c) simp_all
  then show ?thesis by (simp add: pool_inv_def lock_inv_def map_inv_def newGrpcClientPool_def)
qed

lemma one_writer: "lock_inv p \<Longrightarrow> in_write (place_of p i) \<Longrightarrow> in_write (place_of p j) \<Longrightarrow> i = j"
  unfolding lock_inv_def by (metis option.inject)

lemma lock_leave: "lock_inv p \<Longrightarrow> place_of p i = Leaving r \<Longrightarrow> lock_inv (goes i (Returned r) (p\<lparr>mu_writer := None\<rparr>))"
  using one_writer [of p i] by (auto simp: lock_inv_def)

lemma lock_conn:
  assumes "conn_step newClient i t p q" and "lock_inv p"
  shows "lock_inv q"
  using assms(1)
proof (cases rule: conn_step.cases)
  case (Unlock r)
  then show ?thesis using lock_leave [OF assms(2)] by simp
qed (use assms(2) in \<open>auto simp: lock_inv_def split: option.splits\<close>)

lemma lock_Close:
  assumes "Close_step i p q" and "lock_inv p"
  shows "lock_inv q"
  using assms(1)
proof (cases rule: Close_step.cases)
  case (Unlock r)
  then show ?thesis using lock_leave [OF assms(2)] by simp
qed (use assms(2) in \<open>auto simp: lock_inv_def\<close>)

text \<open>What the goroutines outside the critical section know survives a change of the map that
  forgets only connections that are shut.\<close>

definition forgets_shut :: "grpcClientPool \<Rightarrow> grpcClientPool \<Rightarrow> bool" where
  "forgets_shut p q \<longleftrightarrow> (\<forall>k t. made p k = Some t \<longrightarrow> made q k = Some t \<and>
     (k \<in> shut p \<or> conns p t = Some k \<longrightarrow> k \<in> shut q \<or> conns q t = Some k))"

lemma holds_outside:
  "holds p c x \<Longrightarrow> \<not> in_write x \<Longrightarrow> forgets_shut p q \<Longrightarrow> holds q c x"
  by (induction p c x rule: holds.induct) (auto simp: forgets_shut_def)

lemma holds_same:
  "conns q = conns p \<Longrightarrow> made q = made p \<Longrightarrow> shut q = shut p \<Longrightarrow> holds q c x = holds p c x"
  by (induction p c x rule: holds.induct) auto

text \<open>A step of the goroutine that holds the lock.\<close>

lemma pool_inv_write:
  assumes "pool_inv calls p" and "in_write (place_of p i)" and "forgets_shut p q"
    and "place_of q = (place_of p)(i := x)" and "holds q (calls i) x" and "lock_inv q" and "map_inv q"
  shows "pool_inv calls q"
proof -
  have "holds q (calls j) (place_of q j)" for j
  proof (cases "j = i")
    case False
    then have "\<not> in_write (place_of p j)" using assms(1,2) one_writer unfolding pool_inv_def by blast
    moreover have "holds p (calls j) (place_of p j)" using assms(1) by (simp add: pool_inv_def)
    ultimately show ?thesis using holds_outside [OF _ _ assms(3)] False by (simp add: assms(4))
  qed (simp add: assms(4,5))
  with assms(6,7) show ?thesis by (simp add: pool_inv_def)
qed

text \<open>A step that touches the mutex alone.\<close>

lemma pool_inv_mutex:
  assumes "pool_inv calls p" and "lock_inv q" and "conns q = conns p" "made q = made p" "shut q = shut p"
    "unused q = unused p" and "place_of q = (place_of p)(i := x)" and "holds p (calls i) x"
    and "dialling (place_of p i) = None" "\<not> closing (place_of p i)"
  shows "pool_inv calls q"
proof -
  have p: "map_inv p" "\<And>j. holds p (calls j) (place_of p j)" using assms(1) by (simp_all add: pool_inv_def)
  have "holds q (calls j) (place_of q j)" for j
    using p(2) [of j] assms(8) by (simp add: holds_same [OF assms(3-5)] assms(7))
  moreover have "(\<exists>j. place_of q j = Dialled k)" if "place_of p j = Dialled k" for j k
    using that assms(7,9) by (intro exI [of _ j]) auto
  moreover have "(\<exists>j ks. place_of q j = Closing ks)" if "place_of p j = Closing ks" for j ks
    using that assms(7,10) by (intro exI [of _ j]) auto
  ultimately show ?thesis using p(1) assms(2) unfolding pool_inv_def map_inv_def assms(3-6) by blast
qed

lemma holds_returned: "holds p (ConnCall t) (Leaving r) \<Longrightarrow> holds p (ConnCall t) (Returned r)"
proof (cases r)
  case (Inr c)
  then show "holds p (ConnCall t) (Leaving r) \<Longrightarrow> holds p (ConnCall t) (Returned r)" by (cases c) simp_all
qed simp

lemma pool_inv_conn:
  assumes "conn_step newClient i t p q" and "calls i = ConnCall t" and "pool_inv calls p"
  shows "pool_inv calls q"
proof -
  have inv: "lock_inv p" "map_inv p" and at: "holds p (ConnCall t) (place_of p i)"
    using assms(2,3) by (auto simp: pool_inv_def dest: spec [of _ i])
  have q: "lock_inv q" by (rule lock_conn [OF assms(1) inv(1)])
  from assms(1) show ?thesis
  proof (cases rule: conn_step.cases)
    case RLock
    show ?thesis by (rule pool_inv_mutex [OF assms(3) q, where i = i and x = Reading]) (simp_all add: RLock assms(2))
  next
    case look
    have "holds p (ConnCall t) (ReadDone (conns p t))"
      using inv(2) by (cases "conns p t") (simp_all add: map_inv_def)
    with look show ?thesis
      by (intro pool_inv_mutex [OF assms(3) q, where i = i and x = "ReadDone (conns p t)"]) (simp_all add: assms(2))
  next
    case (RUnlock c)
    with at show ?thesis
      by (intro pool_inv_mutex [OF assms(3) q, where i = i and x = "case c of Some k \<Rightarrow> Returned (Inr (Some k)) | None \<Rightarrow> Missed"])
        (cases c; simp add: assms(2))+
  next
    case Lock
    then show ?thesis
      by (intro pool_inv_mutex [OF assms(3) q, where i = i and x = Writing]) (simp_all add: assms(2))
  next
    case (recheck k)
    have "holds p (ConnCall t) (Leaving (Inr (Some k)))"
      using inv(2) recheck(3) by (simp add: map_inv_def)
    with recheck show ?thesis
      by (intro pool_inv_mutex [OF assms(3) q, where i = i and x = "Leaving (Inr (Some k))"]) (simp_all add: assms(2))
  next
    case (refused e)
    then show ?thesis
      by (intro pool_inv_mutex [OF assms(3) q, where i = i and x = "Leaving (Inl e)"]) (simp_all add: assms(2))
  next
    case dialled
    have new: "made p k = Some u \<Longrightarrow> k \<noteq> unused p" for k u using inv(2) by (auto simp: map_inv_def)
    have "shut p \<subseteq> dom (made p)" using inv(2) by (simp add: map_inv_def)
    with new have fresh: "unused p \<notin> shut p" by blast
    have "forgets_shut p q" using new by (auto simp: forgets_shut_def dialled)
    moreover have "holds q (calls i) (Dialled (unused p))" using dialled fresh by (simp add: assms(2))
    moreover have "map_inv q"
      unfolding map_inv_def
    proof (intro conjI allI impI)
      fix u k assume "conns q u = Some k"
      then have "made p k = Some u" using dialled inv(2) by (simp add: map_inv_def)
      with new show "made q k = Some u" by (auto simp: dialled)
    next
      fix u k assume k: "made q k = Some u"
      then show "k < unused q" using inv(2) by (auto simp: dialled map_inv_def less_SucI split: if_splits)
      have other: "place_of p j = Dialled k \<Longrightarrow> place_of q j = Dialled k" for j
        using dialled(2) by (auto simp: dialled(1))
      show "k \<in> shut q \<or> conns q u = Some k \<or> (\<exists>j. place_of q j = Dialled k)"
      proof (cases "k = unused p")
        case True
        then have "place_of q i = Dialled k" by (simp add: dialled(1))
        then show ?thesis by blast
      next
        case False
        with k have "made p k = Some u" by (simp add: dialled(1))
        with inv(2) consider "k \<in> shut p \<or> conns p u = Some k" | j where "place_of p j = Dialled k"
          unfolding map_inv_def by blast
        then show ?thesis
        proof cases
          case 2
          from other [OF 2] show ?thesis by blast
        qed (auto simp: dialled(1))
      qed
    next
      fix u k assume "conns q u = Some k" "k \<in> shut q"
      then have "\<exists>j ks. place_of p j = Closing ks" using inv(2) by (auto simp: dialled map_inv_def)
      then obtain j ks where "place_of p j = Closing ks" by blast
      then show "\<exists>j ks. place_of q j = Closing ks" using dialled(2) by (intro exI [of _ j]) (auto simp: dialled(1))
    next
      show "shut q \<subseteq> dom (made q)" using inv(2) by (auto simp: dialled map_inv_def)
    qed
    moreover have "in_write (place_of p i)" "place_of q = (place_of p)(i := Dialled (unused p))" by (simp_all add: dialled)
    ultimately show ?thesis using pool_inv_write [OF assms(3)] q by blast
  next
    case (keep k)
    have k: "made p k = Some t" "k \<notin> shut p" "conns p t = None" using at keep(2) by simp_all
    have only: "place_of p j = Closing ks \<or> place_of p j = Dialled c \<Longrightarrow> j = i" for j ks c
      using one_writer [OF inv(1), of j i] keep(2) by auto
    have "forgets_shut p q" using k by (auto simp: forgets_shut_def keep)
    moreover have "holds q (calls i) (Leaving (Inr (Some k)))" using k by (simp add: keep assms(2))
    moreover have "map_inv q"
      unfolding map_inv_def
    proof (intro conjI allI impI)
      fix u c assume "conns q u = Some c"
      then show "made q c = Some u" using k inv(2) by (auto simp: keep map_inv_def split: if_splits)
    next
      fix u c assume c: "made q c = Some u"
      then have "made p c = Some u" by (simp add: keep(1))
      with inv(2) have "c < unused p" "c \<in> shut p \<or> conns p u = Some c \<or> (\<exists>j. place_of p j = Dialled c)"
        by (simp_all add: map_inv_def)
      moreover have "c = k" if "place_of p j = Dialled c" for j
        using only [of j _ c] keep(2) that by auto
      moreover have "c = k \<Longrightarrow> u = t" using \<open>made p c = Some u\<close> k(1) by simp
      ultimately show "c < unused q" "c \<in> shut q \<or> conns q u = Some c \<or> (\<exists>j. place_of q j = Dialled c)"
        using k(3) by (auto simp: keep(1))
    next
      fix u c assume "conns q u = Some c" "c \<in> shut q"
      then have "conns p u = Some c" "c \<in> shut p" using k by (auto simp: keep split: if_splits)
      then obtain j ks where "place_of p j = Closing ks" using inv(2) unfolding map_inv_def by blast
      with only [of j ks 0] keep(2) show "\<exists>j ks. place_of q j = Closing ks" by auto
    next
      show "shut q \<subseteq> dom (made q)" using inv(2) by (auto simp: keep map_inv_def)
    qed
    moreover have "in_write (place_of p i)" "place_of q = (place_of p)(i := Leaving (Inr (Some k)))" by (simp_all add: keep)
    ultimately show ?thesis using pool_inv_write [OF assms(3)] q by blast
  next
    case (Unlock r)
    with at show ?thesis
      by (intro pool_inv_mutex [OF assms(3) q, where i = i and x = "Returned r"])
        (simp_all add: assms(2) holds_returned)
  qed
qed

lemma pool_inv_Close:
  assumes "Close_step i p q" and "calls i = CloseCall" and "pool_inv calls p"
  shows "pool_inv calls q"
proof -
  have inv: "lock_inv p" "map_inv p" and at: "holds p CloseCall (place_of p i)"
    using assms(2,3) by (auto simp: pool_inv_def dest: spec [of _ i])
  have q: "lock_inv q" by (rule lock_Close [OF assms(1) inv(1)])
  have only: "place_of p j = Closing ks \<or> place_of p j = Dialled c \<Longrightarrow> in_write (place_of p i) \<Longrightarrow> j = i" for j ks c
    using one_writer [OF inv(1), of j i] by auto
  from assms(1) show ?thesis
  proof (cases rule: Close_step.cases)
    case Lock
    then have "ran (conns p) = ran (conns p) - shut p"
    proof -
      have "place_of p j \<noteq> Closing ks" for j ks using inv(1) Lock(3) unfolding lock_inv_def by (metis in_write.simps(3) option.distinct(1))
      then show ?thesis using inv(2) by (auto simp: map_inv_def ran_def)
    qed
    with Lock show ?thesis
      by (intro pool_inv_mutex [OF assms(3) q, where i = i and x = "Closing (ran (conns p))"]) (simp_all add: assms(2))
  next
    case (each ks k)
    have ks: "ks = ran (conns p) - shut p" using at each(2) by simp
    with each(3) obtain u where u: "conns p u = Some k" by (auto simp: ran_def)
    have "forgets_shut p q" by (auto simp: forgets_shut_def each(1))
    moreover have "holds q (calls i) (Closing (ks - {k}))" using ks by (auto simp: assms(2) each(1))
    moreover have "map_inv q"
      unfolding map_inv_def
    proof (intro conjI allI impI)
      fix u c assume "conns q u = Some c"
      then show "made q c = Some u" using inv(2) by (simp add: each(1) map_inv_def)
    next
      fix u c assume "made q c = Some u"
      then have "made p c = Some u" by (simp add: each(1))
      with inv(2) have "c < unused p" "c \<in> shut p \<or> conns p u = Some c \<or> (\<exists>j. place_of p j = Dialled c)"
        by (simp_all add: map_inv_def)
      moreover have "place_of p j \<noteq> Dialled c" for j using only [of j _ c] each(2) by auto
      ultimately show "c < unused q" "c \<in> shut q \<or> conns q u = Some c \<or> (\<exists>j. place_of q j = Dialled c)"
        by (simp_all add: each(1))
    next
      show "\<exists>j ks. place_of q j = Closing ks" by (intro exI [of _ i]) (simp add: each(1))
    next
      show "shut q \<subseteq> dom (made q)" using inv(2) u by (auto simp: each(1) map_inv_def)
    qed
    moreover have "in_write (place_of p i)" "place_of q = (place_of p)(i := Closing (ks - {k}))" by (simp_all add: each)
    ultimately show ?thesis using pool_inv_write [OF assms(3)] q by blast
  next
    case reset
    have gone: "conns p u = Some c \<Longrightarrow> c \<in> shut p" for u c using at reset(2) by (auto simp: ran_def)
    have none: "place_of p j \<noteq> Dialled c" for j c using only [of j _ c] reset(2) by auto
    have all: "made p c = Some u \<Longrightarrow> c \<in> shut p" for c u
      using inv(2) gone none unfolding map_inv_def by blast
    have "forgets_shut p q" using gone by (auto simp: forgets_shut_def reset(1))
    moreover have "holds q (calls i) (Leaving (Inr None))" using all by (auto simp: assms(2) reset(1))
    moreover have "map_inv q" using inv(2) all by (auto simp: map_inv_def reset(1))
    moreover have "in_write (place_of p i)" "place_of q = (place_of p)(i := Leaving (Inr None))" by (simp_all add: reset)
    ultimately show ?thesis using pool_inv_write [OF assms(3)] q by blast
  next
    case (Unlock r)
    with at show ?thesis
      by (intro pool_inv_mutex [OF assms(3) q, where i = i and x = "Returned r"]) (simp_all add: assms(2))
  qed
qed

lemma pool_inv_run: "pool_run newClient calls p \<Longrightarrow> pool_inv calls p"
proof (induction rule: pool_run.induct)
  case start
  show ?case by (rule pool_inv_start)
next
  case (after p i q)
  then show ?case by (cases "calls i") (auto intro: pool_inv_conn pool_inv_Close)
qed

lemma pool_holds: "pool_run newClient calls p \<Longrightarrow> holds p (calls i) (place_of p i)"
  using pool_inv_run unfolding pool_inv_def by blast

section \<open>What the pool promises\<close>

text \<open>A call that runs alone: the connection of the map, or a new one that the map keeps.\<close>

definition free :: "grpcClientPool \<Rightarrow> bool" where
  "free p \<longleftrightarrow> mu_writer p = None \<and> mu_readers p = {}"

lemma pool_after: "pool_run newClient calls p \<Longrightarrow> calls i = ConnCall t \<Longrightarrow> conn_step newClient i t p q \<Longrightarrow> pool_run newClient calls q"
  using pool_run.after [of newClient calls p i q] by simp

lemma conn_alone:
  assumes "pool_run newClient calls p" and "calls i = ConnCall t" and "place_of p i = Begin" and "free p"
    and "newClient t = None"
  shows "\<exists>q k. pool_run newClient calls q \<and> free q \<and> shut q = shut p \<and> conns q = (conns p)(t \<mapsto> k) \<and>
    place_of q = (place_of p)(i := Returned (Inr (Some k))) \<and> (conns p t = Some k \<or> conns p t = None \<and> k = unused p)"
proof -
  note run = pool_after [where newClient = newClient and calls = calls and i = i and t = t, OF _ assms(2)]
  let ?p1 = "goes i Reading (p\<lparr>mu_readers := insert i (mu_readers p)\<rparr>)"
  let ?p2 = "goes i (ReadDone (conns p t)) ?p1"
  have "pool_run newClient calls ?p1" using run [OF assms(1) RLock] assms(3,4) by (simp add: free_def)
  from run [OF this look] have 2: "pool_run newClient calls ?p2" by simp
  show ?thesis
  proof (cases "conns p t")
    case (Some k)
    with run [OF 2 RUnlock, of "Some k"] have "pool_run newClient calls
        (goes i (Returned (Inr (Some k))) (?p2\<lparr>mu_readers := mu_readers ?p2 - {i}\<rparr>))" by simp
    then show ?thesis using Some assms(4)
      by (intro exI [of _ "goes i (Returned (Inr (Some k))) (?p2\<lparr>mu_readers := mu_readers ?p2 - {i}\<rparr>)"] exI [of _ k])
        (auto simp: free_def fun_eq_iff)
  next
    case None
    let ?p3 = "goes i Missed (?p2\<lparr>mu_readers := mu_readers ?p2 - {i}\<rparr>)"
    let ?p4 = "goes i Writing (?p3\<lparr>mu_writer := Some i\<rparr>)"
    let ?p5 = "goes i (Dialled (unused p)) (?p4\<lparr>made := (made ?p4)(unused p \<mapsto> t), unused := Suc (unused p)\<rparr>)"
    let ?p6 = "goes i (Leaving (Inr (Some (unused p)))) (?p5\<lparr>conns := (conns ?p5)(t \<mapsto> unused p)\<rparr>)"
    let ?p7 = "goes i (Returned (Inr (Some (unused p)))) (?p6\<lparr>mu_writer := None\<rparr>)"
    have 3: "pool_run newClient calls ?p3" using run [OF 2 RUnlock, of None] None by simp
    have 4: "pool_run newClient calls ?p4" using run [OF 3 conn_step.Lock] assms(4) by (simp add: free_def)
    have 5: "pool_run newClient calls ?p5" using run [OF 4 dialled] None assms(5) by simp
    have 6: "pool_run newClient calls ?p6" using run [OF 5 keep, of "unused p"] by simp
    have "pool_run newClient calls ?p7" using run [OF 6 conn_step.Unlock, of "Inr (Some (unused p))"] by simp
    then show ?thesis using None assms(4)
      by (intro exI [of _ ?p7] exI [of _ "unused p"]) (auto simp: free_def fun_eq_iff)
  qed
qed

text \<open>C36: the pool keeps one connection per target. In every interleaving of \<open>conn\<close> and \<open>Close\<close>,
  two connections that were made for the same target and are not closed are the same one, and one
  that is returned was made for the target it was asked for.\<close>

theorem pool_one_connection:
  assumes "pool_run newClient calls p"
  shows "(made p c = Some t \<longrightarrow> made p d = Some t \<longrightarrow> c \<notin> shut p \<longrightarrow> d \<notin> shut p \<longrightarrow> c = d) \<and>
    (calls i = ConnCall t \<longrightarrow> place_of p i = Returned (Inr (Some c)) \<longrightarrow>
       made p c = Some t \<and> (c \<notin> shut p \<longrightarrow> conns p t = Some c))"
proof (intro conjI impI)
  have inv: "lock_inv p" "map_inv p" and at: "\<And>j. holds p (calls j) (place_of p j)"
    using pool_inv_run [OF assms] by (simp_all add: pool_inv_def)
  have dial: "conns p t = None" if "place_of p j = Dialled k" "made p k = Some t" for j k
    using at [of j] that by (cases "calls j") auto
  assume m: "made p c = Some t" "made p d = Some t" and live: "c \<notin> shut p" "d \<notin> shut p"
  have "conns p t = Some k \<or> (\<exists>j. place_of p j = Dialled k)" if "made p k = Some t" "k \<notin> shut p" for k
    using inv(2) that by (auto simp: map_inv_def)
  with m live have c: "conns p t = Some c \<or> (\<exists>j. place_of p j = Dialled c)" and d: "conns p t = Some d \<or> (\<exists>j. place_of p j = Dialled d)"
    by blast+
  show "c = d"
  proof (cases "conns p t")
    case None
    with c d obtain j k where jk: "place_of p j = Dialled c" "place_of p k = Dialled d" by auto
    then have "j = k" using one_writer [OF inv(1), of j k] by simp
    with jk show ?thesis by simp
  next
    case (Some e)
    with c d dial m show ?thesis by force
  qed
next
  assume "calls i = ConnCall t" "place_of p i = Returned (Inr (Some c))"
  then have h: "made p c = Some t \<and> (c \<in> shut p \<or> conns p t = Some c)"
    using pool_holds [OF assms, of i] by simp
  then show "made p c = Some t" by simp
  show "conns p t = Some c" if "c \<notin> shut p" using h that by simp
qed

theorem pool_one_connection_witness:
  "\<exists>p c. pool_run (\<lambda>_. None) (\<lambda>_. ConnCall ''h:1'') p \<and> place_of p 0 = Returned (Inr (Some c)) \<and>
    place_of p 1 = Returned (Inr (Some c)) \<and> conns p ''h:1'' = Some c \<and> made p c = Some ''h:1''"
proof -
  let ?calls = "\<lambda>_. ConnCall ''h:1''" and ?dial = "\<lambda>_. None"
  have "free newGrpcClientPool" "place_of newGrpcClientPool i = Begin" for i by (simp_all add: newGrpcClientPool_def free_def)
  from conn_alone [where i = 0 and t = "''h:1''", OF pool_run.start [of ?dial ?calls] _ this(2,1)] obtain p c where
    p: "pool_run ?dial ?calls p" "free p" "shut p = {}" "conns p = [''h:1'' \<mapsto> c]"
      "place_of p = (\<lambda>_. Begin)(0 := Returned (Inr (Some c)))"
    by (auto simp: newGrpcClientPool_def)
  from conn_alone [where i = 1 and t = "''h:1''", OF p(1)] p obtain q where
    q: "pool_run ?dial ?calls q" "shut q = {}" "conns q ''h:1'' = Some c"
      "place_of q 0 = Returned (Inr (Some c))" "place_of q 1 = Returned (Inr (Some c))" by auto
  from pool_one_connection [OF q(1), of c "''h:1''" c 1] q show ?thesis by blast
qed

text \<open>After \<open>Close\<close> nothing is left open. When a \<open>Close\<close> is about to release the lock,
  the map is empty and every connection that was ever made is closed.\<close>

theorem pool_close_leaves_none:
  assumes "pool_run newClient calls p" and "calls i = CloseCall" and "place_of p i = Leaving r"
  shows "conns p = Map.empty \<and> dom (made p) \<subseteq> shut p"
  using pool_holds [OF assms(1), of i] assms(2,3) by simp

theorem pool_close_leaves_none_witness:
  "\<exists>p k. pool_run (\<lambda>_. None) (\<lambda>j. if j = 0 then ConnCall ''h:1'' else CloseCall) p \<and>
    place_of p 0 = Returned (Inr (Some k)) \<and> k \<in> shut p \<and> conns p = Map.empty"
proof -
  let ?calls = "\<lambda>j. if j = (0::nat) then ConnCall ''h:1'' else CloseCall" and ?dial = "\<lambda>_. None"
  have "free newGrpcClientPool" "place_of newGrpcClientPool i = Begin" for i by (simp_all add: newGrpcClientPool_def free_def)
  from conn_alone [where i = 0 and t = "''h:1''", OF pool_run.start [of ?dial ?calls] _ this(2,1)] obtain p k where
    p: "pool_run ?dial ?calls p" "free p" "shut p = {}" "conns p = [''h:1'' \<mapsto> k]"
      "place_of p = (\<lambda>_. Begin)(0 := Returned (Inr (Some k)))"
    by (auto simp: newGrpcClientPool_def)
  have close: "pool_run ?dial ?calls q \<Longrightarrow> Close_step 1 q q' \<Longrightarrow> pool_run ?dial ?calls q'" for q q'
    using pool_run.after [of ?dial ?calls q 1 q'] by simp
  let ?p1 = "goes 1 (Closing {k}) (p\<lparr>mu_writer := Some 1\<rparr>)"
  let ?p2 = "goes 1 (Closing {}) (?p1\<lparr>shut := insert k (shut ?p1)\<rparr>)"
  let ?p3 = "goes 1 (Leaving (Inr None)) (?p2\<lparr>conns := Map.empty\<rparr>)"
  have 1: "pool_run ?dial ?calls ?p1" using close [OF p(1) Close_step.Lock] p(2,4,5) by (simp add: free_def)
  have 2: "pool_run ?dial ?calls ?p2" using close [OF 1 Close_step.each, of "{k}" k] by simp
  have 3: "pool_run ?dial ?calls ?p3" using close [OF 2 Close_step.reset] by simp
  have c: "?calls 1 = CloseCall" and l: "place_of ?p3 1 = Leaving (Inr None)" by simp_all
  have "conns ?p3 = Map.empty" using pool_close_leaves_none [OF 3 c l] by blast
  with 3 p(5) show ?thesis by (intro exI [of _ ?p3] exI [of _ k]) simp
qed

lemma writer_moves:
  assumes "holds p c (place_of p j)" and "in_write (place_of p j)"
  shows "\<exists>q. pool_step newClient j c p q"
proof (cases c)
  case (ConnCall t)
  show ?thesis
  proof (cases "place_of p j")
    case Writing
    then show ?thesis using ConnCall conn_step.recheck [OF Writing, of t] conn_step.refused [OF Writing, of t newClient]
        conn_step.dialled [OF Writing, of t newClient]
      by (cases "conns p t"; cases "newClient t") auto
  next
    case (Dialled k)
    then show ?thesis using ConnCall conn_step.keep [OF Dialled, of newClient t] by auto
  next
    case (Leaving r)
    then show ?thesis using ConnCall conn_step.Unlock [OF Leaving, of newClient t] by auto
  qed (use assms ConnCall in auto)
next
  case CloseCall
  show ?thesis
  proof (cases "place_of p j")
    case (Closing ks)
    then show ?thesis using CloseCall Close_step.each [OF Closing] Close_step.reset [of p j]
      by (cases "ks = {}") auto
  next
    case (Leaving r)
    then show ?thesis using CloseCall Close_step.Unlock [OF Leaving] by auto
  qed (use assms CloseCall in auto)
qed

lemma reader_moves:
  assumes "holds p c (place_of p j)" and "in_read (place_of p j)"
  shows "\<exists>q. pool_step newClient j c p q"
proof (cases c)
  case (ConnCall t)
  then show ?thesis
    using assms(2) conn_step.look [of p j newClient t] conn_step.RUnlock [of p j _ newClient t]
    by (cases "place_of p j") auto
next
  case CloseCall
  then show ?thesis using assms by (cases "place_of p j") auto
qed

text \<open>C37: the pool does not deadlock. While some call has not returned, some goroutine can take
  a step.\<close>

theorem pool_progress:
  assumes "pool_run newClient calls p" and "\<And>r. place_of p i \<noteq> Returned r"
  shows "\<exists>j q. pool_step newClient j (calls j) p q"
proof -
  have inv: "lock_inv p" using pool_inv_run [OF assms(1)] by (simp add: pool_inv_def)
  note at = pool_holds [OF assms(1)]
  consider (writer) j where "in_write (place_of p j)" | (reader) j where "in_read (place_of p j)"
    | (idle) "mu_writer p = None" "mu_readers p = {}"
    using inv unfolding lock_inv_def by (cases "mu_writer p") auto
  then show ?thesis
  proof cases
    case writer
    show ?thesis by (rule exI [of _ j], rule writer_moves [OF at writer])
  next
    case reader
    show ?thesis by (rule exI [of _ j], rule reader_moves [OF at reader])
  next
    case idle
    then have "\<not> in_read (place_of p i)" "\<not> in_write (place_of p i)" using inv by (auto simp: lock_inv_def)
    with assms(2) have "place_of p i = Begin \<or> place_of p i = Missed" by (cases "place_of p i") auto
    then show ?thesis
    proof (intro exI [of _ i], cases "calls i")
      case (ConnCall t)
      assume "place_of p i = Begin \<or> place_of p i = Missed"
      with idle ConnCall show "\<exists>q. pool_step newClient i (calls i) p q"
        using conn_step.RLock [of p i newClient t] conn_step.Lock [of p i newClient t] by auto
    next
      case CloseCall
      assume "place_of p i = Begin \<or> place_of p i = Missed"
      with at [of i] idle CloseCall show "\<exists>q. pool_step newClient i (calls i) p q"
        using Close_step.Lock [of p i] by auto
    qed
  qed
qed

theorem pool_progress_witness:
  "\<exists>j q. pool_step (\<lambda>_. None) j (if j = 0 then CloseCall else ConnCall ''h:1'') newGrpcClientPool q"
  using pool_progress [OF pool_run.start [of "\<lambda>_. None" "\<lambda>j. if j = 0 then CloseCall else ConnCall ''h:1''"], of 0]
  by (simp add: newGrpcClientPool_def)

end
