(* ===== verification/River_Start.thy ===== *)
theory River_Start
  imports River_Config
begin

text \<open>
  The start and the shutdown of a node: \<open>migrate\<close>, the fallible part of \<open>NewRiver\<close> and \<open>Close\<close>
  of \<open>delayquene/riverquene.go\<close>, and \<open>startRiver\<close> of \<open>cmdriver.go\<close>. A run is the list of the
  calls it makes that succeed. Which calls fail, with what text, and what ends the serving are
  parameters.
\<close>

section \<open>migrate\<close>

datatype ddl = CreateTable string "(string \<times> string) list" | CreateIndex string string "string list"

text \<open>The tables with their columns, and the indexes with their table and columns.\<close>

record catalog =
  cat_tables :: "(string \<times> (string \<times> string) list) list"
  cat_indexes :: "(string \<times> string \<times> string list) list"

definition text_default :: "string \<Rightarrow> string" where
  "text_default s = ''text NOT NULL DEFAULT '' @ [CHR 0x27] @ s @ [CHR 0x27]"

definition migrate_stmts :: "ddl list" where
  "migrate_stmts =
     [CreateTable ''gua_groups''
        [(''group_name'', ''text PRIMARY KEY''), (''created_at'', ''timestamptz NOT NULL DEFAULT now()'')],
      CreateTable ''gua_jobs''
        [(''id'', ''text PRIMARY KEY''), (''group_name'', ''text NOT NULL''), (''name'', ''text NOT NULL''),
         (''request_url'', ''text NOT NULL''), (''payload'', text_default []),
         (''interval_pattern'', text_default ''@once''), (''timeout'', ''bigint NOT NULL DEFAULT 0''),
         (''exectime'', ''bigint NOT NULL''), (''active'', ''boolean NOT NULL DEFAULT true''),
         (''memo'', text_default []), (''created_at'', ''timestamptz NOT NULL DEFAULT now()'')],
      CreateIndex ''gua_jobs_group_idx'' ''gua_jobs'' [''group_name''],
      CreateTable ''gua_executions''
        [(''seq'', ''bigserial PRIMARY KEY''), (''job_id'', ''text NOT NULL''), (''group_name'', ''text NOT NULL''),
         (''type'', ''text NOT NULL''), (''plan_time'', ''bigint NOT NULL''), (''exec_time'', ''bigint NOT NULL''),
         (''finish_time'', ''bigint NOT NULL''), (''success'', ''boolean NOT NULL''),
         (''message'', text_default []), (''error'', text_default []),
         (''exec_machine_host'', text_default []), (''created_at'', ''timestamptz NOT NULL DEFAULT now()'')],
      CreateIndex ''gua_exec_group_idx'' ''gua_executions'' [''group_name'', ''seq DESC''],
      CreateIndex ''gua_exec_created_idx'' ''gua_executions'' [''created_at'']]"

text \<open>
  \<open>IF NOT EXISTS\<close>: a name that is taken leaves everything as it is; tables and indexes share
  their names. An index on a table that does not exist is an error.
\<close>

definition taken :: "string \<Rightarrow> catalog \<Rightarrow> bool" where
  "taken n c \<longleftrightarrow> n \<in> set (map fst (cat_tables c)) \<or> n \<in> set (map fst (cat_indexes c))"

fun exec_ddl :: "ddl \<Rightarrow> catalog \<Rightarrow> string + catalog" where
  "exec_ddl (CreateTable n cols) c =
     (if taken n c then Inr c else Inr (c\<lparr>cat_tables := cat_tables c @ [(n, cols)]\<rparr>))"
| "exec_ddl (CreateIndex n t cols) c =
     (if t \<notin> set (map fst (cat_tables c)) then Inl ''relation does not exist''
      else if taken n c then Inr c else Inr (c\<lparr>cat_indexes := cat_indexes c @ [(n, t, cols)]\<rparr>))"

text \<open>The loop; a statement can also fail in transport.\<close>

fun exec_all :: "(nat \<Rightarrow> string option) \<Rightarrow> nat \<Rightarrow> ddl list \<Rightarrow> catalog \<Rightarrow> string option \<times> catalog" where
  "exec_all lost k [] c = (None, c)"
| "exec_all lost k (s # ss) c =
     (case lost k of
        Some e \<Rightarrow> (Some e, c)
      | None \<Rightarrow> (case exec_ddl s c of Inl e \<Rightarrow> (Some e, c) | Inr c' \<Rightarrow> exec_all lost (Suc k) ss c'))"

section \<open>NewRiver and Close\<close>

datatype startup_call =
    LoadEnvFile | PoolNew | MigratorNew | MigrateUp | DdlExec nat | ClientNew | ClientStart
  | ListenGrpc | ListenHttp | HttpShutdown | RiverStop

datatype act =
    OpenPool string
  | RiverMigrated
  | GuaMigrated catalog
  | StartClient client_config
  | GrpcListening string
  | HttpListening string
  | Serving
  | HttpDrained
  | GrpcDrained
  | GrpcStopped
  | RiverStopped
  | GrpcPoolClosed
  | PoolClosed
  | Exited nat

type_synonym failures = "startup_call \<Rightarrow> string option"

definition migrate :: "failures \<Rightarrow> catalog \<Rightarrow> string option \<times> act list" where
  "migrate fails c =
     (case fails MigratorNew of Some e \<Rightarrow> (Some e, []) | None \<Rightarrow>
     (case fails MigrateUp of Some e \<Rightarrow> (Some e, []) | None \<Rightarrow>
     (case exec_all (\<lambda>k. fails (DdlExec k)) 0 migrate_stmts c of
        (Some e, c') \<Rightarrow> (Some e, [RiverMigrated])
      | (None, c') \<Rightarrow> (None, [RiverMigrated, GuaMigrated c']))))"

text \<open>The error or the started client, with the calls; the configuration has its defaults already.\<close>

definition NewRiver :: "failures \<Rightarrow> catalog \<Rightarrow> string \<Rightarrow> config \<Rightarrow> (string + client_config) \<times> act list" where
  "NewRiver fails c dsn cfg =
     (case fails PoolNew of Some e \<Rightarrow> (Inl e, []) | None \<Rightarrow>
     (case migrate fails c of
        (Some e, acts) \<Rightarrow> (Inl e, OpenPool dsn # acts @ [PoolClosed])
      | (None, acts) \<Rightarrow>
     (case fails ClientNew of Some e \<Rightarrow> (Inl e, OpenPool dsn # acts @ [PoolClosed]) | None \<Rightarrow>
     (case fails ClientStart of Some e \<Rightarrow> (Inl e, OpenPool dsn # acts @ [PoolClosed]) | None \<Rightarrow>
        (Inr (river_client cfg), OpenPool dsn # acts @ [StartClient (river_client cfg)])))))"

definition drainTimeout :: int where
  "drainTimeout = 10 * nanos_per_sec"

text \<open>How long \<open>Close\<close> waits for River to stop; an error of \<open>Stop\<close> is only logged.\<close>

definition close_deadline :: int where
  "close_deadline = drainTimeout + 5 * nanos_per_sec"

definition quene_Close :: "act list" where
  "quene_Close = [RiverStopped, GrpcPoolClosed, PoolClosed]"

section \<open>The servers\<close>

record http_server =
  hs_read_timeout :: int
  hs_read_header_timeout :: int
  hs_write_timeout :: int
  hs_idle_timeout :: int

definition http_server_settings :: http_server where
  "http_server_settings = \<lparr>hs_read_timeout = 3 * nanos_per_sec, hs_read_header_timeout = 3 * nanos_per_sec,
     hs_write_timeout = 15 * nanos_per_sec, hs_idle_timeout = 60 * nanos_per_sec\<rparr>"

record grpc_keepalive =
  ka_time :: int
  ka_timeout :: int
  ka_without_stream :: bool

definition grpc_server_keepalive :: grpc_keepalive where
  "grpc_server_keepalive = \<lparr>ka_time = 60 * nanos_per_sec, ka_timeout = 20 * nanos_per_sec, ka_without_stream = False\<rparr>"

text \<open>The least time between a client's pings that the server allows, and whether it allows them
  without a stream.\<close>

definition grpc_enforcement :: "int \<times> bool" where
  "grpc_enforcement = (20 * nanos_per_sec, True)"

text \<open>The pings of the delivery pool's connections, \<open>grpcpool.go\<close>.\<close>

definition pool_keepalive :: grpc_keepalive where
  "pool_keepalive = \<lparr>ka_time = 30 * nanos_per_sec, ka_timeout = 10 * nanos_per_sec, ka_without_stream = True\<rparr>"

section \<open>startRiver\<close>

definition shutdown_timeout :: int where
  "shutdown_timeout = 10 * nanos_per_sec"

text \<open>
  After a signal or the end of a server: the HTTP server drains, the gRPC server drains or is
  stopped when the time is up, and the deferred \<open>Close\<close> of the queue runs last.
\<close>

definition drain :: "failures \<Rightarrow> bool \<Rightarrow> act list" where
  "drain fails in_time =
     (case fails HttpShutdown of Some e \<Rightarrow> [] | None \<Rightarrow> [HttpDrained]) @
     (if in_time then [GrpcDrained] else [GrpcStopped]) @ quene_Close"

text \<open>
  \<open>logFatal\<close> ends the process at once; deferred calls do not run. The flag is the text of
  \<open>--env-file\<close>, and the second environment is the one after loading that file.
\<close>

definition logFatal :: "act list" where
  "logFatal = [Exited 1]"

definition startRiver ::
  "failures \<Rightarrow> bool \<Rightarrow> catalog \<Rightarrow> string \<Rightarrow> environment \<Rightarrow> environment \<Rightarrow> string \<Rightarrow> act list" where
  "startRiver fails in_time c env_file env0 env1 host =
     (if env_file \<noteq> [] \<and> fails LoadEnvFile \<noteq> None then [Exited 1]
      else
        (let env = (if env_file \<noteq> [] then env1 else env0) in
         case river_config env host of
           None \<Rightarrow> logFatal
         | Some cfg \<Rightarrow>
             (case NewRiver fails c (env ''PG_DSN'') cfg of
                (Inl e, acts) \<Rightarrow> acts @ logFatal
              | (Inr cl, acts) \<Rightarrow>
             (case fails ListenGrpc of Some e \<Rightarrow> acts @ logFatal | None \<Rightarrow>
             (case fails ListenHttp of
                Some e \<Rightarrow> acts @ [GrpcListening (env ''GRPC_LISTEN'')] @ logFatal
              | None \<Rightarrow> acts @ [GrpcListening (env ''GRPC_LISTEN''), HttpListening (env ''HTTP_LISTEN''), Serving] @
                  drain fails in_time @ [Exited 0])))))"

section \<open>What migrating does\<close>

lemma exec_ddl_keeps:
  assumes "exec_ddl s c = Inr c'"
  shows "\<exists>ts ixs. cat_tables c' = cat_tables c @ ts \<and> cat_indexes c' = cat_indexes c @ ixs"
    and "taken n c \<Longrightarrow> taken n c'"
    and "t \<in> set (map fst (cat_tables c)) \<Longrightarrow> t \<in> set (map fst (cat_tables c'))"
  using assms by (cases s; auto simp: taken_def split: if_splits)+

text \<open>A statement has nothing left to do.\<close>

fun settled :: "ddl \<Rightarrow> catalog \<Rightarrow> bool" where
  "settled (CreateTable n cols) c = taken n c"
| "settled (CreateIndex n t cols) c = (taken n c \<and> t \<in> set (map fst (cat_tables c)))"

lemma settled_done: "settled s c \<Longrightarrow> exec_ddl s c = Inr c"
  by (cases s) auto

lemma exec_settles: "exec_ddl s c = Inr c' \<Longrightarrow> settled s c'"
  by (cases s) (auto simp: taken_def split: if_splits)

lemma settled_stays: "settled s c \<Longrightarrow> exec_ddl r c = Inr c' \<Longrightarrow> settled s c'"
  using exec_ddl_keeps(2,3) by (cases s) auto

lemma exec_all_keeps:
  assumes "exec_all lost k ss c = (r, c')"
  shows "\<exists>ts ixs. cat_tables c' = cat_tables c @ ts \<and> cat_indexes c' = cat_indexes c @ ixs"
  using assms
proof (induction ss arbitrary: k c)
  case (Cons s ss)
  show ?case
  proof (cases "lost k")
    case None
    show ?thesis
    proof (cases "exec_ddl s c")
      case (Inr c1)
      from exec_ddl_keeps(1) [OF Inr] Cons.IH [of "Suc k" c1] Cons.prems None Inr show ?thesis by fastforce
    qed (use Cons.prems None in auto)
  qed (use Cons.prems in auto)
qed simp

lemma settled_all_stays:
  assumes "exec_all lost k ss c = (r, c')" and "settled s c"
  shows "settled s c'"
  using assms
proof (induction ss arbitrary: k c)
  case (Cons t ss)
  then show ?case using settled_stays [OF Cons.prems(2)]
    by (auto split: option.splits sum.splits)
qed simp

lemma exec_all_settles:
  assumes "exec_all lost k ss c = (None, c')"
  shows "list_all (\<lambda>s. settled s c') ss"
  using assms
proof (induction ss arbitrary: k c)
  case (Cons s ss)
  then obtain c1 where c1: "exec_ddl s c = Inr c1" "exec_all lost (Suc k) ss c1 = (None, c')"
    by (auto split: option.splits sum.splits)
  from Cons.IH [OF c1(2)] settled_all_stays [OF c1(2) exec_settles [OF c1(1)]] show ?case by simp
qed simp

lemma exec_all_done: "list_all (\<lambda>s. settled s c) ss \<Longrightarrow> (\<And>k. lost k = None) \<Longrightarrow> exec_all lost k ss c = (None, c)"
  by (induction ss arbitrary: k) (simp_all add: settled_done)

text \<open>Migrating is safe to repeat. When gua's statements run without an error, every table and index
  they name exists, the tables and indexes that were there before are as they were, and running
  them again, at the next start or on another node, changes nothing.\<close>

theorem migrate_idempotent:
  assumes "exec_all lost k migrate_stmts c = (None, c')"
  shows "taken ''gua_groups'' c' \<and> taken ''gua_jobs'' c' \<and> taken ''gua_executions'' c' \<and>
    taken ''gua_jobs_group_idx'' c' \<and> taken ''gua_exec_group_idx'' c' \<and> taken ''gua_exec_created_idx'' c' \<and>
    (\<exists>ts ixs. cat_tables c' = cat_tables c @ ts \<and> cat_indexes c' = cat_indexes c @ ixs) \<and>
    exec_all (\<lambda>_. None) n migrate_stmts c' = (None, c')"
proof -
  have s: "list_all (\<lambda>s. settled s c') migrate_stmts" by (rule exec_all_settles [OF assms])
  from exec_all_done [OF this, of "\<lambda>_. None"] have "exec_all (\<lambda>_. None) n migrate_stmts c' = (None, c')" by simp
  with s exec_all_keeps [OF assms] show ?thesis by (simp add: migrate_stmts_def)
qed

definition new_database :: catalog where
  "new_database = \<lparr>cat_tables = [], cat_indexes = []\<rparr>"

theorem migrate_idempotent_witness:
  "map fst (cat_tables (snd (exec_all (\<lambda>_. None) 0 migrate_stmts new_database))) = [''gua_groups'', ''gua_jobs'', ''gua_executions''] \<and>
   exec_all (\<lambda>_. None) 0 migrate_stmts (snd (exec_all (\<lambda>_. None) 0 migrate_stmts new_database)) =
     (None, snd (exec_all (\<lambda>_. None) 0 migrate_stmts new_database))"
proof -
  let ?m = "exec_all (\<lambda>_. None) 0 migrate_stmts new_database"
  have "fst ?m = None" "map fst (cat_tables (snd ?m)) = [''gua_groups'', ''gua_jobs'', ''gua_executions'']"
    by (simp_all add: migrate_stmts_def new_database_def taken_def)
  moreover from this have "?m = (None, snd ?m)" by (intro prod_eqI) simp_all
  ultimately show ?thesis using migrate_idempotent [of "\<lambda>_. None" 0 new_database "snd ?m" 0] by blast
qed

section \<open>The order of a run\<close>

lemma NewRiver_started:
  assumes "NewRiver fails c dsn cfg = (Inr cl, acts)"
  shows "\<exists>c'. exec_all (\<lambda>k. fails (DdlExec k)) 0 migrate_stmts c = (None, c') \<and> cl = river_client cfg \<and>
    acts = [OpenPool dsn, RiverMigrated, GuaMigrated c', StartClient cl]"
  using assms by (auto simp: NewRiver_def migrate_def split: option.splits prod.splits)

lemma NewRiver_failed:
  assumes "NewRiver fails c dsn cfg = (Inl e, acts)"
  shows "Serving \<notin> set acts" and "acts = [] \<or> (\<exists>rest. acts = OpenPool dsn # rest @ [PoolClosed])"
  using assms by (auto simp: NewRiver_def migrate_def split: option.splits prod.splits)


text \<open>
  The fatal exits after \<open>NewRiver\<close> leave River running and the pool open: \<open>os.Exit\<close> skips the
  deferred \<open>Close\<close>.
\<close>

lemma failed_listen_skips_close:
  assumes "env_file = []" and "river_config env0 host = Some cfg" and "fails = (\<lambda>k. if k = ListenHttp then Some e else None)"
    and "exec_all (\<lambda>_. None) 0 migrate_stmts c = (None, c')"
  shows "startRiver fails in_time c env_file env0 env1 host =
    [OpenPool (env0 ''PG_DSN''), RiverMigrated, GuaMigrated c', StartClient (river_client cfg),
     GrpcListening (env0 ''GRPC_LISTEN''), Exited 1]"
  using assms by (simp add: startRiver_def NewRiver_def migrate_def logFatal_def)

text \<open>River stops waiting for deliveries before \<open>Close\<close> gives up on River, and the pings of the
  delivery connections are within what such a server allows.\<close>

lemma shutdown_nested:
  "drainTimeout < close_deadline" "fst grpc_enforcement \<le> ka_time pool_keepalive"
  "ka_without_stream pool_keepalive \<longrightarrow> snd grpc_enforcement"
  by (simp_all add: close_deadline_def drainTimeout_def grpc_enforcement_def pool_keepalive_def nanos_per_sec_def)

end
