(* ===== verification/Gua_Main.thy ===== *)
theory Gua_Main
  imports River_Start
begin

text \<open>
  The command line, \<open>main.go\<close> and \<open>start\<close> of \<open>cmd.go\<close>: the description of the program that is
  given to the library \<open>urfave/cli\<close>, and what \<open>main\<close> does with its outcome. How the library
  reads the arguments is a parameter.
\<close>

section \<open>The description of the program\<close>

datatype cli_flag = StringFlag string string | BoolFlag string string

text \<open>What an action can ask for: the values of the flags by name.\<close>

record cli_context =
  ctx_String :: "string \<Rightarrow> string"
  ctx_Bool :: "string \<Rightarrow> bool"

record cli_command =
  cmd_name :: string
  cmd_usage :: string
  cmd_aliases :: "string list"
  cmd_action :: "cli_context \<Rightarrow> act list"
  cmd_flags :: "cli_flag list"

record cli_app =
  app_name :: string
  app_author :: string
  app_usage :: string
  app_usage_text :: string
  app_version :: string
  app_compiled :: int
  app_commands :: "cli_command list"

text \<open>The variables that the linker stamps.\<close>

record build_info =
  bi_version :: string
  bi_compileDate :: string
  bi_name :: string

definition unstamped :: build_info where
  "unstamped = \<lparr>bi_version = [], bi_compileDate = [], bi_name = ''gua''\<rparr>"

text \<open>What a run finds around it: failing calls, the database, the environment and env files.\<close>

record surroundings =
  sr_failures :: failures
  sr_in_time :: bool
  sr_catalog :: catalog
  sr_env :: environment
  sr_env_file :: "string \<Rightarrow> environment"
  sr_host :: string
  sr_now :: int

definition start :: "surroundings \<Rightarrow> cli_context \<Rightarrow> act list" where
  "start sr c =
     (let f = ctx_String c ''env-file'' in
      startRiver (sr_failures sr) (sr_in_time sr) (sr_catalog sr) f (sr_env sr) (sr_env_file sr f) (sr_host sr))"

definition cmdStart :: "surroundings \<Rightarrow> cli_command" where
  "cmdStart sr = \<lparr>cmd_name = ''start'', cmd_usage = ''start gua server'', cmd_aliases = [''st''], cmd_action = start sr,
     cmd_flags = [StringFlag ''env-file,e'' ''import env file'', BoolFlag ''debug,d'' ''open debug mode'']\<rparr>"

definition help_suffix :: string where
  "help_suffix = ''\<newline>WEBSITE:\<newline>'' @ [CHR 0x09, CHR 0x09] @ ''https://github.com/syhlion/gua\<newline>\<newline>''"

definition gua_app :: "build_info \<Rightarrow> surroundings \<Rightarrow> cli_app" where
  "gua_app b sr = \<lparr>app_name = bi_name b, app_author = ''Scott (syhlion)'', app_usage = [],
     app_usage_text = ''gua [start] [-e envfile] [-d]'', app_version = bi_version b, app_compiled = sr_now sr,
     app_commands = [cmdStart sr]\<rparr>"

section \<open>Running it\<close>

text \<open>
  The library finds a command for the arguments and runs its action, or prints a text, or fails.
  It is given the template of the help text, the library's own and the suffix.
\<close>

datatype cli_outcome = RunAction cli_command cli_context | Printed string | RunFailed string

definition gua_main ::
  "(string \<Rightarrow> cli_app \<Rightarrow> string list \<Rightarrow> cli_outcome) \<Rightarrow> string \<Rightarrow> build_info \<Rightarrow> surroundings \<Rightarrow> string list \<Rightarrow> string \<times> act list" where
  "gua_main run template b sr args =
     (case run (template @ help_suffix) (gua_app b sr) args of
        RunAction c ctx \<Rightarrow> ([], cmd_action c ctx)
      | Printed s \<Rightarrow> ([], [Exited 0])
      | RunFailed err \<Rightarrow> (err @ ''\<newline>'', [Exited 1]))"

text \<open>
  What is documented of the library: the command it runs is one of the program's.
\<close>

definition finds_commands :: "(string \<Rightarrow> cli_app \<Rightarrow> string list \<Rightarrow> cli_outcome) \<Rightarrow> bool" where
  "finds_commands run \<longleftrightarrow>
     (\<forall>template app args c ctx. run template app args = RunAction c ctx \<longrightarrow> c \<in> set (app_commands app))"

lemma startRiver_exits: "\<exists>acts status. startRiver fails in_time c env_file env0 env1 host = acts @ [Exited status]"
proof -
  let ?acts = "startRiver fails in_time c env_file env0 env1 host"
  have "?acts \<noteq> [] \<and> (\<exists>status. last ?acts = Exited status)"
    by (auto simp: startRiver_def logFatal_def drain_def Let_def split: option.split sum.split prod.split)
  then show ?thesis by (metis append_butlast_last_id)
qed

text \<open>Every run ends with a status, and reports an error only with status 1 and without serving.\<close>

lemma main_exits:
  assumes "finds_commands run" and "gua_main run template b sr args = (err, acts)"
  shows "\<exists>before status. acts = before @ [Exited status] \<and> (err \<noteq> [] \<longrightarrow> before = [] \<and> status = 1)"
proof (cases "run (template @ help_suffix) (gua_app b sr) args")
  case (RunAction c ctx)
  have "c \<in> set (app_commands (gua_app b sr))"
    using assms(1) RunAction unfolding finds_commands_def by blast
  then have "c = cmdStart sr" by (simp add: gua_app_def)
  then have "acts = start sr ctx" "err = []" using assms(2) RunAction by (simp_all add: gua_main_def cmdStart_def)
  then show ?thesis using startRiver_exits by (auto simp: start_def Let_def)
qed (use assms(2) in \<open>auto simp: gua_main_def\<close>)

text \<open>No part of the program asks for the flag \<open>--debug\<close>.\<close>

lemma debug_flag_unread: "start sr (c\<lparr>ctx_Bool := f\<rparr>) = start sr c"
  by (simp add: start_def)

end
