(* ===== verification/Prune_Schedule.thy ===== *)
theory Prune_Schedule
  imports River_Config Pg_Store
begin

text \<open>
  When the history is pruned: the periodic insertion of \<open>pruneArgs\<close> under its \<open>InsertOpts\<close>, and
  the rows of this kind as the vendored River client keeps them. Only these rows are in the state,
  each with the time it was completed; a row in a state of the unique set refuses an insertion.
\<close>

section \<open>Insert options\<close>

text \<open>The fields of \<open>river.UniqueOpts\<close> that \<open>pruneArgs\<close> sets or leaves to their defaults.\<close>

record unique_opts =
  uo_ByArgs :: bool
  uo_ByState :: "river_state list"

definition UniqueOptsByStateDefault :: "river_state list" where
  "UniqueOptsByStateDefault = [Available, Completed, Pending, Retryable, Running, Scheduled]"

definition StateBitmask :: "unique_opts \<Rightarrow> river_state list" where
  "StateBitmask opts = (if uo_ByState opts \<noteq> [] then uo_ByState opts else UniqueOptsByStateDefault)"

text \<open>\<open>InsertOpts\<close> of \<open>pruneArgs\<close>; its arguments have no fields, so all its rows share one key.\<close>

definition prune_InsertOpts :: unique_opts where
  "prune_InsertOpts = \<lparr>uo_ByArgs = True, uo_ByState = []\<rparr>"

definition CompletedJobRetentionPeriodDefault :: int where
  "CompletedJobRetentionPeriodDefault = 24 * 3600 * nanos_per_sec"

section \<open>The rows\<close>

record prune_row =
  pr_state :: river_state
  pr_finalized :: int

text \<open>The rows, the clock, and the times at which runs of the worker were completed, latest first.\<close>

record prune_table =
  pt_rows :: "prune_row list"
  pt_clock :: int
  pt_runs :: "int list"

definition refuses :: "unique_opts \<Rightarrow> prune_row \<Rightarrow> bool" where
  "refuses opts r \<longleftrightarrow> uo_ByArgs opts \<and> pr_state r \<in> set (StateBitmask opts)"

text \<open>
  \<open>INSERT ... ON CONFLICT (unique_key) WHERE river_job_state_in_bitmask(...)\<close>. On a conflict the row
  that is there stays, and only its kind is written again.
\<close>

definition insert_unique :: "unique_opts \<Rightarrow> prune_table \<Rightarrow> prune_table" where
  "insert_unique opts t =
     (if list_ex (refuses opts) (pt_rows t) then t
      else t\<lparr>pt_rows := pt_rows t @ [\<lparr>pr_state = Available, pr_finalized = 0\<rparr>]\<rparr>)"

definition periodic_insert :: "prune_table \<Rightarrow> prune_table" where
  "periodic_insert = insert_unique prune_InsertOpts"

definition outdated :: "int \<Rightarrow> prune_row \<Rightarrow> bool" where
  "outdated now r \<longleftrightarrow> pr_state r = Completed \<and> pr_finalized r < now - CompletedJobRetentionPeriodDefault"

text \<open>The part of \<open>JobDeleteBefore\<close> that deletes completed rows.\<close>

definition clean_completed :: "prune_table \<Rightarrow> prune_table" where
  "clean_completed t = t\<lparr>pt_rows := filter (\<lambda>r. \<not> outdated (pt_clock t) r) (pt_rows t)\<rparr>"

definition move_row :: "prune_row list \<Rightarrow> river_state \<Rightarrow> prune_row \<Rightarrow> prune_row list \<Rightarrow> prune_table \<Rightarrow> prune_table" where
  "move_row xs new r ys t = t\<lparr>pt_rows := xs @ r\<lparr>pr_state := new\<rparr> # ys\<rparr>"

text \<open>
  What can happen, in any order: time passes; the leader's timer or a new leader inserts; a worker
  fetches a row; a run completes; it fails and waits for a retry, or is discarded; the retry
  becomes due; the cleaner deletes.
\<close>

inductive prune_step :: "prune_table \<Rightarrow> prune_table \<Rightarrow> bool" for t :: prune_table where
  wait: "0 \<le> d \<Longrightarrow> prune_step t (t\<lparr>pt_clock := pt_clock t + d\<rparr>)"
| tick: "prune_step t (periodic_insert t)"
| fetch: "pt_rows t = xs @ r # ys \<Longrightarrow> pr_state r = Available \<Longrightarrow> prune_step t (move_row xs Running r ys t)"
| complete: "pt_rows t = xs @ r # ys \<Longrightarrow> pr_state r = Running \<Longrightarrow>
    prune_step t (t\<lparr>pt_rows := xs @ \<lparr>pr_state = Completed, pr_finalized = pt_clock t\<rparr> # ys, pt_runs := pt_clock t # pt_runs t\<rparr>)"
| fail: "pt_rows t = xs @ r # ys \<Longrightarrow> pr_state r = Running \<Longrightarrow> s \<in> {Retryable, Discarded} \<Longrightarrow>
    prune_step t (move_row xs s r ys t)"
| retry: "pt_rows t = xs @ r # ys \<Longrightarrow> pr_state r = Retryable \<Longrightarrow> prune_step t (move_row xs Available r ys t)"
| clean: "prune_step t (clean_completed t)"

inductive prune_reach :: "prune_table \<Rightarrow> bool" where
  empty: "prune_reach \<lparr>pt_rows = [], pt_clock = c, pt_runs = []\<rparr>"
| more: "prune_reach t \<Longrightarrow> prune_step t t' \<Longrightarrow> prune_reach t'"

section \<open>How often it is pruned\<close>

abbreviation holds_key :: "prune_row \<Rightarrow> bool" where
  "holds_key \<equiv> refuses prune_InsertOpts"

lemma holds_key_iff: "holds_key r \<longleftrightarrow> pr_state r \<notin> {Discarded, Cancelled}"
  by (cases "pr_state r") (simp_all add: refuses_def prune_InsertOpts_def StateBitmask_def UniqueOptsByStateDefault_def)

definition day_apart :: "int list \<Rightarrow> bool" where
  "day_apart ts \<longleftrightarrow> sorted_wrt (\<lambda>a b. b + CompletedJobRetentionPeriodDefault < a) ts"

definition prune_inv :: "prune_table \<Rightarrow> bool" where
  "prune_inv t \<longleftrightarrow> length (filter holds_key (pt_rows t)) \<le> 1 \<and> day_apart (pt_runs t) \<and>
     (\<forall>c rest. pt_runs t = c # rest \<longrightarrow> c \<le> pt_clock t \<and>
        (pt_clock t \<le> c + CompletedJobRetentionPeriodDefault \<longrightarrow>
         \<lparr>pr_state = Completed, pr_finalized = c\<rparr> \<in> set (pt_rows t)))"

lemma inv_move:
  assumes "prune_inv t" and "pt_rows t = xs @ r # ys" and "pr_state r \<in> {Available, Running, Retryable}"
  shows "prune_inv (move_row xs s r ys t)"
  using assms by (auto simp: prune_inv_def move_row_def holds_key_iff split: if_splits)

lemma inv_step:
  assumes "prune_step t t'" and "prune_inv t" shows "prune_inv t'"
  using assms(1)
proof cases
  case (wait d)
  with assms(2) show ?thesis by (force simp: prune_inv_def)
next
  case tick
  with assms(2) show ?thesis
    by (auto simp: prune_inv_def periodic_insert_def insert_unique_def filter_empty_conv list_ex_iff)
next
  case (complete xs r ys)
  let ?later = "\<lambda>c. c + CompletedJobRetentionPeriodDefault < pt_clock t"
  have key: "filter holds_key xs = []" "filter holds_key ys = []"
    using assms(2) complete by (auto simp: prune_inv_def holds_key_iff)
  then have none: "\<lparr>pr_state = Completed, pr_finalized = c\<rparr> \<notin> set (pt_rows t)" for c
    using complete by (auto simp: filter_empty_conv holds_key_iff)
  have "list_all ?later (pt_runs t)"
  proof (cases "pt_runs t")
    case (Cons c rest)
    with assms(2) none have "?later c" by (force simp: prune_inv_def)
    with assms(2) Cons show ?thesis
      by (fastforce simp: prune_inv_def day_apart_def list_all_iff CompletedJobRetentionPeriodDefault_def nanos_per_sec_def)
  qed simp
  with assms(2) key show ?thesis unfolding complete
    by (simp add: prune_inv_def day_apart_def list_all_iff holds_key_iff)
next
  case clean
  have "length (filter holds_key (filter P rows)) \<le> length (filter holds_key rows)" for P rows
    by (induction rows) auto
  note fewer = le_trans [OF this]
  from assms(2) have "length (filter holds_key (pt_rows t')) \<le> 1"
    unfolding clean prune_inv_def clean_completed_def by (simp add: fewer del: filter_filter)
  with assms(2) show ?thesis unfolding clean
    by (auto simp: prune_inv_def clean_completed_def outdated_def)
qed (use inv_move [OF assms(2)] in auto)

lemma reach_inv: "prune_reach t \<Longrightarrow> prune_inv t"
proof (induction rule: prune_reach.induct)
  case (empty c)
  then show ?case by (simp add: prune_inv_def day_apart_def)
qed (rule inv_step)

text \<open>C24: the history is pruned at most once a day. However short the prune interval is and however
  often the timer of a leader fires, two completed runs of the prune worker are more than 24 hours
  apart, and until 24 hours after a run an insertion leaves no new row: the row of the completed run
  still holds the unique key. The interval that gua asks for by default is ten minutes.\<close>

theorem prune_runs_day_apart:
  assumes "prune_reach t"
  shows "sorted_wrt (\<lambda>later earlier. earlier + CompletedJobRetentionPeriodDefault < later) (pt_runs t) \<and>
    (\<forall>c rest. pt_runs t = c # rest \<longrightarrow> pt_clock t \<le> c + CompletedJobRetentionPeriodDefault \<longrightarrow> periodic_insert t = t) \<and>
    144 * defaultPruneInterval = CompletedJobRetentionPeriodDefault"
proof -
  note inv = reach_inv [OF assms]
  have "periodic_insert t = t"
    if "pt_runs t = c # rest" "pt_clock t \<le> c + CompletedJobRetentionPeriodDefault" for c rest
  proof -
    from inv that have "\<lparr>pr_state = Completed, pr_finalized = c\<rparr> \<in> set (pt_rows t)" by (auto simp: prune_inv_def)
    then have "list_ex holds_key (pt_rows t)" by (force simp: list_ex_iff holds_key_iff)
    then show ?thesis by (simp add: periodic_insert_def insert_unique_def)
  qed
  with inv show ?thesis
    by (simp add: prune_inv_def day_apart_def CompletedJobRetentionPeriodDefault_def defaultPruneInterval_def)
qed

text \<open>Ten minutes after its first run.\<close>

definition after_first_run :: prune_table where
  "after_first_run = \<lparr>pt_rows = [\<lparr>pr_state = Completed, pr_finalized = 0\<rparr>], pt_clock = defaultPruneInterval, pt_runs = [0]\<rparr>"

lemma after_first_run_reached: "prune_reach after_first_run"
proof -
  let ?t0 = "\<lparr>pt_rows = [], pt_clock = 0, pt_runs = []\<rparr>" and ?r = "\<lparr>pr_state = Available, pr_finalized = 0\<rparr>"
  have ins: "periodic_insert ?t0 = \<lparr>pt_rows = [?r], pt_clock = 0, pt_runs = []\<rparr>"
    by (simp add: periodic_insert_def insert_unique_def)
  have 1: "prune_reach \<lparr>pt_rows = [?r], pt_clock = 0, pt_runs = []\<rparr>"
    using more [OF empty tick, of 0] by (simp add: ins)
  have 2: "prune_reach \<lparr>pt_rows = [?r\<lparr>pr_state := Running\<rparr>], pt_clock = 0, pt_runs = []\<rparr>"
    using more [OF 1 fetch [of _ "[]" ?r "[]"]] by (simp add: move_row_def)
  have 3: "prune_reach \<lparr>pt_rows = [\<lparr>pr_state = Completed, pr_finalized = 0\<rparr>], pt_clock = 0, pt_runs = [0]\<rparr>"
    using more [OF 2 complete [of _ "[]" "?r\<lparr>pr_state := Running\<rparr>" "[]"]] by simp
  from more [OF 3 wait [of defaultPruneInterval]] show ?thesis
    by (simp add: after_first_run_def defaultPruneInterval_def nanos_per_sec_def)
qed

theorem prune_runs_day_apart_witness:
  "periodic_insert after_first_run = after_first_run \<and> pt_runs after_first_run = [0] \<and>
   pt_clock after_first_run = 600 * nanos_per_sec"
  using prune_runs_day_apart [OF after_first_run_reached]
  by (simp add: after_first_run_def defaultPruneInterval_def CompletedJobRetentionPeriodDefault_def nanos_per_sec_def)

end
