(* ===== verification/Console_Page.thy ===== *)
theory Console_Page
  imports Http_Api
begin

text \<open>
  The console page of \<open>ui.go\<close>: its script as functions of the replies it fetches, cut at the points
  where it awaits one. Strings are the UTF-8 bytes, and the numbers of the replies integers. A
  JavaScript value is \<open>json option\<close>, \<open>None\<close> for \<open>undefined\<close>; an exception is \<open>Inl\<close> of its message. The
  requests and the messages the engine chooses for its own exceptions are parameters.
\<close>

section \<open>Values of the script\<close>

datatype fetched =
    FetchFailed string
  | NotJson string
  | Got nat json

record browser =
  br_fetch :: "string \<Rightarrow> fetched"
  br_type_error :: "string \<Rightarrow> string"
  br_range_error :: string

type_synonym js = "json option"

definition truthy :: "js \<Rightarrow> bool" where
  "truthy v = (case v of
     None \<Rightarrow> False | Some JNull \<Rightarrow> False | Some (JBool b) \<Rightarrow> b | Some (JNumber lit) \<Rightarrow> atoi lit \<noteq> Some 0
   | Some (JString s) \<Rightarrow> s \<noteq> [] | _ \<Rightarrow> True)"

text \<open>\<open>String(v)\<close>. A number keeps its literal, which is what is printed for integers up to \<open>2 ^ 53\<close>.\<close>

fun join_with :: "string \<Rightarrow> string list \<Rightarrow> string" where
  "join_with sep [] = []"
| "join_with sep [s] = s"
| "join_with sep (s # ss) = s @ sep @ join_with sep ss"

fun json_text :: "json \<Rightarrow> string" where
  "json_text JNull = ''null''"
| "json_text (JBool b) = (if b then ''true'' else ''false'')"
| "json_text (JNumber lit) = lit"
| "json_text (JString s) = s"
| "json_text (JArray vs) = join_with '','' (map (\<lambda>v. if v = JNull then [] else json_text v) vs)"
| "json_text (JObject kvs) = ''[object Object]''"

definition js_text :: "js \<Rightarrow> string" where
  "js_text v = (case v of None \<Rightarrow> ''undefined'' | Some j \<Rightarrow> json_text j)"

text \<open>\<open>x.k\<close>, the last of duplicate keys; an exception on \<open>undefined\<close> and \<open>null\<close>.\<close>

definition prop_of :: "browser \<Rightarrow> js \<Rightarrow> string \<Rightarrow> string + js" where
  "prop_of br x k = (case x of
     None \<Rightarrow> Inl (br_type_error br k)
   | Some JNull \<Rightarrow> Inl (br_type_error br k)
   | Some (JObject kvs) \<Rightarrow> Inr (map_of (rev kvs) k)
   | _ \<Rightarrow> Inr None)"

section \<open>Texts\<close>

fun esc_char :: "char \<Rightarrow> string" where
  "esc_char c = (if c = CHR ''&'' then ''&amp;'' else if c = CHR ''<'' then ''&lt;''
     else if c = CHR ''>'' then ''&gt;'' else [c])"

definition esc :: "js \<Rightarrow> string" where
  "esc s = concat (map esc_char (if s = None \<or> s = Some JNull then [] else js_text s))"

text \<open>
  \<open>new Date(u*1000).toISOString()\<close>. A date is at most \<open>8.64e15\<close> milliseconds from 1970, beyond
  it is an exception; a value that is not an integer of a reply counts as no number.
\<close>

definition date_limit :: int where
  "date_limit = 8640000000000"

fun pad :: "nat \<Rightarrow> int \<Rightarrow> string" where
  "pad k n = replicate (k - length (show_digits n)) (CHR ''0'') @ show_digits n"

definition year_text :: "int \<Rightarrow> string" where
  "year_text y = (if 0 \<le> y \<and> y \<le> 9999 then pad 4 y
     else if y < 0 then CHR ''-'' # pad 6 (- y) else CHR ''+'' # pad 6 y)"

definition date_text :: "int \<Rightarrow> string" where
  "date_text u = year_text (year_of u) @ ''-'' @ pad 2 (month_of u) @ ''-'' @ pad 2 (mday_of u)"

definition clock_text :: "int \<Rightarrow> string" where
  "clock_text u = pad 2 (hour_of u) @ '':'' @ pad 2 (minute_of u) @ '':'' @ pad 2 (second_of u)"

definition toISOString :: "int \<Rightarrow> string" where
  "toISOString u = date_text u @ ''T'' @ clock_text u @ ''.000Z''"

text \<open>\<open>s.replace(a, b)\<close>: the first occurrence.\<close>

fun replace_first :: "string \<Rightarrow> string \<Rightarrow> string \<Rightarrow> string" where
  "replace_first a b [] = (if a = [] then b else [])"
| "replace_first a b (c # cs) =
     (if has_prefix a (c # cs) then b @ drop (length a) (c # cs) else c # replace_first a b cs)"

definition js_integer :: "js \<Rightarrow> int option" where
  "js_integer u = (case u of Some (JNumber lit) \<Rightarrow> atoi lit | Some (JBool b) \<Rightarrow> Some (if b then 1 else 0) | _ \<Rightarrow> None)"

definition ts :: "browser \<Rightarrow> js \<Rightarrow> string + string" where
  "ts br u = (if \<not> truthy u then Inr ''-'' else
     case js_integer u of
       None \<Rightarrow> Inl (br_range_error br)
     | Some n \<Rightarrow> if \<bar>n\<bar> > date_limit then Inl (br_range_error br)
         else Inr (replace_first ''.000Z'' '''' (replace_first ''T'' '' '' (toISOString n))))"

section \<open>Requests\<close>

text \<open>\<open>encodeURIComponent\<close>.\<close>

definition uri_plain :: "char \<Rightarrow> bool" where
  "uri_plain c = (let n = of_char c :: nat in
     (97 \<le> n \<and> n \<le> 122) \<or> (65 \<le> n \<and> n \<le> 90) \<or> (48 \<le> n \<and> n \<le> 57) \<or> c \<in> set ''-_.!~*()'' \<or> n = 39)"

definition uri_digit :: "nat \<Rightarrow> char" where
  "uri_digit n = (if n < 10 then char_of (48 + n) else char_of (55 + n))"

fun encode_char :: "char \<Rightarrow> string" where
  "encode_char c = (if uri_plain c then [c] else
     (let n = of_char c :: nat in [CHR ''%'', uri_digit (n div 16), uri_digit (n mod 16)]))"

definition encodeURIComponent :: "string \<Rightarrow> string" where
  "encodeURIComponent s = concat (map encode_char s)"

text \<open>The function \<open>j\<close>: the value of \<open>success\<close>, or an exception with the text of \<open>error\<close>.\<close>

definition fetch_json :: "browser \<Rightarrow> string \<Rightarrow> string + js" where
  "fetch_json br u = (case br_fetch br u of
     FetchFailed m \<Rightarrow> Inl m
   | NotJson m \<Rightarrow> Inl m
   | Got status b \<Rightarrow>
       if 200 \<le> status \<and> status \<le> 299 then prop_of br (Some b) ''success''
       else
         rbind (if truthy (Some b) then prop_of br (Some b) ''error'' else Inr (Some b)) (\<lambda>e.
         Inl (u @ '' '' @ show_int (int status) @ '' '' @ (if truthy e then js_text e else []))))"

section \<open>Tables\<close>

type_synonym column = "string \<times> (js \<Rightarrow> string + string)"

fun all_results :: "('e + 'a) list \<Rightarrow> 'e + 'a list" where
  "all_results [] = Inr []"
| "all_results (r # rs) = rbind r (\<lambda>x. rbind (all_results rs) (\<lambda>xs. Inr (x # xs)))"

text \<open>What \<open>for (const x of rows)\<close> goes through; nothing when \<open>rows\<close> or its length is falsy.\<close>

definition elements :: "browser \<Rightarrow> js \<Rightarrow> string + js list" where
  "elements br rows = (case rows of
     Some (JArray xs) \<Rightarrow> Inr (map Some xs)
   | Some (JString s) \<Rightarrow> Inr (map (\<lambda>c. Some (JString [c])) s)
   | Some (JObject kvs) \<Rightarrow> if truthy (map_of (rev kvs) ''length'') then Inl (br_type_error br ''iterator'') else Inr []
   | _ \<Rightarrow> Inr [])"

definition row_html :: "column list \<Rightarrow> js \<Rightarrow> string + string" where
  "row_html cols x = rbind (all_results (map (\<lambda>c. snd c x) cols)) (\<lambda>cs.
     Inr (''<tr>'' @ concat (map (\<lambda>c. ''<td>'' @ c @ ''</td>'') cs) @ ''</tr>''))"

definition table_html :: "js list \<Rightarrow> column list \<Rightarrow> string + string" where
  "table_html rows cols =
     (if rows = [] then Inr ''<div class=\"muted\">(none)</div>''
      else rbind (all_results (map (row_html cols) rows)) (\<lambda>rs.
        Inr (''<table><tr>'' @ concat (map (\<lambda>c. ''<th>'' @ fst c @ ''</th>'') cols) @ ''</tr>'' @
          concat rs @ ''</table>'')))"

text \<open>The cells of the three tables.\<close>

definition raw_cell :: "browser \<Rightarrow> string \<Rightarrow> js \<Rightarrow> string + string" where
  "raw_cell br k x = rbind (prop_of br x k) (\<lambda>v. Inr (js_text v))"

definition esc_cell :: "browser \<Rightarrow> string \<Rightarrow> js \<Rightarrow> string + string" where
  "esc_cell br k x = rbind (prop_of br x k) (\<lambda>v. Inr (esc v))"

definition ts_cell :: "browser \<Rightarrow> string \<Rightarrow> js \<Rightarrow> string + string" where
  "ts_cell br k x = rbind (prop_of br x k) (ts br)"

definition flag_cell :: "browser \<Rightarrow> string \<Rightarrow> string \<Rightarrow> string \<Rightarrow> js \<Rightarrow> string + string" where
  "flag_cell br k yes no x = rbind (prop_of br x k) (\<lambda>v. Inr (if truthy v then yes else no))"

definition bad_span :: "string \<Rightarrow> string" where
  "bad_span s = ''<span class=bad>'' @ s @ ''</span>''"

definition status_cols :: "browser \<Rightarrow> column list" where
  "status_cols br =
     [(''pending'', raw_cell br ''ready_queue_depth''), (''running'', raw_cell br ''running''),
      (''retryable'', \<lambda>x. rbind (prop_of br x ''retryable'') (\<lambda>v.
         Inr (if truthy v then bad_span (js_text v) else ''0''))),
      (''jobs active'', raw_cell br ''jobs_active''), (''jobs paused'', raw_cell br ''jobs_paused''),
      (''now'', ts_cell br ''now'')]"

definition job_cols :: "browser \<Rightarrow> column list" where
  "job_cols br =
     [(''id'', esc_cell br ''id''), (''name'', esc_cell br ''name''), (''next_exec'', ts_cell br ''exec_time''),
      (''interval'', esc_cell br ''interval_pattern''), (''url'', esc_cell br ''request_url''),
      (''active'', flag_cell br ''active'' ''<span class=ok>on</span>'' ''<span class=muted>paused</span>'')]"

definition history_cols :: "browser \<Rightarrow> column list" where
  "history_cols br =
     [(''job_id'', esc_cell br ''job_id''), (''type'', esc_cell br ''type''), (''exec'', ts_cell br ''exec_time''),
      (''finish'', ts_cell br ''finish_time''),
      (''result'', flag_cell br ''success'' ''<span class=ok>ok</span>'' ''<span class=bad>fail</span>''),
      (''detail'', \<lambda>x. rbind (prop_of br x ''error'') (\<lambda>e.
         if truthy e then Inr (esc e) else esc_cell br ''message'' x)),
      (''host'', esc_cell br ''exec_machine_host'')]"

section \<open>The page\<close>

text \<open>The contents of the elements the script sets, and whether its timer runs.\<close>

record console =
  pg_ver :: string
  pg_status :: string
  pg_jobs :: string
  pg_hist :: string
  pg_ar :: string
  pg_timer :: bool

definition loaded_page :: console where
  "loaded_page = \<lparr>pg_ver = [], pg_status = [], pg_jobs = [], pg_hist = [], pg_ar = ''off'', pg_timer = False\<rparr>"

text \<open>\<open>try { el.innerHTML = table(...) } catch (e) { el.innerHTML = ... }\<close>\<close>

definition panel :: "string + string \<Rightarrow> string" where
  "panel r = (case r of Inl message \<Rightarrow> bad_span (esc (Some (JString message))) | Inr html \<Rightarrow> html)"

text \<open>\<open>String.prototype.trim\<close>: the white space and line ends of ECMAScript, as UTF-8.\<close>

definition js_spaces :: "string list" where
  "js_spaces =
     [[CHR 0x09], [CHR 0x0A], [CHR 0x0B], [CHR 0x0C], [CHR 0x0D], [CHR 0x20], [CHR 0xC2, CHR 0xA0],
      [CHR 0xE1, CHR 0x9A, CHR 0x80]] @
     map (\<lambda>n. [CHR 0xE2, CHR 0x80, char_of n]) [0x80..<0x8B] @
     [[CHR 0xE2, CHR 0x80, CHR 0xA8], [CHR 0xE2, CHR 0x80, CHR 0xA9], [CHR 0xE2, CHR 0x80, CHR 0xAF],
      [CHR 0xE2, CHR 0x81, CHR 0x9F], [CHR 0xE3, CHR 0x80, CHR 0x80], [CHR 0xEF, CHR 0xBB, CHR 0xBF]]"

function drop_spaces :: "string list \<Rightarrow> string \<Rightarrow> string" where
  "drop_spaces es s = (case find (\<lambda>e. e \<noteq> [] \<and> has_prefix e s) es of
     None \<Rightarrow> s | Some e \<Rightarrow> drop_spaces es (drop (length e) s))"
  by pat_completeness auto
termination
proof (relation "measure (\<lambda>(es, s). length s)")
  fix es :: "string list" and s e
  assume "find (\<lambda>e. e \<noteq> [] \<and> has_prefix e s) es = Some e"
  then have "e \<noteq> []" "length e \<le> length s" by (auto dest!: find_SomeD intro: has_prefix_length)
  then show "((es, drop (length e) s), es, s) \<in> measure (\<lambda>(es, s). length s)" by (cases e) auto
qed simp

declare drop_spaces.simps [simp del]

definition js_trim :: "string \<Rightarrow> string" where
  "js_trim s = rev (drop_spaces (map rev js_spaces) (rev (drop_spaces js_spaces s)))"

definition load_status :: "browser \<Rightarrow> string + string" where
  "load_status br = rbind (fetch_json br ''/v1/status'') (\<lambda>s. table_html [s] (status_cols br))"

definition load_jobs :: "browser \<Rightarrow> string \<Rightarrow> string + string" where
  "load_jobs br g = rbind (fetch_json br (''/v1/groups/'' @ encodeURIComponent g @ ''/jobs'')) (\<lambda>jobs.
     rbind (elements br jobs) (\<lambda>rows. table_html rows (job_cols br)))"

definition load_history :: "browser \<Rightarrow> string \<Rightarrow> string + string" where
  "load_history br g = rbind (fetch_json br (''/v1/groups/'' @ encodeURIComponent g @ ''/history?limit=100'')) (\<lambda>h.
     rbind (elements br h) (\<lambda>rows. table_html rows (history_cols br)))"

definition show_version :: "browser \<Rightarrow> console \<Rightarrow> console" where
  "show_version br pg = (case fetch_json br ''/version'' of
     Inl _ \<Rightarrow> pg
   | Inr v \<Rightarrow> pg\<lparr>pg_ver := (if v = None \<or> v = Some JNull then [] else js_text v)\<rparr>)"

text \<open>
  A call of \<open>load()\<close> in progress: the group it read from the input field when it was called, and
  the reply it awaits.
\<close>

datatype load_stage = AwaitsVersion | AwaitsStatus | AwaitsJobs | AwaitsHistory

record load_call =
  lc_group :: string
  lc_stage :: load_stage

definition load_begin :: "string \<Rightarrow> load_call" where
  "load_begin field = \<lparr>lc_group = js_trim field, lc_stage = AwaitsVersion\<rparr>"

text \<open>What a call does when its reply is there, up to its next request or its end.\<close>

definition load_resume :: "browser \<Rightarrow> load_call \<Rightarrow> console \<Rightarrow> console \<times> load_call option" where
  "load_resume br c pg =
     (let g = lc_group c in
      case lc_stage c of
        AwaitsVersion \<Rightarrow> (show_version br pg, Some (c\<lparr>lc_stage := AwaitsStatus\<rparr>))
      | AwaitsStatus \<Rightarrow>
          (let pg' = pg\<lparr>pg_status := panel (load_status br)\<rparr> in
           if g = [] then (pg'\<lparr>pg_jobs := ''<div class=muted>enter a group</div>'', pg_hist := []\<rparr>, None)
           else (pg', Some (c\<lparr>lc_stage := AwaitsJobs\<rparr>)))
      | AwaitsJobs \<Rightarrow> (pg\<lparr>pg_jobs := panel (load_jobs br g)\<rparr>, Some (c\<lparr>lc_stage := AwaitsHistory\<rparr>))
      | AwaitsHistory \<Rightarrow> (pg\<lparr>pg_hist := panel (load_history br g)\<rparr>, None))"

text \<open>A call that nothing interrupts: its replies come one after the other.\<close>

definition stage_rank :: "load_stage \<Rightarrow> nat" where
  "stage_rank s = (case s of AwaitsVersion \<Rightarrow> 3 | AwaitsStatus \<Rightarrow> 2 | AwaitsJobs \<Rightarrow> 1 | AwaitsHistory \<Rightarrow> 0)"

function load_alone :: "browser \<Rightarrow> load_call \<Rightarrow> console \<Rightarrow> console" where
  "load_alone br c pg = (case load_resume br c pg of
     (pg', None) \<Rightarrow> pg' | (pg', Some c') \<Rightarrow> load_alone br c' pg')"
  by pat_completeness auto
termination
  by (relation "measure (\<lambda>(br, c, pg). stage_rank (lc_stage c))")
    (auto simp: load_resume_def stage_rank_def Let_def split: load_stage.splits if_splits)

declare load_alone.simps [simp del]

definition load :: "browser \<Rightarrow> string \<Rightarrow> console \<Rightarrow> console" where
  "load br field pg = load_alone br (load_begin field) pg"

section \<open>Events\<close>

text \<open>The page with the calls of \<open>load()\<close> that have not ended.\<close>

record session =
  se_page :: console
  se_calls :: "load_call list"

definition call_load :: "string \<Rightarrow> session \<Rightarrow> session" where
  "call_load field s = s\<lparr>se_calls := se_calls s @ [load_begin field]\<rparr>"

definition toggle :: "string \<Rightarrow> session \<Rightarrow> session" where
  "toggle field s =
     (if pg_timer (se_page s) then s\<lparr>se_page := (se_page s)\<lparr>pg_timer := False, pg_ar := ''off''\<rparr>\<rparr>
      else call_load field (s\<lparr>se_page := (se_page s)\<lparr>pg_timer := True, pg_ar := ''on''\<rparr>\<rparr>))"

definition reply_arrives :: "nat \<Rightarrow> browser \<Rightarrow> session \<Rightarrow> session" where
  "reply_arrives i br s =
     (if i < length (se_calls s) then
        (case load_resume br (se_calls s ! i) (se_page s) of (pg, next_call) \<Rightarrow>
           \<lparr>se_page = pg, se_calls = take i (se_calls s) @ (case next_call of None \<Rightarrow> [] | Some c \<Rightarrow> [c]) @
              drop (Suc i) (se_calls s)\<rparr>)
      else s)"

text \<open>
  A click on a button or a turn of the timer, with the text of the input field, or a reply for one
  of the calls, in any order.
\<close>

datatype ui_event = ClickLoad string | ClickToggle string | TimerTick string | Reply nat

fun ui_step :: "browser \<Rightarrow> ui_event \<Rightarrow> session \<Rightarrow> session" where
  "ui_step br (ClickLoad field) s = call_load field s"
| "ui_step br (ClickToggle field) s = toggle field s"
| "ui_step br (TimerTick field) s = (if pg_timer (se_page s) then call_load field s else s)"
| "ui_step br (Reply i) s = reply_arrives i br s"

text \<open>The page from its first \<open>load()\<close>, each event with the replies of its time.\<close>

definition ui_start :: "string \<Rightarrow> session" where
  "ui_start field = call_load field \<lparr>se_page = loaded_page, se_calls = []\<rparr>"

definition ui_run :: "string \<Rightarrow> (browser \<times> ui_event) list \<Rightarrow> session" where
  "ui_run field es = foldl (\<lambda>s (br, e). ui_step br e s) (ui_start field) es"

end
