(* ===== verification/Console_Theorems.thy ===== *)
theory Console_Theorems
  imports Console_Page
begin

text \<open>
  What a reader of the console page sees: the HTML the script sets is read back into tags and
  characters, and compared with the data of the replies. The replies are those of a node of the
  model, \<open>serve\<close> of the HTTP API over any implementation of the queue.
\<close>

section \<open>Reading HTML\<close>

text \<open>A tag is what stands between angle brackets; the three references \<open>esc\<close> writes are characters.\<close>

datatype token = Tag string | Chr char

function tokens :: "string \<Rightarrow> token list" where
  "tokens [] = []"
| "tokens (c # cs) =
     (if c = CHR ''<'' then Tag (takeWhile (\<lambda>d. d \<noteq> CHR ''>'') cs) # tokens (drop 1 (dropWhile (\<lambda>d. d \<noteq> CHR ''>'') cs))
      else if has_prefix ''&amp;'' (c # cs) then Chr (CHR ''&'') # tokens (drop 4 cs)
      else if has_prefix ''&lt;'' (c # cs) then Chr (CHR ''<'') # tokens (drop 3 cs)
      else if has_prefix ''&gt;'' (c # cs) then Chr (CHR ''>'') # tokens (drop 3 cs)
      else Chr c # tokens cs)"
  by pat_completeness auto
termination
  by (relation "measure length") (auto simp: length_dropWhile_le less_Suc_eq_le intro: le_trans [OF diff_le_self])

fun tags_of :: "token list \<Rightarrow> string set" where
  "tags_of [] = {}"
| "tags_of (Tag t # tks) = insert t (tags_of tks)"
| "tags_of (Chr c # tks) = tags_of tks"

lemma tags_of_append [simp]: "tags_of (a @ b) = tags_of a \<union> tags_of b"
  by (induction a rule: tags_of.induct) auto

lemma tags_of_chars [simp]: "tags_of (map Chr s) = {}"
  by (induction s) auto

text \<open>\<open>s\<close> is read as the tokens \<open>tks\<close> whatever follows it.\<close>

definition reads_as :: "string \<Rightarrow> token list \<Rightarrow> bool" where
  "reads_as s tks \<longleftrightarrow> (\<forall>rest. tokens (s @ rest) = tks @ tokens rest)"

lemma reads_tokens: "reads_as s tks \<Longrightarrow> tokens s = tks"
  unfolding reads_as_def by (metis append_Nil2 tokens.simps(1))

lemma has_prefix_Cons [simp]: "has_prefix (a # p) (c # s) \<longleftrightarrow> a = c \<and> has_prefix p s"
  by (auto simp: has_prefix_def)

lemma has_prefix_Nil [simp]: "has_prefix [] s"
  by (simp add: has_prefix_def)

lemma reads_nil [intro]: "reads_as [] []"
  by (simp add: reads_as_def)

lemma reads_append [intro]: "reads_as s a \<Longrightarrow> reads_as t b \<Longrightarrow> reads_as (s @ t) (a @ b)"
  by (simp add: reads_as_def)

lemma reads_concat: "list_all2 reads_as ss tss \<Longrightarrow> reads_as (concat ss) (concat tss)"
  by (induction rule: list_all2_induct) auto

lemma reads_tag: "CHR ''>'' \<notin> set t \<Longrightarrow> reads_as (CHR ''<'' # t @ ''>'') [Tag t]"
  by (simp add: reads_as_def takeWhile_append2 dropWhile_append2 takeWhile_append dropWhile_append)

lemma reads_char: "reads_as (esc_char c) [Chr c]"
  by (auto simp: reads_as_def has_prefix_def)

text \<open>A text without markup characters is read as itself, an escaped text as what was escaped.\<close>

definition plain_text :: "string \<Rightarrow> bool" where
  "plain_text s \<longleftrightarrow> list_all (\<lambda>c. c \<notin> set ''<>&'') s"

lemma reads_plain: "plain_text s \<Longrightarrow> reads_as s (map Chr s)"
  unfolding plain_text_def
  by (induction s) (auto simp: reads_as_def has_prefix_def)

lemma reads_escaped: "reads_as (concat (map esc_char s)) (map Chr s)"
proof (induction s)
  case (Cons c s)
  from reads_append [OF reads_char [of c] Cons.IH] show ?case by simp
qed (simp add: reads_nil)

definition esc_source :: "js \<Rightarrow> string" where
  "esc_source v = (if v = None \<or> v = Some JNull then [] else js_text v)"

lemma reads_esc: "reads_as (esc v) (map Chr (esc_source v))"
  unfolding esc_def esc_source_def by (rule reads_escaped)

section \<open>Tables\<close>

definition row_view :: "token list list \<Rightarrow> token list" where
  "row_view cs = Tag ''tr'' # concat (map (\<lambda>c. Tag ''td'' # c @ [Tag ''/td'']) cs) @ [Tag ''/tr'']"

definition table_view :: "string list \<Rightarrow> token list list list \<Rightarrow> token list" where
  "table_view heads rows =
     (if rows = [] then [Tag ''div class=\"muted\"''] @ map Chr ''(none)'' @ [Tag ''/div'']
      else [Tag ''table'', Tag ''tr''] @ concat (map (\<lambda>h. Tag ''th'' # map Chr h @ [Tag ''/th'']) heads) @
        [Tag ''/tr''] @ concat (map row_view rows) @ [Tag ''/table''])"

definition bad_view :: "string \<Rightarrow> token list" where
  "bad_view s = Tag ''span class=bad'' # map Chr s @ [Tag ''/span'']"

lemma reads_td: "reads_as c v \<Longrightarrow> reads_as (''<td>'' @ c @ ''</td>'') (Tag ''td'' # v @ [Tag ''/td''])"
  by (simp add: reads_as_def)

lemma reads_th: "reads_as c v \<Longrightarrow> reads_as (''<th>'' @ c @ ''</th>'') (Tag ''th'' # v @ [Tag ''/th''])"
  by (simp add: reads_as_def)

lemma reads_wrapped:
  assumes "\<And>c v. reads_as c v \<Longrightarrow> reads_as (f c) (g v)" and "list_all2 reads_as cs vs"
  shows "reads_as (concat (map f cs)) (concat (map g vs))"
  using assms(2) by (intro reads_concat) (auto simp: list_all2_conv_all_nth intro: assms(1))

lemma reads_row:
  assumes "list_all2 reads_as cs vs"
  shows "reads_as (''<tr>'' @ concat (map (\<lambda>c. ''<td>'' @ c @ ''</td>'') cs) @ ''</tr>'') (row_view vs)"
  using reads_wrapped [OF reads_td assms] by (simp add: reads_as_def row_view_def)

lemma reads_bad_span: "reads_as s tks \<Longrightarrow> reads_as (bad_span s) (Tag ''span class=bad'' # tks @ [Tag ''/span''])"
  by (simp add: reads_as_def bad_span_def)

text \<open>Both ways a call can end, against a pair of expectations.\<close>

definition yields :: "string + string \<Rightarrow> string + token list \<Rightarrow> bool" where
  "yields r e \<longleftrightarrow> (case e of Inl m \<Rightarrow> r = Inl m | Inr tks \<Rightarrow> (\<exists>s. r = Inr s \<and> reads_as s tks))"

lemma yields_simps [simp]:
  "yields (Inr s) (Inr tks) \<longleftrightarrow> reads_as s tks"
  "yields (Inl m) (Inl m') \<longleftrightarrow> m = m'"
  "\<not> yields (Inr s) (Inl m)"
  "\<not> yields (Inl m) (Inr tks)"
  by (auto simp: yields_def)

lemma all_results_yields:
  assumes "list_all2 yields rs es"
  shows "case all_results es of Inl m \<Rightarrow> all_results rs = Inl m
    | Inr tss \<Rightarrow> (\<exists>ss. all_results rs = Inr ss \<and> list_all2 reads_as ss tss)"
  using assms
proof (induction rule: list_all2_induct)
  case (Cons r rs e es)
  show ?case
  proof (cases e)
    case (Inr tks)
    with Cons.hyps(1) obtain s where "r = Inr s" "reads_as s tks" by (auto simp: yields_def)
    with Inr Cons.IH show ?thesis by (cases "all_results es") auto
  qed (use Cons.hyps(1) in \<open>auto simp: yields_def\<close>)
qed simp

lemma row_yields:
  assumes "list_all2 yields (map (\<lambda>c. snd c x) cols) es"
  shows "yields (row_html cols x) (rbind (all_results es) (\<lambda>vs. Inr (row_view vs)))"
  using all_results_yields [OF assms]
  by (auto simp: row_html_def simp del: append_Cons append_Nil split: sum.splits intro: reads_row)

lemma all_results_map_rbind:
  "all_results (map (\<lambda>x. rbind (h x) (\<lambda>y. Inr (f y))) xs) = rbind (all_results (map h xs)) (\<lambda>ys. Inr (map f ys))"
proof (induction xs)
  case (Cons x xs)
  then show ?case by (cases "h x"; cases "all_results (map h xs)") auto
qed simp

lemma all_results_length: "all_results rs = Inr xs \<Longrightarrow> length xs = length rs"
  by (induction rs arbitrary: xs) (auto simp: rbind_eq_Inr_iff)

lemma reads_heads:
  assumes "list_all plain_text (map fst cols)"
  shows "reads_as (concat (map (\<lambda>c. ''<th>'' @ fst c @ ''</th>'') cols))
    (concat (map (\<lambda>h. Tag ''th'' # map Chr h @ [Tag ''/th'']) (map fst cols)))"
  using assms
proof (induction cols)
  case (Cons c cols)
  have "reads_as (''<th>'' @ fst c @ ''</th>'') (Tag ''th'' # map Chr (fst c) @ [Tag ''/th''])"
    using Cons.prems by (intro reads_th reads_plain) simp
  from reads_append [OF this Cons.IH] Cons.prems show ?case by simp
qed (simp add: reads_nil)

lemma table_yields:
  assumes rows: "list_all2 (\<lambda>x es. list_all2 yields (map (\<lambda>c. snd c x) cols) es) rows ess"
    and heads: "list_all plain_text (map fst cols)"
  shows "yields (table_html rows cols)
    (rbind (all_results (map all_results ess)) (\<lambda>vss. Inr (table_view (map fst cols) vss)))"
proof (cases "rows = []")
  case True
  then show ?thesis using rows by (simp add: table_html_def table_view_def reads_as_def)
next
  case False
  have "list_all2 yields (map (row_html cols) rows) (map (\<lambda>es. rbind (all_results es) (\<lambda>vs. Inr (row_view vs))) ess)"
    using rows by (auto simp: list_all2_conv_all_nth intro: row_yields)
  note all = all_results_yields [OF this, unfolded all_results_map_rbind]
  show ?thesis
  proof (cases "all_results (map all_results ess)")
    case (Inl m)
    with all False show ?thesis by (simp add: table_html_def)
  next
    case (Inr vss)
    from Inr all obtain ss where ss: "all_results (map (row_html cols) rows) = Inr ss" "list_all2 reads_as ss (map row_view vss)"
      by auto
    have "vss \<noteq> []" using all_results_length [OF Inr] rows False by (auto simp: list_all2_conv_all_nth)
    with ss(1) Inr False reads_heads [OF heads] reads_concat [OF ss(2)] show ?thesis
      by (simp add: table_html_def table_view_def reads_as_def)
  qed
qed

text \<open>A panel shows the table, or the message of the exception as text.\<close>

lemma panel_reads:
  assumes "yields r e"
  shows "reads_as (panel r) (case e of Inl m \<Rightarrow> bad_view m | Inr tks \<Rightarrow> tks)"
  using assms reads_bad_span [OF reads_esc, of "Some (JString _)"]
  by (cases e; cases r) (auto simp: panel_def bad_view_def esc_source_def js_text_def)

section \<open>Cells\<close>

definition get_of :: "js \<Rightarrow> string \<Rightarrow> js" where
  "get_of x k = (case x of Some (JObject kvs) \<Rightarrow> map_of (rev kvs) k | _ \<Rightarrow> None)"

lemma prop_of_object [simp]: "prop_of br (Some (JObject kvs)) k = Inr (map_of (rev kvs) k)"
  by (simp add: prop_of_def)

lemma plain_digits:
  assumes "list_all is_digit s" shows "plain_text s"
  using assms unfolding plain_text_def by (induction s) (auto simp: is_digit_def)

lemma plain_append [simp]: "plain_text (s @ t) \<longleftrightarrow> plain_text s \<and> plain_text t"
  by (simp add: plain_text_def)

lemma plain_Cons [simp]: "plain_text (c # s) \<longleftrightarrow> c \<notin> set ''<>&'' \<and> plain_text s"
  by (simp add: plain_text_def)

lemma plain_Nil [simp]: "plain_text []"
  by (simp add: plain_text_def)

lemma plain_show_digits [simp]: "0 \<le> n \<Longrightarrow> plain_text (show_digits n)"
  using show_digits_correct plain_digits by blast

lemma plain_show_int [simp]: "plain_text (show_int n)"
  by (simp add: show_int_def)

text \<open>Instants as the page prints them: the civil date and time in UTC.\<close>

definition time_text :: "int \<Rightarrow> string" where
  "time_text u = (if u = 0 then ''-'' else date_text u @ '' '' @ clock_text u)"

lemma replace_first_at: "c \<notin> set s \<Longrightarrow> replace_first (c # a) b (s @ (c # a) @ t) = s @ b @ t"
  by (induction s) (auto simp: has_prefix_def)

definition time_char :: "char \<Rightarrow> bool" where
  "time_char c \<longleftrightarrow> is_digit c \<or> c \<in> set ''+-:''"

lemma pad_chars: "0 \<le> n \<Longrightarrow> list_all time_char (pad k n)"
  using show_digits_correct [of n] by (auto simp: list_all_iff time_char_def is_digit_def)

lemma civil_nonneg: "0 \<le> month_of u" "0 \<le> mday_of u" "0 \<le> hour_of u" "0 \<le> minute_of u" "0 \<le> second_of u"
  using month_index_bounds [of "u div 86400"]
  by (simp_all add: month_of_def mday_of_def hour_of_def minute_of_def second_of_def
      pos_imp_zdiv_nonneg_iff)

lemma date_chars: "list_all time_char (date_text u)"
  by (auto simp: date_text_def year_text_def pad_chars civil_nonneg simp del: pad.simps) (simp_all add: time_char_def)

lemma clock_chars: "list_all time_char (clock_text u)"
  by (auto simp: clock_text_def pad_chars civil_nonneg simp del: pad.simps) (simp_all add: time_char_def)

lemma not_time_chars: "CHR ''T'' \<notin> set (date_text u)" "CHR ''.'' \<notin> set (date_text u)" "CHR ''.'' \<notin> set (clock_text u)"
  using date_chars [of u] clock_chars [of u] by (auto simp: list_all_iff time_char_def is_digit_def)

lemma iso_text: "replace_first ''.000Z'' [] (replace_first ''T'' '' '' (toISOString u)) = date_text u @ '' '' @ clock_text u"
proof -
  have "replace_first ''T'' '' '' (toISOString u) = (date_text u @ '' '' @ clock_text u) @ ''.000Z'' @ []"
    using replace_first_at [OF not_time_chars(1), of "[]" "'' ''" u "clock_text u @ ''.000Z''"] by (simp add: toISOString_def)
  moreover have "CHR ''.'' \<notin> set (date_text u @ '' '' @ clock_text u)"
    using not_time_chars by simp
  note replace_first_at [OF this, of "''000Z''" "[]" "[]"]
  ultimately show ?thesis by simp
qed

lemma ts_int:
  assumes "- (2 ^ 63) \<le> u" and "u < 2 ^ 63"
  shows "ts br (Some (json_int u)) = (if \<bar>u\<bar> > date_limit then Inl (br_range_error br) else Inr (time_text u))"
proof (cases "u = 0 \<or> \<bar>u\<bar> > date_limit")
  case True
  then show ?thesis using atoi_show_int [OF assms]
    by (auto simp: ts_def truthy_def json_int_def js_integer_def time_text_def date_limit_def)
next
  case False
  then show ?thesis using iso_text [of u] atoi_show_int [OF assms]
    by (auto simp: ts_def truthy_def json_int_def js_integer_def time_text_def)
qed

lemma plain_stamp: "plain_text (date_text u @ '' '' @ clock_text u)"
proof -
  have "plain_text s" if "list_all time_char s" for s
    using that by (auto simp: plain_text_def list_all_iff time_char_def is_digit_def)
  with date_chars clock_chars show ?thesis by simp
qed

lemma plain_time: "plain_text (time_text u)"
  using plain_stamp [of u] by (simp add: time_text_def)

section \<open>The rows of the three tables\<close>

definition chars :: "string \<Rightarrow> token list" where
  "chars s = map Chr s"

definition span :: "string \<Rightarrow> string \<Rightarrow> token list" where
  "span cls s = Tag (''span class='' @ cls) # chars s @ [Tag ''/span'']"

definition status_row :: "stats \<Rightarrow> token list list" where
  "status_row s =
     [chars (show_int (int (st_ready s))), chars (show_int (int (st_running s))),
      (if st_retryable s = 0 then chars ''0'' else span ''bad'' (show_int (int (st_retryable s)))),
      chars (show_int (int (st_active s))), chars (show_int (int (st_paused s))), chars (time_text (st_now s))]"

definition job_row :: "job \<Rightarrow> token list list" where
  "job_row j =
     [chars (job_id j), chars (job_name j), chars (time_text (exectime j)), chars (interval_pattern j),
      chars (request_url j), (if active j then span ''ok'' ''on'' else span ''muted'' ''paused'')]"

definition history_row :: "history_entry \<Rightarrow> token list list" where
  "history_row e =
     [chars (h_job_id e), chars (h_type e), chars (time_text (h_exec e)), chars (time_text (h_finish e)),
      (if h_success e then span ''ok'' ''ok'' else span ''bad'' ''fail''),
      chars (if h_error e \<noteq> [] then h_error e else h_message e), chars (h_host e)]"

definition int64 :: "int \<Rightarrow> bool" where
  "int64 n \<longleftrightarrow> - (2 ^ 63) \<le> n \<and> n < 2 ^ 63"

definition on_calendar :: "int \<Rightarrow> bool" where
  "on_calendar u \<longleftrightarrow> \<bar>u\<bar> \<le> date_limit"

definition time_cell :: "string \<Rightarrow> int \<Rightarrow> string + token list" where
  "time_cell re u = (if on_calendar u then Inr (chars (time_text u)) else Inl re)"

lemma ts_yields: "int64 u \<Longrightarrow> yields (ts br (Some (json_int u))) (time_cell (br_range_error br) u)"
  using ts_int [of u br] reads_plain [OF plain_time, of u]
  by (auto simp: int64_def time_cell_def on_calendar_def chars_def)

lemma esc_yields: "yields (Inr (esc (Some (JString s)))) (Inr (chars s))"
  using reads_esc [of "Some (JString s)"] by (simp add: esc_source_def js_text_def chars_def)

lemma int_yields: "yields (Inr (js_text (Some (json_int n)))) (Inr (chars (show_int n)))"
  by (simp add: js_text_def json_int_def chars_def reads_plain)

lemma span_reads:
  "reads_as ''<span class=ok>on</span>'' (span ''ok'' ''on'')"
  "reads_as ''<span class=muted>paused</span>'' (span ''muted'' ''paused'')"
  "reads_as ''<span class=ok>ok</span>'' (span ''ok'' ''ok'')"
  "reads_as ''<span class=bad>fail</span>'' (span ''bad'' ''fail'')"
  by (simp_all add: reads_as_def span_def chars_def)

lemma bad_span_reads: "plain_text s \<Longrightarrow> reads_as (bad_span s) (span ''bad'' s)"
  using reads_bad_span [OF reads_plain, of s] by (simp add: span_def chars_def)

lemmas cell_simps = raw_cell_def esc_cell_def ts_cell_def flag_cell_def

lemma job_cells:
  assumes "int64 (exectime j)"
  shows "list_all2 yields (map (\<lambda>c. snd c (Some (ResponseJobList j))) (job_cols br))
    (map Inr (take 2 (job_row j)) @ [time_cell (br_range_error br) (exectime j)] @ map Inr (drop 3 (job_row j)))"
  using ts_yields [OF assms, of br] esc_yields span_reads(1,2)
  by (simp add: job_cols_def cell_simps ResponseJobList_def job_row_def truthy_def)

lemma status_cells:
  assumes "int64 (st_now s)" and "int (st_retryable s) < 2 ^ 63"
  shows "list_all2 yields (map (\<lambda>c. snd c (Some (stats_json s))) (status_cols br))
    (map Inr (take 5 (status_row s)) @ [time_cell (br_range_error br) (st_now s)])"
proof -
  have "truthy (Some (json_int (int (st_retryable s)))) \<longleftrightarrow> st_retryable s \<noteq> 0"
    using atoi_show_int [of "int (st_retryable s)"] assms(2) by (simp add: truthy_def json_int_def)
  moreover have "reads_as ''0'' (chars ''0'')" by (simp add: chars_def reads_as_def)
  moreover have "js_text (Some (json_int n)) = show_int n" for n by (simp add: js_text_def json_int_def)
  ultimately show ?thesis
    using ts_yields [OF assms(1), of br] int_yields bad_span_reads [OF plain_show_int, of "int (st_retryable s)"]
    by (simp add: status_cols_def cell_simps stats_json_def status_row_def)
qed

lemma history_cells:
  assumes "int64 (h_exec e)" and "int64 (h_finish e)"
  shows "list_all2 yields (map (\<lambda>c. snd c (Some (history_json e))) (history_cols br))
    (map Inr (take 2 (history_row e)) @ [time_cell (br_range_error br) (h_exec e), time_cell (br_range_error br) (h_finish e)] @
     map Inr (drop 4 (history_row e)))"
proof -
  have none: "yields (Inr (esc None)) (Inr (chars []))" using reads_esc [of None] by (simp add: esc_source_def chars_def)
  show ?thesis
    using ts_yields [OF assms(1), of br] ts_yields [OF assms(2), of br] esc_yields span_reads(3,4) none
    by (simp add: history_cols_def cell_simps history_json_def history_row_def truthy_def omit_empty_def)
qed

section \<open>Replies of a node\<close>

text \<open>
  A browser whose requests a node answers, each in the state the node has then, or that fail; how
  the URL becomes a request is a parameter, as are the texts of errors.
\<close>

definition data_value :: "(reply_data \<Rightarrow> string) \<Rightarrow> reply_data \<Rightarrow> json" where
  "data_value words d = (case d of Value v \<Rightarrow> v | _ \<Rightarrow> JString (words d))"

definition fetched_of :: "(reply_data \<Rightarrow> string) \<Rightarrow> string \<Rightarrow> reply \<Rightarrow> fetched" where
  "fetched_of words not_json rp = (case rp_body rp of
     SuccessBody d \<Rightarrow> Got (rp_status rp) (JObject [(''success'', data_value words d)])
   | ErrorBody d \<Rightarrow> Got (rp_status rp) (JObject [(''error'', data_value words d)])
   | _ \<Rightarrow> NotJson not_json)"

definition node_browser :: "'w quene \<Rightarrow> string \<Rightarrow> (reply_data \<Rightarrow> string) \<Rightarrow> (string \<Rightarrow> api_request) \<Rightarrow>
    (string \<Rightarrow> string) \<Rightarrow> string \<Rightarrow> (string \<Rightarrow> string + 'w) \<Rightarrow> browser" where
  "node_browser q v words rq type_error range_error world =
     \<lparr>br_fetch = (\<lambda>url. case world url of
        Inl m \<Rightarrow> FetchFailed m
      | Inr w \<Rightarrow> fetched_of words (type_error ''json'') (fst (serve q v (rq url) w))),
      br_type_error = type_error, br_range_error = range_error\<rparr>"

text \<open>The request for a URL whose path needs no escapes.\<close>

definition url_query :: "string \<Rightarrow> (string \<times> string) list" where
  "url_query s = map (\<lambda>p. (takeWhile (\<lambda>c. c \<noteq> CHR ''='') p, drop 1 (dropWhile (\<lambda>c. c \<noteq> CHR ''='') p)))
     (fields_func (CHR ''&'') s)"

definition url_request :: "string \<Rightarrow> api_request" where
  "url_request url = \<lparr>rq_method = ''GET'', rq_path = drop 1 (go_split (CHR ''/'') (takeWhile (\<lambda>c. c \<noteq> CHR ''?'') url)),
     rq_query = url_query (drop 1 (dropWhile (\<lambda>c. c \<noteq> CHR ''?'') url)), rq_body = BodyBytes 0 (Inl [])\<rparr>"

lemma name_char_uri_plain:
  assumes "name_char c" shows "uri_plain c"
proof (cases "(of_char c :: nat) = 95")
  case True
  then have "c = char_of (95 :: nat)" by (metis char_of_char)
  moreover have "(char_of (95 :: nat) :: char) = CHR ''_''" by code_simp
  ultimately show ?thesis by (simp add: uri_plain_def)
qed (use assms in \<open>auto simp: name_char_def uri_plain_def Let_def\<close>)

lemma encode_valid_name: "list_all name_char g \<Longrightarrow> encodeURIComponent g = g"
  unfolding encodeURIComponent_def by (induction g) (simp_all add: name_char_uri_plain)

lemma name_char_plain: "list_all name_char g \<Longrightarrow> CHR ''/'' \<notin> set g \<and> CHR ''?'' \<notin> set g"
  by (induction g) (auto simp: name_char_def)

lemma group_request:
  assumes "list_all name_char g" "g \<noteq> []"
  shows "serve q v (url_request (''/v1/groups/'' @ encodeURIComponent g @ ''/jobs'')) w = GetJobList q g w"
    and "serve q v (url_request (''/v1/groups/'' @ encodeURIComponent g @ ''/history?limit=100'')) w =
      answer (q_History q g 100) (\<lambda>es. Value (JArray (map history_json es))) w"
    and "serve q v (url_request ''/v1/status'') w = Status q w"
proof -
  have g: "CHR ''/'' \<notin> set g" "CHR ''?'' \<notin> set g" using name_char_plain [OF assms(1)] by auto
  have sp: "go_split (CHR ''/'') (g @ CHR ''/'' # s) = g # go_split (CHR ''/'') s" for s
    by (rule go_split_append [OF g(1)])
  have tw: "takeWhile (\<lambda>c. c \<noteq> CHR ''?'') (g @ s) = g @ takeWhile (\<lambda>c. c \<noteq> CHR ''?'') s"
    "dropWhile (\<lambda>c. c \<noteq> CHR ''?'') (g @ s) = dropWhile (\<lambda>c. c \<noteq> CHR ''?'') s" for s
    using g(2) by (simp_all add: takeWhile_append dropWhile_append)
  note defs = serve_def find_route_def url_request_def url_query_def fields_func_def encode_valid_name [OF assms(1)]
  show "serve q v (url_request (''/v1/groups/'' @ encodeURIComponent g @ ''/jobs'')) w = GetJobList q g w"
    using assms(2) by (simp add: defs sp tw)
  show "serve q v (url_request (''/v1/groups/'' @ encodeURIComponent g @ ''/history?limit=100'')) w =
      answer (q_History q g 100) (\<lambda>es. Value (JArray (map history_json es))) w"
    using assms(2) by (simp add: defs sp tw History_h_def query_get_def atoi_def is_digit_def digits_val_def digit_val_def Let_def)
  show "serve q v (url_request ''/v1/status'') w = Status q w"
    by (simp add: defs)
qed

section \<open>What the panels show\<close>

lemma all_results_if:
  "all_results (map (\<lambda>x. if P x then Inr (f x) else Inl m) xs) = (if list_all P xs then Inr (map f xs) else Inl m)"
  by (induction xs) auto

lemma row_cells:
  "all_results (map Inr (take 2 (job_row j)) @ [time_cell re (exectime j)] @ map Inr (drop 3 (job_row j))) =
     (if on_calendar (exectime j) then Inr (job_row j) else Inl re)"
  "all_results (map Inr (take 5 (status_row s)) @ [time_cell re (st_now s)]) =
     (if on_calendar (st_now s) then Inr (status_row s) else Inl re)"
  "all_results (map Inr (take 2 (history_row e)) @ [time_cell re (h_exec e), time_cell re (h_finish e)] @
       map Inr (drop 4 (history_row e))) =
     (if on_calendar (h_exec e) \<and> on_calendar (h_finish e) then Inr (history_row e) else Inl re)"
  by (simp_all add: job_row_def status_row_def history_row_def time_cell_def)

definition status_heads :: "string list" where
  "status_heads = [''pending'', ''running'', ''retryable'', ''jobs active'', ''jobs paused'', ''now'']"

definition job_heads :: "string list" where
  "job_heads = [''id'', ''name'', ''next_exec'', ''interval'', ''url'', ''active'']"

definition history_heads :: "string list" where
  "history_heads = [''job_id'', ''type'', ''exec'', ''finish'', ''result'', ''detail'', ''host'']"

lemma heads [simp]:
  "map fst (status_cols br) = status_heads" "map fst (job_cols br) = job_heads" "map fst (history_cols br) = history_heads"
  "list_all plain_text status_heads" "list_all plain_text job_heads" "list_all plain_text history_heads"
  by (simp_all add: status_cols_def job_cols_def history_cols_def status_heads_def job_heads_def history_heads_def)

text \<open>A table of rows that are shown when their times are dates, and the exception otherwise.\<close>

definition rows_view :: "string \<Rightarrow> string list \<Rightarrow> ('a \<Rightarrow> bool) \<Rightarrow> ('a \<Rightarrow> token list list) \<Rightarrow> 'a list \<Rightarrow> token list" where
  "rows_view re heads ok row xs = (if list_all ok xs then table_view heads (map row xs) else bad_view re)"

lemma rows_yield:
  assumes "\<And>x. x \<in> set xs \<Longrightarrow> list_all2 yields (map (\<lambda>c. snd c (Some (enc x))) cols) (cells x)"
    and "\<And>x. all_results (cells x) = (if ok x then Inr (row x) else Inl re)"
    and "list_all plain_text (map fst cols)"
  shows "reads_as (panel (table_html (map (\<lambda>x. Some (enc x)) xs) cols)) (rows_view re (map fst cols) ok row xs)"
proof -
  have "list_all2 (\<lambda>x es. list_all2 yields (map (\<lambda>c. snd c x) cols) es) (map (\<lambda>x. Some (enc x)) xs) (map cells xs)"
    using assms(1) by (auto simp: list_all2_conv_all_nth)
  from table_yields [OF this assms(3)] have "yields (table_html (map (\<lambda>x. Some (enc x)) xs) cols)
      (if list_all ok xs then Inr (table_view (map fst cols) (map row xs)) else Inl re)"
    by (simp add: comp_def assms(2) all_results_if split: if_splits)
  from panel_reads [OF this] show ?thesis by (simp add: rows_view_def split: if_splits)
qed

lemma fetch_node:
  assumes "br_fetch br url = fetched_of words m (fst (answer c ok w))" and "c w = (Inr x, w')" and "ok x = Value v"
  shows "fetch_json br url = Inr (Some v)"
  using assms by (simp add: fetch_json_def answer_def fetched_of_def WriteJSON_def data_value_def)

lemma panel_of_status:
  assumes "fetch_json br ''/v1/status'' = Inr (Some (stats_json s))" and "int64 (st_now s)" and "int (st_retryable s) < 2 ^ 63"
  shows "reads_as (panel (load_status br)) (rows_view (br_range_error br) status_heads (\<lambda>s. on_calendar (st_now s)) status_row [s])"
proof -
  have "reads_as (panel (table_html (map (\<lambda>x. Some (stats_json x)) [s]) (status_cols br)))
    (rows_view (br_range_error br) (map fst (status_cols br)) (\<lambda>s. on_calendar (st_now s)) status_row [s])"
    by (rule rows_yield [where cells = "\<lambda>s. map Inr (take 5 (status_row s)) @ [time_cell (br_range_error br) (st_now s)]"])
      (simp_all add: status_cells [OF assms(2,3)] row_cells)
  then show ?thesis by (simp add: load_status_def assms(1))
qed

lemma panel_of_jobs:
  assumes "fetch_json br (''/v1/groups/'' @ encodeURIComponent g @ ''/jobs'') = Inr (Some (JArray (map ResponseJobList js)))"
    and "\<forall>j \<in> set js. int64 (exectime j)"
  shows "reads_as (panel (load_jobs br g)) (rows_view (br_range_error br) job_heads (\<lambda>j. on_calendar (exectime j)) job_row js)"
proof -
  have "reads_as (panel (table_html (map (\<lambda>x. Some (ResponseJobList x)) js) (job_cols br)))
    (rows_view (br_range_error br) (map fst (job_cols br)) (\<lambda>j. on_calendar (exectime j)) job_row js)"
    by (rule rows_yield [where cells = "\<lambda>j. map Inr (take 2 (job_row j)) @ [time_cell (br_range_error br) (exectime j)] @
          map Inr (drop 3 (job_row j))"]) (use assms(2) in \<open>simp_all add: job_cells row_cells del: append_Cons\<close>)
  then show ?thesis unfolding load_jobs_def assms(1) by (simp add: elements_def comp_def)
qed

lemma panel_of_history:
  assumes "fetch_json br (''/v1/groups/'' @ encodeURIComponent g @ ''/history?limit=100'') = Inr (Some (JArray (map history_json es)))"
    and "\<forall>e \<in> set es. int64 (h_exec e) \<and> int64 (h_finish e)"
  shows "reads_as (panel (load_history br g))
    (rows_view (br_range_error br) history_heads (\<lambda>e. on_calendar (h_exec e) \<and> on_calendar (h_finish e)) history_row es)"
proof -
  have "reads_as (panel (table_html (map (\<lambda>x. Some (history_json x)) es) (history_cols br)))
    (rows_view (br_range_error br) (map fst (history_cols br)) (\<lambda>e. on_calendar (h_exec e) \<and> on_calendar (h_finish e)) history_row es)"
    by (rule rows_yield [where cells = "\<lambda>e. map Inr (take 2 (history_row e)) @
          [time_cell (br_range_error br) (h_exec e), time_cell (br_range_error br) (h_finish e)] @
          map Inr (drop 4 (history_row e))"]) (use assms(2) in \<open>simp_all add: history_cells row_cells del: append_Cons\<close>)
  then show ?thesis unfolding load_history_def assms(1) by (simp add: elements_def comp_def)
qed

text \<open>A call alone writes every panel from its own replies.\<close>

lemma load_alone_stages:
  "lc_stage c = AwaitsVersion \<Longrightarrow> load_alone br c pg = load_alone br (c\<lparr>lc_stage := AwaitsStatus\<rparr>) (show_version br pg)"
  "lc_stage c = AwaitsStatus \<Longrightarrow> lc_group c \<noteq> [] \<Longrightarrow>
     load_alone br c pg = load_alone br (c\<lparr>lc_stage := AwaitsJobs\<rparr>) (pg\<lparr>pg_status := panel (load_status br)\<rparr>)"
  "lc_stage c = AwaitsJobs \<Longrightarrow>
     load_alone br c pg = load_alone br (c\<lparr>lc_stage := AwaitsHistory\<rparr>) (pg\<lparr>pg_jobs := panel (load_jobs br (lc_group c))\<rparr>)"
  "lc_stage c = AwaitsHistory \<Longrightarrow> load_alone br c pg = pg\<lparr>pg_hist := panel (load_history br (lc_group c))\<rparr>"
  by (subst load_alone.simps, simp add: load_resume_def Let_def)+

lemma load_panels:
  assumes "js_trim field \<noteq> []"
  shows "pg_status (load br field pg) = panel (load_status br)"
    and "pg_jobs (load br field pg) = panel (load_jobs br (js_trim field))"
    and "pg_hist (load br field pg) = panel (load_history br (js_trim field))"
  using assms by (simp_all add: load_def load_begin_def load_alone_stages)

text \<open>C32: the console shows what the store holds, as text. When a node answers the three requests of
  \<open>load()\<close> for a group, a reader of the HTML finds in the panels the queue figures, one row per
  job and one per history entry, every cell the value of the reply, whatever characters it holds.
  Only when a time of a panel lies outside the dates of JavaScript the panel holds the message of
  that exception instead of all its rows.\<close>

theorem console_shows_replies:
  assumes "ValidateName f g = Inr ()" and "js_trim field = g"
    and "br = node_browser q v words url_request type_error range_error (\<lambda>url. Inr (w url))"
    and "q_Stats q (w ''/v1/status'') = (Inr s, w1)" and "int64 (st_now s)" and "int (st_retryable s) < 2 ^ 63"
    and "q_List q g (w (''/v1/groups/'' @ g @ ''/jobs'')) = (Inr js, w2)" and "\<forall>j \<in> set js. int64 (exectime j)"
    and "q_History q g 100 (w (''/v1/groups/'' @ g @ ''/history?limit=100'')) = (Inr es, w3)"
    and "\<forall>e \<in> set es. int64 (h_exec e) \<and> int64 (h_finish e)"
  shows "tokens (pg_status (load br field pg)) =
      rows_view range_error status_heads (\<lambda>s. on_calendar (st_now s)) status_row [s] \<and>
    tokens (pg_jobs (load br field pg)) = rows_view range_error job_heads (\<lambda>j. on_calendar (exectime j)) job_row js \<and>
    tokens (pg_hist (load br field pg)) =
      rows_view range_error history_heads (\<lambda>e. on_calendar (h_exec e) \<and> on_calendar (h_finish e)) history_row es"
proof -
  have g: "list_all name_char g" "g \<noteq> []" using assms(1) by (auto simp: ValidateName_def split: if_splits)
  note enc = encode_valid_name [OF g(1)] and req = group_request [OF g, unfolded encode_valid_name [OF g(1)]]
  have re: "br_range_error br = range_error" by (simp add: assms(3) node_browser_def)
  note node = assms(3) node_browser_def
  have "fetch_json br ''/v1/status'' = Inr (Some (stats_json s))"
    by (rule fetch_node [where c = "q_Stats q" and w = "w ''/v1/status''" and x = s
          and ok = "\<lambda>s. Value (stats_json s)" and words = words and m = "type_error ''json''"])
      (simp_all add: node req Status_def assms(4))
  note status = panel_of_status [OF this assms(5,6)]
  have "fetch_json br (''/v1/groups/'' @ encodeURIComponent g @ ''/jobs'') = Inr (Some (JArray (map ResponseJobList js)))"
    unfolding enc
    by (rule fetch_node [where c = "q_List q g" and w = "w (''/v1/groups/'' @ g @ ''/jobs'')" and x = js
          and ok = "\<lambda>js. Value (JArray (map ResponseJobList js))" and words = words and m = "type_error ''json''"])
      (use req(1) [of q v "w (''/v1/groups/'' @ g @ ''/jobs'')"] assms(7) in \<open>simp_all add: node GetJobList_def\<close>)
  note jobs = panel_of_jobs [OF this assms(8)]
  have "fetch_json br (''/v1/groups/'' @ encodeURIComponent g @ ''/history?limit=100'') = Inr (Some (JArray (map history_json es)))"
    unfolding enc
    by (rule fetch_node [where c = "q_History q g 100" and w = "w (''/v1/groups/'' @ g @ ''/history?limit=100'')" and x = es
          and ok = "\<lambda>es. Value (JArray (map history_json es))" and words = words and m = "type_error ''json''"])
      (use req(2) [of q v "w (''/v1/groups/'' @ g @ ''/history?limit=100'')"] assms(9) in \<open>simp_all add: node\<close>)
  note history = panel_of_history [OF this assms(10)]
  from status jobs history g(2) show ?thesis
    by (simp add: load_panels assms(2) re reads_tokens)
qed

definition markup_job :: job where
  "markup_job = demo_job\<lparr>job_name := ''a<b>&c''\<rparr>"

definition markup_node :: node where
  "markup_node = \<lparr>store = (demo_world [])\<lparr>db := demo_tables\<lparr>gua_jobs := [markup_job]\<rparr>\<rparr>, random = (\<lambda>_. 0), drawn = 0\<rparr>"

definition markup_stats :: stats where
  "markup_stats = \<lparr>st_now = 1000, st_ready = 1, st_running = 0, st_retryable = 0, st_active = 1, st_paused = 0\<rparr>"

lemma markup_calls:
  "fst (q_Stats (river_quene demo_config length) markup_node) = Inr markup_stats"
  "fst (q_List (river_quene demo_config length) ''g'' markup_node) = Inr [markup_job]"
  "fst (q_History (river_quene demo_config length) ''g'' 100 markup_node) = Inr []"
  "js_trim '' g '' = ''g''"
  by code_simp+

theorem console_shows_replies_witness:
  "tokens (pg_jobs (load (node_browser (river_quene demo_config length) [] (\<lambda>_. []) url_request (\<lambda>_. []) ''range''
      (\<lambda>_. Inr markup_node)) '' g '' loaded_page)) = table_view job_heads [job_row markup_job] \<and>
   job_row markup_job ! 1 = map Chr ''a<b>&c''"
proof -
  let ?q = "river_quene demo_config length" and ?w = "\<lambda>_ :: string. markup_node"
  have s: "q_Stats ?q markup_node = (Inr markup_stats, snd (q_Stats ?q markup_node))"
    and js: "q_List ?q ''g'' markup_node = (Inr [markup_job], snd (q_List ?q ''g'' markup_node))"
    and es: "q_History ?q ''g'' 100 markup_node = (Inr [], snd (q_History ?q ''g'' 100 markup_node))"
    using markup_calls(1-3) by (simp_all add: prod_eq_iff)
  have "ValidateName [] ''g'' = Inr ()" by code_simp
  from console_shows_replies [where w = ?w, OF this markup_calls(4) refl s _ _ js _ es, where words = "\<lambda>_. []" and v = "[]"
      and type_error = "\<lambda>_. []" and range_error = "''range''" and pg = loaded_page]
  show ?thesis
    by (simp add: int64_def markup_stats_def markup_job_def demo_job_def rows_view_def on_calendar_def date_limit_def
        job_row_def chars_def)
qed

section \<open>Markup comes from the page alone\<close>

definition page_tags :: "string list" where
  "page_tags = [''table'', ''/table'', ''tr'', ''/tr'', ''th'', ''/th'', ''td'', ''/td'', ''div class=\"muted\"'', ''div class=muted'',
     ''/div'', ''span class=ok'', ''span class=bad'', ''span class=muted'', ''/span'']"

definition harmless_html :: "string \<Rightarrow> bool" where
  "harmless_html s \<longleftrightarrow> (\<exists>tks. reads_as s tks \<and> tags_of tks \<subseteq> set page_tags)"

lemma harmless_append [intro]: "harmless_html s \<Longrightarrow> harmless_html t \<Longrightarrow> harmless_html (s @ t)"
  unfolding harmless_html_def by (metis reads_append tags_of_append Un_least)

lemma harmless_concat: "list_all harmless_html ss \<Longrightarrow> harmless_html (concat ss)"
proof (induction ss)
  case Nil
  have "reads_as [] []" by (rule reads_nil)
  then show ?case by (auto simp: harmless_html_def intro!: exI [of _ "[]"])
qed auto

lemma harmless_esc: "harmless_html (esc v)"
  unfolding harmless_html_def using reads_esc [of v] by (metis tags_of_chars empty_subsetI)

lemma harmless_plain: "plain_text s \<Longrightarrow> harmless_html s"
  unfolding harmless_html_def using reads_plain [of s] by (metis tags_of_chars empty_subsetI)

lemma harmless_read: "reads_as s (tokens s) \<Longrightarrow> tags_of (tokens s) \<subseteq> set page_tags \<Longrightarrow> harmless_html s"
  unfolding harmless_html_def by blast

lemma harmless_literals:
  "harmless_html ''<table><tr>''" "harmless_html ''</tr>''" "harmless_html ''</table>''" "harmless_html ''<tr>''"
  "harmless_html ''<td>''" "harmless_html ''</td>''" "harmless_html ''<th>''" "harmless_html ''</th>''"
  "harmless_html ''<span class=bad>''" "harmless_html ''</span>''"
  "harmless_html ''<div class=muted>enter a group</div>''" "harmless_html ''<div class=\"muted\">(none)</div>''"
  "harmless_html ''<span class=ok>on</span>''" "harmless_html ''<span class=muted>paused</span>''"
  "harmless_html ''<span class=ok>ok</span>''" "harmless_html ''<span class=bad>fail</span>''"
  by (rule harmless_read; simp add: reads_as_def page_tags_def)+

lemma harmless_head: "plain_text h \<Longrightarrow> harmless_html (''<th>'' @ h @ ''</th>'')"
  by (intro harmless_append harmless_literals harmless_plain)

lemma harmless_bad_span: "harmless_html s \<Longrightarrow> harmless_html (bad_span s)"
  unfolding bad_span_def by (intro harmless_append harmless_literals)

lemma harmless_tags: "harmless_html s \<Longrightarrow> tags_of (tokens s) \<subseteq> set page_tags"
  unfolding harmless_html_def using reads_tokens by blast

text \<open>Whatever a cell gives is harmless.\<close>

definition harmless_cells :: "column list \<Rightarrow> js \<Rightarrow> bool" where
  "harmless_cells cols x \<longleftrightarrow> (\<forall>c \<in> set cols. \<forall>s. snd c x = Inr s \<longrightarrow> harmless_html s)"

lemma all_results_Inr: "all_results rs = Inr xs \<Longrightarrow> rs = map Inr xs"
  by (induction rs arbitrary: xs) (auto simp: rbind_eq_Inr_iff)

lemma harmless_row:
  assumes "harmless_cells cols x" and "row_html cols x = Inr s" shows "harmless_html s"
proof -
  obtain cs where cs: "all_results (map (\<lambda>c. snd c x) cols) = Inr cs"
    and s: "s = ''<tr>'' @ concat (map (\<lambda>c. ''<td>'' @ c @ ''</td>'') cs) @ ''</tr>''"
    using assms(2) by (auto simp: row_html_def rbind_eq_Inr_iff)
  have "harmless_html c" if "c \<in> set cs" for c
  proof -
    have "Inr c \<in> set (map (\<lambda>c. snd c x) cols)" unfolding all_results_Inr [OF cs] using that by simp
    with assms(1) show ?thesis by (auto simp: harmless_cells_def image_iff)
  qed
  then show ?thesis unfolding s
    by (intro harmless_append harmless_concat harmless_literals) (auto simp: list_all_iff simp del: append_Cons intro!: harmless_append harmless_literals)
qed

lemma harmless_table:
  assumes "\<And>x. x \<in> set rows \<Longrightarrow> harmless_cells cols x" and "list_all plain_text (map fst cols)"
    and "table_html rows cols = Inr s"
  shows "harmless_html s"
proof (cases "rows = []")
  case False
  then obtain rs where rs: "all_results (map (row_html cols) rows) = Inr rs"
    and s: "s = ''<table><tr>'' @ concat (map (\<lambda>c. ''<th>'' @ fst c @ ''</th>'') cols) @ ''</tr>'' @ concat rs @ ''</table>''"
    using assms(3) by (auto simp: table_html_def rbind_eq_Inr_iff)
  have "harmless_html r" if "r \<in> set rs" for r
  proof -
    have "Inr r \<in> set (map (row_html cols) rows)" unfolding all_results_Inr [OF rs] using that by simp
    with assms(1) harmless_row show ?thesis by fastforce
  qed
  moreover have "list_all harmless_html (map (\<lambda>c. ''<th>'' @ fst c @ ''</th>'') cols)"
    using assms(2) harmless_head by (simp add: list_all_iff del: append_Cons)
  ultimately show ?thesis unfolding s
    by (intro harmless_append harmless_concat harmless_literals) (simp_all add: list_all_iff)
qed (use assms(3) harmless_literals in \<open>simp add: table_html_def\<close>)

lemma harmless_panel: "(\<And>s. r = Inr s \<Longrightarrow> harmless_html s) \<Longrightarrow> harmless_html (panel r)"
  by (cases r) (simp_all add: panel_def harmless_bad_span harmless_esc)

lemma ts_plain:
  assumes "ts br v = Inr s" shows "plain_text s"
proof (cases "js_integer v")
  case (Some n)
  have "plain_text (date_text n @ '' '' @ clock_text n)" by (rule plain_stamp)
  then show ?thesis using assms Some unfolding iso_text [of n, symmetric] by (auto simp: ts_def split: if_splits)
qed (use assms in \<open>auto simp: ts_def split: if_splits\<close>)

lemma harmless_job_cells: "harmless_cells (job_cols br) x"
  using harmless_esc ts_plain harmless_plain harmless_literals
  by (auto simp: harmless_cells_def job_cols_def cell_simps rbind_eq_Inr_iff simp del: append_Cons)

lemma harmless_history_cells: "harmless_cells (history_cols br) x"
  using harmless_esc ts_plain harmless_plain harmless_literals
  by (auto simp: harmless_cells_def history_cols_def cell_simps rbind_eq_Inr_iff simp del: append_Cons split: if_splits)

text \<open>The figures of the queue are set without escapes, so they must be plain, as the numbers of a node are.\<close>

definition count_fields :: "string list" where
  "count_fields = [''ready_queue_depth'', ''running'', ''retryable'', ''jobs_active'', ''jobs_paused'']"

definition plain_counts :: "js \<Rightarrow> bool" where
  "plain_counts v \<longleftrightarrow> list_all (\<lambda>k. plain_text (js_text (get_of v k))) count_fields"

lemma prop_of_get: "prop_of br x k = Inr v \<Longrightarrow> v = get_of x k"
  by (auto simp: prop_of_def get_of_def split: option.splits json.splits)

lemma harmless_status_cells: "plain_counts x \<Longrightarrow> harmless_cells (status_cols br) x"
  using ts_plain harmless_plain harmless_plain [of "''0''"] harmless_bad_span
  by (auto simp: harmless_cells_def status_cols_def cell_simps rbind_eq_Inr_iff plain_counts_def count_fields_def
      simp del: append_Cons dest: prop_of_get split: if_splits)

lemma harmless_load:
  assumes "\<And>s. fetch_json br ''/v1/status'' = Inr s \<Longrightarrow> plain_counts s"
  shows "harmless_html (panel (load_status br))" and "harmless_html (panel (load_jobs br g))"
    and "harmless_html (panel (load_history br g))"
proof -
  have "harmless_html h" if "fetch_json br ''/v1/status'' = Inr x" "table_html [x] (status_cols br) = Inr h" for x h
    by (rule harmless_table [OF _ _ that(2)]) (use harmless_status_cells [OF assms [OF that(1)]] in simp_all)
  then show "harmless_html (panel (load_status br))"
    by (intro harmless_panel) (auto simp: load_status_def rbind_eq_Inr_iff)
  show "harmless_html (panel (load_jobs br g))" "harmless_html (panel (load_history br g))"
    by (rule harmless_panel; auto simp: load_jobs_def load_history_def rbind_eq_Inr_iff
      intro: harmless_table [of _ "job_cols br"] harmless_table [of _ "history_cols br"] harmless_job_cells harmless_history_cells)+
qed

text \<open>A node gives an object as \<open>success\<close> only for the figures of its queue.\<close>

definition flat_reply :: "reply \<Rightarrow> bool" where
  "flat_reply rp \<longleftrightarrow> (\<forall>kvs. rp_body rp = SuccessBody (Value (JObject kvs)) \<longrightarrow> (\<exists>s. JObject kvs = stats_json s))"

lemma flat_answer: "(\<And>x kvs. ok x = Value (JObject kvs) \<Longrightarrow> \<exists>s. JObject kvs = stats_json s) \<Longrightarrow> flat_reply (fst (answer c ok w))"
  by (auto simp: answer_def flat_reply_def writeErr_def WriteJSON_def split: prod.splits sum.splits)

lemma flat_readJSON: "readJSON b fs p = Inl rp \<Longrightarrow> flat_reply rp"
  by (auto simp: readJSON_def flat_reply_def WriteJSON_def text_value_def split: body_read.splits if_splits sum.splits option.splits)

lemma flat_text [simp]:
  "flat_reply (WriteJSON (text_value s) status)" "flat_reply \<lparr>rp_status = status, rp_body = PlainText s\<rparr>"
  "flat_reply \<lparr>rp_status = status, rp_body = UiPage\<rparr>"
  by (simp_all add: flat_reply_def WriteJSON_def text_value_def)

lemma text_not_object [simp]: "text_value s \<noteq> Value (JObject kvs)" "json_int n \<noteq> JObject kvs"
  by (simp_all add: text_value_def json_int_def)

lemmas flat_defs = Version_def Healthz_def RegisterGroup_h_def GetGroupList_def GroupInfo_h_def RemoveGroup_h_def
  AddJob_h_def GetJobList_def DeleteJobs_h_def EditJob_h_def DeleteJob_h_def PauseJob_h_def ActiveJob_h_def History_h_def Let_def

lemma flat_serve: "flat_reply (fst (serve q v r w))"
proof (cases "find_route r")
  case (Inr op)
  have "flat_reply (fst (handle q v op r w))"
  proof (cases op)
    case (OpStatus)
    have "flat_reply (fst (Status q w))"
      unfolding Status_def by (rule flat_answer) (metis reply_data.inject(1))
    with OpStatus show ?thesis by simp
  next
    case OpReadyz
    then show ?thesis by (auto simp: Readyz_def flat_reply_def split: prod.splits sum.splits)
  qed (auto simp: flat_defs intro!: flat_answer split: sum.splits option.splits prod.splits dest: flat_readJSON)
  with Inr show ?thesis by (simp add: serve_def)
qed (simp add: serve_def flat_reply_def)

lemma plain_stats: "plain_counts (Some (stats_json s))"
  by (simp add: plain_counts_def count_fields_def get_of_def stats_json_def js_text_def json_int_def)

lemma node_counts_plain:
  assumes "fetch_json (node_browser q v words rq type_error range_error world) url = Inr x"
  shows "plain_counts x"
proof (cases "world url")
  case (Inr w)
  define rp where "rp = fst (serve q v (rq url) w)"
  have undef: "plain_counts y" if "\<And>kvs. y \<noteq> Some (JObject kvs)" for y
    using that by (auto simp: plain_counts_def count_fields_def get_of_def js_text_def split: option.splits json.splits)
  have "plain_counts (Some (data_value words d))" if "rp_body rp = SuccessBody d" for d
  proof (cases "\<exists>kvs. data_value words d = JObject kvs")
    case True
    then have "\<exists>s. data_value words d = stats_json s" using flat_serve [of q v "rq url" w] that
      by (auto simp: flat_reply_def data_value_def rp_def split: reply_data.splits)
    then show ?thesis using plain_stats by auto
  qed (use undef in auto)
  then show ?thesis using assms Inr undef [of None]
    by (auto simp: fetch_json_def node_browser_def rp_def [symmetric] fetched_of_def prop_of_def truthy_def rbind_eq_Inr_iff
        split: reply_body.splits if_splits)
qed (use assms in \<open>simp add: fetch_json_def node_browser_def\<close>)

definition clean_page :: "console \<Rightarrow> bool" where
  "clean_page pg \<longleftrightarrow> harmless_html (pg_status pg) \<and> harmless_html (pg_jobs pg) \<and> harmless_html (pg_hist pg)"

lemma clean_resume:
  assumes "\<And>s. fetch_json br ''/v1/status'' = Inr s \<Longrightarrow> plain_counts s" and "clean_page pg"
  shows "clean_page (fst (load_resume br c pg))"
  using harmless_load [OF assms(1)] assms(2) harmless_literals(11) harmless_concat [of "[]"]
  by (cases "lc_stage c") (auto simp: load_resume_def show_version_def clean_page_def Let_def split: sum.split)

lemma clean_step:
  assumes "\<And>s. fetch_json br ''/v1/status'' = Inr s \<Longrightarrow> plain_counts s" and "clean_page (se_page s)"
  shows "clean_page (se_page (ui_step br e s))"
proof (cases e)
  case (Reply i)
  have "clean_page (fst (load_resume br (se_calls s ! i) (se_page s)))" by (rule clean_resume [OF assms])
  with assms(2) Reply show ?thesis by (auto simp: reply_arrives_def split: prod.split)
qed (use assms(2) in \<open>auto simp: toggle_def call_load_def clean_page_def\<close>)

text \<open>C31: names, addresses, messages and errors never become markup. In every run of the page against
  a node, over any implementation of the queue, with any contents of its store at each request, any
  failures, any input, any clicks, and calls of \<open>load()\<close> that overlap in any way, the tags in the
  three panels are tags the page's own text has.\<close>

theorem console_markup_fixed:
  "let node = node_browser q v words rq type_error range_error;
       pg = se_page (ui_run field (map (\<lambda>(w, e). (node w, e)) es)) in
    tags_of (tokens (pg_status pg)) \<union> tags_of (tokens (pg_jobs pg)) \<union> tags_of (tokens (pg_hist pg)) \<subseteq> set page_tags"
proof -
  define node where "node = node_browser q v words rq type_error range_error"
  note counts = node_counts_plain [of q v words rq type_error range_error, folded node_def]
  have "clean_page (se_page (foldl (\<lambda>s (br, e). ui_step br e s) s (map (\<lambda>(w, e). (node w, e)) es)))"
    if "clean_page (se_page s)" for s
    using that
  proof (induction es arbitrary: s)
    case (Cons x es)
    from Cons.IH [OF clean_step [OF counts Cons.prems]] show ?case by (simp split: prod.split)
  qed simp
  moreover have "clean_page (se_page (ui_start field))"
    using harmless_concat [of "[]"] by (simp add: clean_page_def ui_start_def call_load_def loaded_page_def)
  ultimately show ?thesis by (auto simp: ui_run_def Let_def clean_page_def node_def [symmetric] dest: harmless_tags)
qed

text \<open>
  Calls that overlap can leave the panel of another group: a call for the group \<open>b\<close> has ended when
  the jobs of the group \<open>a\<close>, asked for before, arrive.
\<close>

lemma overlapping_loads_go_stale:
  assumes "js_trim a \<noteq> []" and "js_trim b \<noteq> []"
  shows "pg_jobs (se_page (ui_run a (map (\<lambda>e. (br, e))
      [Reply 0, Reply 0, ClickLoad b, Reply 1, Reply 1, Reply 1, Reply 1, Reply 0]))) = panel (load_jobs br (js_trim a))"
  using assms by (simp add: ui_run_def ui_start_def call_load_def load_begin_def reply_arrives_def load_resume_def Let_def)

end
