(* ===== verification/Example_App.thy ===== *)
theory Example_App
  imports Http_Api "HOL-Library.Sublist"
begin

text \<open>
  The example client, \<open>example/app/main.go\<close>: a backend that schedules jobs in gua, receives gua's
  deliveries and streams both to browsers. Its calls of gua go through an HTTP transport that is a
  parameter; JSON is taken as values. A send on a closed channel and a second close of one are
  panics, the value \<open>None\<close>.
\<close>

section \<open>The broker\<close>

text \<open>Channels are numbered in the order \<open>sub\<close> makes them; \<open>clients\<close> is the set of the map's keys.\<close>

record chan =
  ch_buf :: "json list"
  ch_closed :: bool

record broker =
  clients :: "nat list"
  chans :: "nat \<Rightarrow> chan"
  next_chan :: nat

definition no_clients :: broker where
  "no_clients = \<lparr>clients = [], chans = (\<lambda>_. \<lparr>ch_buf = [], ch_closed = False\<rparr>), next_chan = 0\<rparr>"

definition sub :: "broker \<Rightarrow> nat \<times> broker" where
  "sub b = (next_chan b, b\<lparr>clients := clients b @ [next_chan b],
     chans := (chans b)(next_chan b := \<lparr>ch_buf = [], ch_closed = False\<rparr>), next_chan := Suc (next_chan b)\<rparr>)"

definition unsub :: "nat \<Rightarrow> broker \<Rightarrow> broker option" where
  "unsub ch b =
     (if ch \<in> set (clients b) then
        (if ch_closed (chans b ch) then None
         else Some (b\<lparr>clients := filter ((\<noteq>) ch) (clients b), chans := (chans b)(ch := (chans b ch)\<lparr>ch_closed := True\<rparr>)\<rparr>))
      else Some b)"

definition chan_cap :: nat where
  "chan_cap = 16"

text \<open>\<open>select { case ch <- data: default: }\<close>\<close>

definition offer :: "json \<Rightarrow> nat \<Rightarrow> broker \<Rightarrow> broker option" where
  "offer data ch b =
     (if ch_closed (chans b ch) then None
      else if length (ch_buf (chans b ch)) < chan_cap
      then Some (b\<lparr>chans := (chans b)(ch := (chans b ch)\<lparr>ch_buf := ch_buf (chans b ch) @ [data]\<rparr>)\<rparr>)
      else Some b)"

fun offer_all :: "json \<Rightarrow> nat list \<Rightarrow> broker \<Rightarrow> broker option" where
  "offer_all data [] b = Some b"
| "offer_all data (ch # chs) b = (case offer data ch b of None \<Rightarrow> None | Some b' \<Rightarrow> offer_all data chs b')"

definition broadcast :: "json \<Rightarrow> broker \<Rightarrow> broker option" where
  "broadcast data b = offer_all data (clients b) b"

section \<open>The event stream\<close>

text \<open>
  The backend with its open streams: the frames written to each. \<open>Open\<close> is the start of
  \<open>handleEvents\<close>, \<open>Pull\<close> a turn of its loop that receives, \<open>Gone\<close> the end of the request with
  the deferred \<open>unsub\<close>; a channel without a running handler has no turns.
\<close>

datatype sse_event = Open | Publish json | Pull nat | Gone nat

record hub =
  hub_broker :: broker
  written :: "nat \<Rightarrow> json list"

definition ready_frame :: json where
  "ready_frame = JObject [(''type'', JString ''ready'')]"

definition handleEvents_open :: "hub \<Rightarrow> hub" where
  "handleEvents_open h = (case sub (hub_broker h) of (ch, b) \<Rightarrow>
     h\<lparr>hub_broker := b, written := (written h)(ch := [ready_frame])\<rparr>)"

text \<open>
  The whole start: a server that cannot flush is answered with 500 and opens no stream; otherwise
  the headers of the stream are set.
\<close>

definition stream_headers :: "(string \<times> string) list" where
  "stream_headers = [(''Content-Type'', ''text/event-stream''), (''Cache-Control'', ''no-cache''), (''Connection'', ''keep-alive'')]"

definition handleEvents_start :: "bool \<Rightarrow> hub \<Rightarrow> (nat \<times> string + (string \<times> string) list) \<times> hub" where
  "handleEvents_start flushes h =
     (if \<not> flushes then (Inl (500, ''stream unsupported''), h) else (Inr stream_headers, handleEvents_open h))"

definition handleEvents_turn :: "nat \<Rightarrow> hub \<Rightarrow> hub" where
  "handleEvents_turn ch h =
     (let b = hub_broker h in
      case ch_buf (chans b ch) of
        [] \<Rightarrow> h
      | msg # rest \<Rightarrow> h\<lparr>hub_broker := b\<lparr>chans := (chans b)(ch := (chans b ch)\<lparr>ch_buf := rest\<rparr>)\<rparr>,
          written := (written h)(ch := written h ch @ [msg])\<rparr>)"

lemma handleEvents_start_True [simp]: "snd (handleEvents_start True h) = handleEvents_open h"
  by (simp add: handleEvents_start_def)

fun sse_step :: "sse_event \<Rightarrow> hub \<Rightarrow> hub option" where
  "sse_step Open h = Some (snd (handleEvents_start True h))"
| "sse_step (Publish m) h = map_option (\<lambda>b. h\<lparr>hub_broker := b\<rparr>) (broadcast m (hub_broker h))"
| "sse_step (Pull ch) h = Some (if ch \<in> set (clients (hub_broker h)) then handleEvents_turn ch h else h)"
| "sse_step (Gone ch) h = map_option (\<lambda>b. h\<lparr>hub_broker := b\<rparr>) (unsub ch (hub_broker h))"

definition new_hub :: hub where
  "new_hub = \<lparr>hub_broker = no_clients, written = (\<lambda>_. [])\<rparr>"

fun sse_run :: "sse_event list \<Rightarrow> hub \<Rightarrow> hub option" where
  "sse_run [] h = Some h"
| "sse_run (e # es) h = (case sse_step e h of None \<Rightarrow> None | Some h' \<Rightarrow> sse_run es h')"

section \<open>Settings and calls of gua\<close>

record app_settings =
  guaURL :: string
  hookURL :: string
  staticDir :: string
  listen_addr :: string

definition env_or :: "(string \<Rightarrow> string) \<Rightarrow> string \<Rightarrow> string \<Rightarrow> string" where
  "env_or getenv k dflt = (if getenv k \<noteq> [] then getenv k else dflt)"

definition app_main :: "(string \<Rightarrow> string) \<Rightarrow> app_settings" where
  "app_main getenv =
     \<lparr>guaURL = env_or getenv ''GUA_URL'' ''http://localhost:7777'',
      hookURL = env_or getenv ''HOOK_URL'' ''http://localhost:8080/hook'',
      staticDir = env_or getenv ''STATIC_DIR'' ''static'', listen_addr = env_or getenv ''LISTEN'' '':8080''\<rparr>"

definition app_group :: string where
  "app_group = ''demo''"

text \<open>\<open>http.Post\<close> of a JSON body: an error, or the status and the body of the reply.\<close>

type_synonym 'w transport = "string \<Rightarrow> json \<Rightarrow> 'w \<Rightarrow> (string + nat \<times> reply_body) \<times> 'w"

definition ensureGroup :: "'w transport \<Rightarrow> app_settings \<Rightarrow> 'w \<Rightarrow> 'w" where
  "ensureGroup post s w =
     snd (post (guaURL s @ ''/v1/groups'') (JObject [(''group_name'', JString app_group)]) w)"

text \<open>\<open>main\<close> up to listening: the settings, and the state after the first \<open>ensureGroup\<close>.\<close>

definition app_start :: "'w transport \<Rightarrow> (string \<Rightarrow> string) \<Rightarrow> 'w \<Rightarrow> app_settings \<times> 'w" where
  "app_start post getenv w = (let s = app_main getenv in (s, ensureGroup post s w))"

section \<open>Handlers\<close>

record schedule_input =
  in_Delay :: int
  in_Payload :: string

definition schedule_fields :: "schedule_input field list" where
  "schedule_fields = [int64_field ''delay'' (\<lambda>n p. p\<lparr>in_Delay := n\<rparr>), string_field ''payload'' (\<lambda>s p. p\<lparr>in_Payload := s\<rparr>)]"

definition schedule_job :: "app_settings \<Rightarrow> int \<Rightarrow> string \<Rightarrow> json" where
  "schedule_job s execTime load = JObject
     [(''exec_time'', json_int execTime), (''interval_pattern'', JString ''@once''), (''name'', JString ''demo-job''),
      (''payload'', JString load), (''request_url'', JString (''HTTP@'' @ hookURL s))]"

datatype app_reply = AppError nat | GuaReply reply_body | AppOk

text \<open>
  The reply, gua after the calls, and the broker, for the body as its syntax check gives it and
  the second the clock shows. The sum of the clock and the delay is an \<open>int64\<close>.
\<close>

definition int64_sum :: "int \<Rightarrow> int \<Rightarrow> int" where
  "int64_sum a b = (a + b + 2 ^ 63) mod 2 ^ 64 - 2 ^ 63"

definition handleSchedule ::
  "'w transport \<Rightarrow> app_settings \<Rightarrow> string + json \<Rightarrow> int \<Rightarrow> 'w \<Rightarrow> broker \<Rightarrow> app_reply \<times> 'w \<times> broker option" where
  "handleSchedule post s body now w b =
     (case (case body of Inl e \<Rightarrow> None | Inr v \<Rightarrow> decode_struct schedule_fields \<lparr>in_Delay = 0, in_Payload = []\<rparr> v) of
        None \<Rightarrow> (AppError 400, w, Some b)
      | Some inp \<Rightarrow>
          (let delay = (if in_Delay inp < 0 then 0 else in_Delay inp);
               w1 = ensureGroup post s w;
               execTime = int64_sum now delay
           in case post (guaURL s @ ''/v1/groups/'' @ app_group @ ''/jobs'') (schedule_job s execTime (in_Payload inp)) w1 of
                (Inl e, w2) \<Rightarrow> (AppError 502, w2, Some b)
              | (Inr (status, rb), w2) \<Rightarrow>
                  (if status \<noteq> 200 then (AppError 502, w2, Some b)
                   else (GuaReply rb, w2, broadcast (JObject
                     [(''at'', json_int execTime), (''delay'', json_int delay), (''payload'', JString (in_Payload inp)),
                      (''type'', JString ''scheduled'')]) b))))"

record hook_input =
  hk_Payload :: string
  hk_JobId :: string
  hk_ExecTime :: int

definition hook_fields :: "hook_input field list" where
  "hook_fields = [string_field ''payload'' (\<lambda>s p. p\<lparr>hk_Payload := s\<rparr>), string_field ''job_id'' (\<lambda>s p. p\<lparr>hk_JobId := s\<rparr>),
     int64_field ''exec_time'' (\<lambda>n p. p\<lparr>hk_ExecTime := n\<rparr>)]"

text \<open>
  What is in the struct when the error of \<open>Decode\<close> is ignored: a field whose value has the wrong
  type is skipped, and the others are stored.
\<close>

fun decode_anyway :: "'p field list \<Rightarrow> (string \<times> json) list \<Rightarrow> 'p \<Rightarrow> 'p" where
  "decode_anyway fs [] p = p"
| "decode_anyway fs ((k, v) # kvs) p =
     decode_anyway fs kvs (case find (\<lambda>f. fold_key (fst f) = fold_key k) fs of
        None \<Rightarrow> p
      | Some f \<Rightarrow> (case snd f v p of None \<Rightarrow> p | Some p' \<Rightarrow> p'))"

definition handleHook :: "string + json \<Rightarrow> broker \<Rightarrow> app_reply \<times> broker option" where
  "handleHook body b =
     (let zero = \<lparr>hk_Payload = [], hk_JobId = [], hk_ExecTime = 0\<rparr>;
          env = (case body of Inr (JObject kvs) \<Rightarrow> decode_anyway hook_fields kvs zero | _ \<Rightarrow> zero)
      in (AppOk, broadcast (JObject
           [(''at'', json_int (hk_ExecTime env)), (''job_id'', JString (hk_JobId env)),
            (''payload'', JString (hk_Payload env)), (''type'', JString ''fired'')]) b))"

text \<open>The body gua posts: \<open>TriggerEnvelope\<close> as JSON.\<close>

definition envelope_json :: "trigger_envelope \<Rightarrow> json" where
  "envelope_json e = JObject
     [(''job_id'', JString (e_job_id e)), (''job_name'', JString (e_job_name e)), (''group_name'', JString (e_group e)),
      (''plan_time'', json_int (e_plan e)), (''exec_time'', json_int (e_exec e)), (''payload'', JString (e_payload e)),
      (''idempotency_key'', JString (e_key e))]"

text \<open>The patterns of \<open>main\<close>: any path under \<open>GET\<close> that is not the stream is a file of the page.\<close>

datatype app_route = AppStatic | AppSchedule | AppHook | AppEvents

definition app_route_at :: "string \<Rightarrow> string \<Rightarrow> nat + app_route" where
  "app_route_at m path =
     (if m = ''GET'' \<or> m = ''HEAD'' then Inr (if path = ''/events'' then AppEvents else AppStatic)
      else if m = ''POST'' \<and> path = ''/schedule'' then Inr AppSchedule
      else if m = ''POST'' \<and> path = ''/hook'' then Inr AppHook
      else Inl 405)"

section \<open>gua as the other end\<close>

text \<open>
  A transport that reaches a gua server at a base address: the rest of the address is split into
  the segments of the path. The size of a body is a parameter.
\<close>

fun segments :: "string \<Rightarrow> string list" where
  "segments [] = [[]]"
| "segments (c # cs) =
     (if c = CHR ''/'' then [] # segments cs
      else (case segments cs of [] \<Rightarrow> [[c]] | s # ss \<Rightarrow> (c # s) # ss))"

definition gua_at :: "string \<Rightarrow> (json \<Rightarrow> nat) \<Rightarrow> 'w quene \<Rightarrow> string \<Rightarrow> 'w transport" where
  "gua_at base size_of q version url doc w =
     (if take (length base) url \<noteq> base then (Inl ''no route to host'', w)
      else (case serve q version \<lparr>rq_method = ''POST'', rq_path = tl (segments (drop (length base) url)), rq_query = [],
              rq_body = BodyBytes (size_of doc) (Inr doc)\<rparr> w of
          (rp, w') \<Rightarrow> (Inr (rp_status rp, rp_body rp), w')))"

end
