(* ===== verification/Example_Theorems.thy ===== *)
theory Example_Theorems
  imports Api_Theorems Example_App Deliver_Worker
begin

text \<open>
  The properties of the example client: its event streams under every order of events, and what
  scheduling through gua's HTTP API leaves in gua's tables.
\<close>

section \<open>The event streams\<close>

text \<open>The messages published after the \<open>k\<close>-th stream was opened.\<close>

definition messages :: "sse_event \<Rightarrow> json list" where
  "messages e = (case e of Publish m \<Rightarrow> [m] | _ \<Rightarrow> [])"

fun published :: "nat \<Rightarrow> sse_event list \<Rightarrow> json list" where
  "published k [] = []"
| "published 0 (Open # es) = concat (map messages es)"
| "published (Suc k) (Open # es) = published k es"
| "published k (Publish m # es) = published k es"
| "published k (Pull ch # es) = published k es"
| "published k (Gone ch # es) = published k es"

definition opened :: "sse_event list \<Rightarrow> nat" where
  "opened es = length (filter ((=) Open) es)"

lemma published_snoc: "published k (es @ [e]) = published k es @ (if k < opened es then messages e else [])"
proof (induction k es rule: published.induct)
  case (1 k)
  show ?case by (cases e; cases k) (simp_all add: opened_def)
qed (auto simp: opened_def)

lemma published_unopened: "opened es \<le> k \<Longrightarrow> published k es = []"
  by (induction k es rule: published.induct) (auto simp: opened_def)

text \<open>What each stream has written and what waits for it.\<close>

definition stream_ok :: "sse_event list \<Rightarrow> hub \<Rightarrow> nat \<Rightarrow> bool" where
  "stream_ok es h ch \<longleftrightarrow> (\<exists>got. written h ch = ready_frame # got \<and>
     subseq (got @ ch_buf (chans (hub_broker h) ch)) (published ch es) \<and>
     length (ch_buf (chans (hub_broker h) ch)) \<le> chan_cap \<and>
     (ch \<in> set (clients (hub_broker h)) \<longrightarrow> length (published ch es) \<le> chan_cap \<longrightarrow>
        got @ ch_buf (chans (hub_broker h) ch) = published ch es))"

definition hub_ok :: "sse_event list \<Rightarrow> hub \<Rightarrow> bool" where
  "hub_ok es h \<longleftrightarrow> next_chan (hub_broker h) = opened es \<and> distinct (clients (hub_broker h)) \<and>
     (\<forall>ch \<in> set (clients (hub_broker h)). ch < opened es \<and> \<not> ch_closed (chans (hub_broker h) ch)) \<and>
     (\<forall>ch < opened es. stream_ok es h ch)"

text \<open>A broadcast appends to the channels of the clients that have room.\<close>

lemma offer_all_result:
  assumes "distinct chs" and "\<forall>ch \<in> set chs. \<not> ch_closed (chans b ch)"
  shows "offer_all m chs b = Some (b\<lparr>chans := (\<lambda>ch. if ch \<in> set chs \<and> length (ch_buf (chans b ch)) < chan_cap
    then (chans b ch)\<lparr>ch_buf := ch_buf (chans b ch) @ [m]\<rparr> else chans b ch)\<rparr>)"
  using assms
proof (induction chs arbitrary: b)
  case (Cons ch chs)
  let ?b = "if length (ch_buf (chans b ch)) < chan_cap
    then b\<lparr>chans := (chans b)(ch := (chans b ch)\<lparr>ch_buf := ch_buf (chans b ch) @ [m]\<rparr>)\<rparr> else b"
  have o: "offer m ch b = Some ?b" using Cons.prems by (simp add: offer_def)
  have "\<forall>c \<in> set chs. \<not> ch_closed (chans ?b c)" using Cons.prems by auto
  with Cons.IH [of ?b] Cons.prems have r: "offer_all m chs ?b = Some (?b\<lparr>chans := (\<lambda>c. if c \<in> set chs \<and> length (ch_buf (chans ?b c)) < chan_cap
    then (chans ?b c)\<lparr>ch_buf := ch_buf (chans ?b c) @ [m]\<rparr> else chans ?b c)\<rparr>)" by simp
  have "ch \<notin> set chs" using Cons.prems by simp
  then have "?b\<lparr>chans := (\<lambda>c. if c \<in> set chs \<and> length (ch_buf (chans ?b c)) < chan_cap
      then (chans ?b c)\<lparr>ch_buf := ch_buf (chans ?b c) @ [m]\<rparr> else chans ?b c)\<rparr> =
    b\<lparr>chans := (\<lambda>c. if c \<in> set (ch # chs) \<and> length (ch_buf (chans b c)) < chan_cap
      then (chans b c)\<lparr>ch_buf := ch_buf (chans b c) @ [m]\<rparr> else chans b c)\<rparr>"
    by (cases b) (auto simp: fun_eq_iff)
  with o r show ?case by simp
qed simp

lemma opened_snoc: "opened (es @ [e]) = (if e = Open then Suc (opened es) else opened es)"
  by (auto simp: opened_def)

lemma stream_publish:
  assumes "stream_ok es h ch" and "ch < opened es"
  shows "stream_ok (es @ [Publish m]) (h\<lparr>hub_broker := (hub_broker h)\<lparr>chans := (\<lambda>c.
    if c \<in> set (clients (hub_broker h)) \<and> length (ch_buf (chans (hub_broker h) c)) < chan_cap
    then (chans (hub_broker h) c)\<lparr>ch_buf := ch_buf (chans (hub_broker h) c) @ [m]\<rparr> else chans (hub_broker h) c)\<rparr>\<rparr>) ch"
proof -
  let ?b = "hub_broker h"
  let ?buf = "ch_buf (chans ?b ch)"
  from assms(1) obtain got where got: "written h ch = ready_frame # got" "subseq (got @ ?buf) (published ch es)"
    "length ?buf \<le> chan_cap"
    "ch \<in> set (clients ?b) \<Longrightarrow> length (published ch es) \<le> chan_cap \<Longrightarrow> got @ ?buf = published ch es"
    by (auto simp: stream_ok_def)
  have more: "published ch (es @ [Publish m]) = published ch es @ [m]"
    using assms(2) by (simp add: published_snoc messages_def)
  show ?thesis
  proof (cases "ch \<in> set (clients ?b) \<and> length ?buf < chan_cap")
    case True
    from got(2) have "subseq ((got @ ?buf) @ [m]) (published ch es @ [m])" by (simp only: subseq_append)
    with True got show ?thesis by (auto simp: stream_ok_def more)
  next
    case False
    from got(2) have "subseq (got @ ?buf) (published ch es @ [m])" by (rule list_emb_prefix)
    moreover have "ch \<in> set (clients ?b) \<Longrightarrow> \<not> length (published ch es @ [m]) \<le> chan_cap"
    proof
      assume a: "ch \<in> set (clients ?b)" "length (published ch es @ [m]) \<le> chan_cap"
      with got(4) have "length ?buf \<le> length (published ch es)" by (metis Suc_leD le_add2 length_append length_append_singleton)
      with a False show False by simp
    qed
    ultimately show ?thesis using False got by (auto simp: stream_ok_def more)
  qed
qed

lemma hub_step:
  assumes "hub_ok es h"
  shows "\<exists>h'. sse_step e h = Some h' \<and> hub_ok (es @ [e]) h'"
proof -
  let ?b = "hub_broker h"
  have ok: "next_chan ?b = opened es" "distinct (clients ?b)"
    "\<And>ch. ch \<in> set (clients ?b) \<Longrightarrow> ch < opened es \<and> \<not> ch_closed (chans ?b ch)"
    "\<And>ch. ch < opened es \<Longrightarrow> stream_ok es h ch"
    using assms by (auto simp: hub_ok_def)
  show ?thesis
  proof (cases e)
    case Open
    let ?h = "handleEvents_open h"
    have "stream_ok (es @ [Open]) ?h ch" if "ch < Suc (opened es)" for ch
    proof (cases "ch = opened es")
      case True
      then show ?thesis using ok(1) published_unopened [of es ch]
        by (simp add: stream_ok_def handleEvents_open_def sub_def published_snoc)
    next
      case False
      with that ok(1) ok(4) [of ch] show ?thesis
        by (auto simp: stream_ok_def handleEvents_open_def sub_def published_snoc messages_def)
    qed
    moreover have "opened es \<notin> set (clients ?b)" using ok(3) by auto
    ultimately have "hub_ok (es @ [Open]) ?h"
      using ok(1-3) by (auto simp: hub_ok_def handleEvents_open_def sub_def opened_snoc less_SucI)
    then show ?thesis by (simp add: Open)
  next
    case (Publish m)
    let ?b' = "?b\<lparr>chans := (\<lambda>ch. if ch \<in> set (clients ?b) \<and> length (ch_buf (chans ?b ch)) < chan_cap
      then (chans ?b ch)\<lparr>ch_buf := ch_buf (chans ?b ch) @ [m]\<rparr> else chans ?b ch)\<rparr>"
    have "broadcast m ?b = Some ?b'" unfolding broadcast_def using ok(2,3) by (intro offer_all_result) auto
    moreover have "stream_ok (es @ [Publish m]) (h\<lparr>hub_broker := ?b'\<rparr>) ch" if "ch < opened es" for ch
      using stream_publish [OF ok(4) [OF that] that] by blast
    then have "hub_ok (es @ [Publish m]) (h\<lparr>hub_broker := ?b'\<rparr>)"
      using ok(1-3) by (auto simp: hub_ok_def opened_snoc)
    ultimately show ?thesis by (simp add: Publish)
  next
    case (Pull ch)
    have "hub_ok (es @ [Pull ch]) (if ch \<in> set (clients ?b) then handleEvents_turn ch h else h)"
    proof (cases "ch \<in> set (clients ?b) \<and> ch_buf (chans ?b ch) \<noteq> []")
      case False
      then have "(if ch \<in> set (clients ?b) then handleEvents_turn ch h else h) = h"
        by (auto simp: handleEvents_turn_def)
      with assms show ?thesis by (simp add: hub_ok_def opened_snoc stream_ok_def published_snoc messages_def)
    next
      case True
      then obtain m rest where buf: "ch_buf (chans ?b ch) = m # rest" by (cases "ch_buf (chans ?b ch)") auto
      have "stream_ok (es @ [Pull ch]) (handleEvents_turn ch h) k" if "k < opened es" for k
        using ok(4) [OF that] buf by (cases "k = ch") (auto simp: stream_ok_def handleEvents_turn_def Let_def published_snoc messages_def)
      with True ok(1-3) buf show ?thesis by (auto simp: hub_ok_def opened_snoc handleEvents_turn_def Let_def)
    qed
    then show ?thesis by (simp add: Pull)
  next
    case (Gone ch)
    let ?b' = "if ch \<in> set (clients ?b) then ?b\<lparr>clients := filter ((\<noteq>) ch) (clients ?b),
      chans := (chans ?b)(ch := (chans ?b ch)\<lparr>ch_closed := True\<rparr>)\<rparr> else ?b"
    have u: "unsub ch ?b = Some ?b'" using ok(3) [of ch] by (simp add: unsub_def)
    have "stream_ok (es @ [Gone ch]) (h\<lparr>hub_broker := ?b'\<rparr>) k" if "k < opened es" for k
      using ok(4) [OF that] by (auto simp: stream_ok_def published_snoc messages_def)
    with ok(1-3) have "hub_ok (es @ [Gone ch]) (h\<lparr>hub_broker := ?b'\<rparr>)"
      by (auto simp: hub_ok_def opened_snoc)
    with u show ?thesis by (simp add: Gone)
  qed
qed

lemma hub_run: "hub_ok es h \<Longrightarrow> \<exists>h'. sse_run fs h = Some h' \<and> hub_ok (es @ fs) h'"
proof (induction fs arbitrary: es h)
  case (Cons e fs)
  from hub_step [OF Cons.prems] obtain h1 where h1: "sse_step e h = Some h1" "hub_ok (es @ [e]) h1" by blast
  from Cons.IH [OF h1(2)] h1(1) show ?case by simp
qed simp

text \<open>C39: the page sees every event once and in order. Whatever clients come, stall and leave, nothing
  panics, neither by a send on a closed channel nor by a second close; a stream shows the frame
  that says it is ready and then messages published after it was opened, each at most once and
  in order; and as long as the stream stays and no more than 16 were published, what it shows and
  what waits for it are all of them.\<close>

theorem streams_in_order:
  "\<exists>h. sse_run es new_hub = Some h \<and> (\<forall>ch < opened es. \<exists>got. written h ch = ready_frame # got \<and>
    subseq got (published ch es) \<and>
    (ch \<in> set (clients (hub_broker h)) \<longrightarrow> length (published ch es) \<le> 16 \<longrightarrow>
       got @ ch_buf (chans (hub_broker h) ch) = published ch es))"
proof -
  have "hub_ok [] new_hub" by (simp add: hub_ok_def new_hub_def no_clients_def opened_def)
  from hub_run [OF this, of es] obtain h where h: "sse_run es new_hub = Some h" "hub_ok es h" by auto
  have "\<exists>got. written h ch = ready_frame # got \<and> subseq got (published ch es) \<and>
      (ch \<in> set (clients (hub_broker h)) \<longrightarrow> length (published ch es) \<le> 16 \<longrightarrow>
         got @ ch_buf (chans (hub_broker h) ch) = published ch es)" if "ch < opened es" for ch
  proof -
    from h(2) that obtain got where "written h ch = ready_frame # got"
      "subseq (got @ ch_buf (chans (hub_broker h) ch)) (published ch es)"
      "ch \<in> set (clients (hub_broker h)) \<longrightarrow> length (published ch es) \<le> 16 \<longrightarrow>
         got @ ch_buf (chans (hub_broker h) ch) = published ch es"
      by (auto simp: hub_ok_def stream_ok_def chan_cap_def)
    moreover have "subseq got (got @ ch_buf (chans (hub_broker h) ch))" by (rule list_emb_prefix) simp
    ultimately show ?thesis using subseq_order.trans by blast
  qed
  with h(1) show ?thesis by blast
qed

theorem streams_in_order_witness:
  "\<exists>h. sse_run [Publish JNull, Open, Publish (JBool True), Pull 0, Publish (JBool False), Gone 7] new_hub = Some h \<and>
    written h 0 = [ready_frame, JBool True] \<and> ch_buf (chans (hub_broker h) 0) = [JBool False]"
proof -
  let ?es = "[Publish JNull, Open, Publish (JBool True), Pull 0, Publish (JBool False), Gone 7]"
  from streams_in_order [of ?es] obtain h got where h: "sse_run ?es new_hub = Some h"
    "written h 0 = ready_frame # got"
    "0 \<in> set (clients (hub_broker h)) \<longrightarrow> got @ ch_buf (chans (hub_broker h) 0) = [JBool True, JBool False]"
    by (auto simp: opened_def messages_def numeral_eq_Suc)
  have "sse_run ?es new_hub = Some h \<longrightarrow> written h 0 = [ready_frame, JBool True] \<and> 0 \<in> set (clients (hub_broker h))"
    by (simp add: new_hub_def no_clients_def broadcast_def handleEvents_open_def sub_def offer_def
        handleEvents_turn_def unsub_def chan_cap_def Let_def) auto
  with h show ?thesis by auto
qed

section \<open>Scheduling\<close>

lemma int64_sum_range: "- (2 ^ 63) \<le> int64_sum a b \<and> int64_sum a b < 2 ^ 63"
  by (simp add: int64_sum_def)

lemma decode_scheduled:
  assumes "- (2 ^ 63) \<le> t" and "t < 2 ^ 63"
  shows "decode_struct add_fields no_job (schedule_job s t load) =
    Some \<lparr>ap_JobId = [], ap_Name = ''demo-job'', ap_Exectime = t, ap_RequestUrl = ''HTTP@'' @ hookURL s,
      ap_IntervalPattern = ''@once'', ap_Payload = load, ap_Timeout = 0, ap_Memo = []\<rparr>"
  using atoi_show_int [OF assms]
  by (simp add: decode_struct_def schedule_job_def add_fields_def string_field_def int64_field_def
      upper_def json_int_def no_job_def Let_def)

lemma reached:
  "gua_at base size_of q v (base @ path) doc w =
    (case serve q v \<lparr>rq_method = ''POST'', rq_path = tl (segments path), rq_query = [],
        rq_body = BodyBytes (size_of doc) (Inr doc)\<rparr> w of
       (rp, w') \<Rightarrow> (Inr (rp_status rp, rp_body rp), w'))"
  by (simp add: gua_at_def)

text \<open>Registering the group keeps the clock.\<close>

lemma ensureGroup_store:
  assumes "\<And>d. 0 < size_of d" and "\<And>d. size_of d \<le> maxBodyBytes"
  shows "ensureGroup (gua_at (guaURL s) size_of (river_quene cfg collate) v) s n =
      n\<lparr>store := snd (perform cfg (RRegister ''demo'') (store n))\<rparr>"
    and "clock (store (ensureGroup (gua_at (guaURL s) size_of (river_quene cfg collate) v) s n)) = clock (store n)"
proof -
  let ?doc = "JObject [(''group_name'', JString app_group)]"
  let ?r = "\<lparr>rq_method = ''POST'', rq_path = [''v1'', ''groups''], rq_query = [], rq_body = BodyBytes (size_of ?doc) (Inr ?doc)\<rparr>"
  have seg: "tl (segments ''/v1/groups'') = [''v1'', ''groups'']" by simp
  have r: "find_route ?r = Inr OpRegister" by (simp add: find_route_def)
  have "readJSON (rq_body ?r) register_fields \<lparr>gp_GroupName = []\<rparr> = Inr \<lparr>gp_GroupName = ''demo''\<rparr>"
    using assms(1) [of ?doc] assms(2) [of ?doc]
    by (simp add: readJSON_def decode_struct_def register_fields_def string_field_def app_group_def upper_def Let_def)
  then have "http_request_of OpRegister ?r = Some (RRegister ''demo'')" by simp
  note ran = handle_request(2) [OF this, of cfg collate v n]
  have "ensureGroup (gua_at (guaURL s) size_of (river_quene cfg collate) v) s n = snd (handle (river_quene cfg collate) v OpRegister ?r n)"
    by (simp only: ensureGroup_def reached seg serve_def r sum.case case_prod_beta snd_conv)
  then show e: "ensureGroup (gua_at (guaURL s) size_of (river_quene cfg collate) v) s n =
      n\<lparr>store := snd (perform cfg (RRegister ''demo'') (store n))\<rparr>" unfolding ran .
  show "clock (store (ensureGroup (gua_at (guaURL s) size_of (river_quene cfg collate) v) s n)) = clock (store n)"
    unfolding e using requests.grow [of "store n" cfg "RRegister ''demo''"] by (simp add: grows_def)
qed

definition schedule_body :: "string + json \<Rightarrow> schedule_input option" where
  "schedule_body body = (case body of Inl e \<Rightarrow> None
     | Inr v \<Rightarrow> decode_struct schedule_fields \<lparr>in_Delay = 0, in_Payload = []\<rparr> v)"

definition scheduled_event :: "int \<Rightarrow> schedule_input \<Rightarrow> json" where
  "scheduled_event t inp = JObject [(''at'', json_int t), (''delay'', json_int (max 0 (in_Delay inp))),
     (''payload'', JString (in_Payload inp)), (''type'', JString ''scheduled'')]"

lemma handleSchedule_unfold:
  "handleSchedule post s body now w b =
     (case schedule_body body of
        None \<Rightarrow> (AppError 400, w, Some b)
      | Some inp \<Rightarrow>
          (case post (guaURL s @ ''/v1/groups/'' @ app_group @ ''/jobs'')
                 (schedule_job s (int64_sum now (max 0 (in_Delay inp))) (in_Payload inp)) (ensureGroup post s w) of
             (Inl e, w2) \<Rightarrow> (AppError 502, w2, Some b)
           | (Inr (status, rb), w2) \<Rightarrow>
               (if status \<noteq> 200 then (AppError 502, w2, Some b)
                else (GuaReply rb, w2, broadcast (scheduled_event (int64_sum now (max 0 (in_Delay inp))) inp) b))))"
proof -
  have delay: "(if d < 0 then 0 else d) = max 0 (d :: int)" for d by (simp add: max_def)
  show ?thesis unfolding handleSchedule_def schedule_body_def scheduled_event_def Let_def delay by (rule refl)
qed

lemma handleSchedule_replies:
  assumes "handleSchedule post s body now w b = (GuaReply rb, w', b')"
  shows "\<exists>inp. schedule_body body = Some inp \<and>
    post (guaURL s @ ''/v1/groups/'' @ app_group @ ''/jobs'')
      (schedule_job s (int64_sum now (max 0 (in_Delay inp))) (in_Payload inp)) (ensureGroup post s w) = (Inr (200, rb), w') \<and>
    b' = broadcast (scheduled_event (int64_sum now (max 0 (in_Delay inp))) inp) b"
proof (cases "schedule_body body")
  case None
  with assms show ?thesis unfolding handleSchedule_unfold by simp
next
  case (Some inp)
  let ?call = "post (guaURL s @ ''/v1/groups/'' @ app_group @ ''/jobs'')
    (schedule_job s (int64_sum now (max 0 (in_Delay inp))) (in_Payload inp)) (ensureGroup post s w)"
  obtain x w2 where p: "?call = (x, w2)" by (rule prod.exhaust)
  note h = assms [unfolded handleSchedule_unfold Some option.case p prod.case]
  show ?thesis
  proof (cases x)
    case (Inl e)
    with h show ?thesis by simp
  next
    case (Inr y)
    obtain status rb2 where y: "y = (status, rb2)" by (rule prod.exhaust)
    from h have "status = 200 \<and> rb2 = rb \<and> w2 = w' \<and> b' = broadcast (scheduled_event (int64_sum now (max 0 (in_Delay inp))) inp) b"
      unfolding Inr y sum.case prod.case by (cases "status = 200") auto
    with Some p Inr y show ?thesis by blast
  qed
qed


text \<open>A page asks for five seconds.\<close>

definition page_request :: json where
  "page_request = JObject [(''delay'', JNumber ''5''), (''payload'', JString ''hi'')]"

definition page_size :: "json \<Rightarrow> nat" where
  "page_size d = 100"

definition page_answer :: "app_reply \<times> node \<times> broker option" where
  "page_answer = handleSchedule (gua_at (guaURL (app_main (\<lambda>_. []))) page_size demo_quene []) (app_main (\<lambda>_. []))
     (Inr page_request) 1000 (demo_node []) no_clients"

lemma page_ok: "\<exists>rb n' b'. page_answer = (GuaReply rb, n', b')"
proof -
  let ?s = "app_main (\<lambda>_. [])"
  let ?post = "gua_at (guaURL ?s) page_size demo_quene []"
  let ?j = "\<lparr>job_id = ''abababababababab'', group_name = ''demo'', job_name = ''demo-job'',
    request_url = ''HTTP@http://localhost:8080/hook'', payload = ''hi'', interval_pattern = ''@once'', timeout = 0,
    exectime = 1005, active = True, memo = []\<rparr>"
  let ?doc = "schedule_job ?s 1005 ''hi''"
  let ?r = "\<lparr>rq_method = ''POST'', rq_path = [''v1'', ''groups'', ''demo'', ''jobs''], rq_query = [],
    rq_body = BodyBytes (page_size ?doc) (Inr ?doc)\<rparr>"
  have inp: "schedule_body (Inr page_request) = Some \<lparr>in_Delay = 5, in_Payload = ''hi''\<rparr>" by code_simp
  have v: "ValidateName ''group_name'' ''demo'' = Inr ()" "ValidateName ''job_id'' ''abababababababab'' = Inr ()"
    "SplitRequestURL ''HTTP@http://localhost:8080/hook'' = Inr (''HTTP'', ''http://localhost:8080/hook'')"
    "ValidatePattern ''@once'' = Inr ()" by code_simp+
  let ?w = "(demo_world [])\<lparr>db := demo_tables\<lparr>gua_groups := [''g'', ''demo'']\<rparr>\<rparr>"
  have "snd (perform demo_config (RRegister ''demo'') (store (demo_node []))) = ?w"
    by (simp add: one_def RegisterGroup_def op_bind_def v insert_group_def demo_tables_def)
  moreover have sz: "0 < page_size d" "page_size d \<le> maxBodyBytes" for d by (simp_all add: page_size_def maxBodyBytes_def)
  ultimately have n1: "ensureGroup ?post ?s (demo_node []) = (demo_node [])\<lparr>store := ?w\<rparr>"
    unfolding demo_quene_def using ensureGroup_store(1) [where size_of = page_size and s = ?s and cfg = demo_config and collate = length
        and v = "[]" and n = "demo_node []", OF sz] by simp
  have seg: "tl (segments (''/v1/groups/'' @ app_group @ ''/jobs'')) = [''v1'', ''groups'', ''demo'', ''jobs'']"
    by (simp add: app_group_def)
  have r: "find_route ?r = Inr (OpAddJob ''demo'')" by (simp add: find_route_def)
  have hook: "''HTTP@'' @ hookURL ?s = ''HTTP@http://localhost:8080/hook''" by (simp add: app_main_def env_or_def)
  have p: "readJSON (BodyBytes (page_size ?doc) (Inr ?doc)) add_fields no_job = Inr \<lparr>ap_JobId = [], ap_Name = ''demo-job'', ap_Exectime = 1005,
      ap_RequestUrl = ''HTTP@http://localhost:8080/hook'', ap_IntervalPattern = ''@once'', ap_Payload = ''hi'',
      ap_Timeout = 0, ap_Memo = []\<rparr>"
    using sz [of ?doc] decode_scheduled [of 1005 ?s "''hi''", unfolded hook] by (simp add: readJSON_def)
  have uid: "genID (\<lambda>k. 0xAB) = ''abababababababab''" by code_simp
  have push: "Push demo_config ?j ?w = (Inr (), snd (Push demo_config ?j ?w))"
  proof -
    have c: "Push_checks ?j ?w = (Inr ?j, ?w)" by (simp add: Push_checks_def op_bind_def v)
    show ?thesis unfolding Push_def op_bind_def c by (simp add: calm_Push_tx demo_tables_def demo_job_def)
  qed
  obtain w2 where push: "Push demo_config ?j ?w = (Inr (), w2)" using push by blast
  have job: "job_of_payload ''demo'' ''abababababababab'' \<lparr>ap_JobId = [], ap_Name = ''demo-job'', ap_Exectime = 1005,
      ap_RequestUrl = ''HTTP@http://localhost:8080/hook'', ap_IntervalPattern = ''@once'', ap_Payload = ''hi'',
      ap_Timeout = 0, ap_Memo = []\<rparr> = ?j" by (simp add: job_of_payload_def)
  have add: "\<exists>rb n2. AddJob_h demo_quene ''demo'' ?r ((demo_node [])\<lparr>store := ?w\<rparr>) = (\<lparr>rp_status = 200, rp_body = rb\<rparr>, n2)"
    by (simp add: AddJob_h_def p demo_quene_def river_quene_def draw_uid_def demo_node_def uid job answer_def on_store_def push
        WriteJSON_def)
  then obtain rb n2 where add: "AddJob_h demo_quene ''demo'' ?r ((demo_node [])\<lparr>store := ?w\<rparr>) = (\<lparr>rp_status = 200, rp_body = rb\<rparr>, n2)" by blast
  have t: "int64_sum 1000 5 = 1005" by (simp add: int64_sum_def)
  have "?post (guaURL ?s @ ''/v1/groups/'' @ app_group @ ''/jobs'') ?doc ((demo_node [])\<lparr>store := ?w\<rparr>) = (Inr (200, rb), n2)"
    by (simp only: reached seg serve_def r sum.case handle.simps add prod.case reply.simps)
  then show ?thesis
    unfolding page_answer_def handleSchedule_unfold inp n1 by (simp add: t)
qed


section \<open>Deliveries\<close>

text \<open>A delivery is seen on the page as it was sent. The body that the worker posts for a job makes
  the hook tell the streams the id and the payload of the job and the time of the execution.\<close>

theorem hook_tells_delivery:
  assumes "- (2 ^ 63) \<le> now" and "now < 2 ^ 63"
  shows "handleHook (Inr (envelope_json (make_envelope df plan now key))) b =
    (AppOk, broadcast (JObject [(''at'', json_int now), (''job_id'', JString (job_id df)),
       (''payload'', JString (payload df)), (''type'', JString ''fired'')]) b)"
  using atoi_show_int [OF assms]
  by (simp add: handleHook_def envelope_json_def make_envelope_def hook_fields_def string_field_def int64_field_def
      upper_def json_int_def Let_def)

theorem hook_tells_delivery_witness:
  "fst (handleHook (Inr (envelope_json (make_envelope demo_job 500 1000 ''7''))) no_clients) = AppOk"
  using hook_tells_delivery [of 1000 demo_job 500 "''7''" no_clients] by simp

end
