(* ===== verification/Tx_Races.thy ===== *)
theory Tx_Races
  imports Queue_Theorems
begin

text \<open>
  Transactions of the queue that overlap, under Postgres's default isolation: each statement sees
  the committed tables with the transaction's own writes. The statements of \<open>Push\<close> and of
  \<open>RemoveGroup\<close> in \<open>delayquene/riverquene.go\<close> take turns in a given order. Alone, a
  transaction does what the atomic model of it does; together, the check of the group by \<open>Push\<close> does
  not protect what it checked. Statements that would wait for a row of the other transaction do
  not occur in the runs considered.
\<close>

section \<open>Transactions statement by statement\<close>

text \<open>A statement sees tables, and gives an error or what it writes.\<close>

type_synonym rc_stmt = "tables \<Rightarrow> gua_error + (tables \<Rightarrow> tables)"

record rc_tx =
  todo :: "rc_stmt list"
  own :: "tables \<Rightarrow> tables"
  ended :: "(gua_error + unit) option"

definition begin_tx :: "rc_stmt list \<Rightarrow> rc_tx" where
  "begin_tx ss = \<lparr>todo = ss, own = id, ended = None\<rparr>"

text \<open>The next statement of a transaction, its rollback on an error, or its commit after the last.\<close>

definition rc_turn :: "tables \<Rightarrow> rc_tx \<Rightarrow> tables \<times> rc_tx" where
  "rc_turn d t =
     (case ended t of
        Some r \<Rightarrow> (d, t)
      | None \<Rightarrow>
          (case todo t of
             [] \<Rightarrow> (own t d, t\<lparr>ended := Some (Inr ())\<rparr>)
           | s # ss \<Rightarrow>
               (case s (own t d) of
                  Inl e \<Rightarrow> (d, t\<lparr>todo := [], ended := Some (Inl e)\<rparr>)
                | Inr f \<Rightarrow> (d, t\<lparr>todo := ss, own := f \<circ> own t\<rparr>))))"

text \<open>Turns of two transactions, in the order given: \<open>False\<close> is a turn of the first.\<close>

fun rc_run :: "bool list \<Rightarrow> tables \<Rightarrow> rc_tx \<Rightarrow> rc_tx \<Rightarrow> tables \<times> rc_tx \<times> rc_tx" where
  "rc_run [] d a b = (d, a, b)"
| "rc_run (False # os) d a b = (case rc_turn d a of (d', a') \<Rightarrow> rc_run os d' a' b)"
| "rc_run (True # os) d a b = (case rc_turn d b of (d', b') \<Rightarrow> rc_run os d' a b')"

section \<open>Push and RemoveGroup\<close>

text \<open>The occurrence that \<open>Push\<close> inserts gets the id \<open>k\<close>. A deletion removes the rows it sees.\<close>

definition push_stmts :: "config \<Rightarrow> nat \<Rightarrow> job \<Rightarrow> rc_stmt list" where
  "push_stmts cfg k j =
     [\<lambda>d. if group_name j \<in> set (gua_groups d) then Inr id else Inl GroupNotFound,
      \<lambda>d. if job_id j \<in> set (map job_id (gua_jobs d)) then Inl JobIdExists
          else Inr (\<lambda>d. d\<lparr>gua_jobs := gua_jobs d @ [j\<lparr>active := True\<rparr>]\<rparr>),
      \<lambda>d. Inr (\<lambda>d. d\<lparr>river_job := river_job d @ [new_row cfg k (job_id j) (group_name j) (exectime j)]\<rparr>)]"

definition delete_seen_jobs :: "(job \<Rightarrow> bool) \<Rightarrow> tables \<Rightarrow> tables \<Rightarrow> tables" where
  "delete_seen_jobs P seen d = d\<lparr>gua_jobs := filter (\<lambda>j. j \<notin> set (filter P (gua_jobs seen))) (gua_jobs d)\<rparr>"

definition delete_seen_occurrences :: "(river_row \<Rightarrow> bool) \<Rightarrow> tables \<Rightarrow> tables \<Rightarrow> tables" where
  "delete_seen_occurrences P seen d = d\<lparr>river_job :=
     filter (\<lambda>r. r \<notin> set (filter (\<lambda>r. pending_delivery r \<and> P r) (river_job seen))) (river_job d)\<rparr>"

definition remove_group_stmts :: "string \<Rightarrow> rc_stmt list" where
  "remove_group_stmts g =
     [\<lambda>d. Inr (delete_seen_jobs (\<lambda>j. group_name j = g) d),
      \<lambda>d. Inr (delete_seen_occurrences (of_group g) d),
      \<lambda>d. if g \<notin> set (gua_groups d) then Inl GroupNotFound
          else Inr (\<lambda>d. d\<lparr>gua_groups := filter ((\<noteq>) g) (gua_groups d)\<rparr>)]"

section \<open>Alone\<close>

text \<open>A transaction that runs alone does what its atomic model does on a store that works.\<close>

lemma push_alone:
  assumes "fate w = []" and "0 \<le> exectime j"
    and "rc_run [False, False, False, False] (db w) (begin_tx (push_stmts cfg (next_row w) j)) b = (d, a, b')"
  shows "ended a = Some (fst (Push_tx cfg j w)) \<and> d = db (snd (Push_tx cfg j w))"
  using assms(3)
  by (auto simp: calm_Push_tx [OF assms(1,2)] rc_turn_def begin_tx_def push_stmts_def split: if_splits)

lemma filter_seen: "filter (\<lambda>x. x \<notin> set (filter P xs)) xs = filter (\<lambda>x. \<not> P x) xs"
  by (rule filter_cong) auto

lemma seen_simps:
  "delete_seen_jobs P d d = d\<lparr>gua_jobs := filter (\<lambda>j. \<not> P j) (gua_jobs d)\<rparr>"
  "delete_seen_occurrences Q d d = d\<lparr>river_job := filter (\<lambda>r. \<not> (pending_delivery r \<and> Q r)) (river_job d)\<rparr>"
  unfolding delete_seen_jobs_def delete_seen_occurrences_def filter_seen by (rule refl)+

lemma calm_RemoveGroup:
  assumes "fate w = []"
  shows "fst (RemoveGroup g w) = (if g \<in> set (gua_groups (db w)) then Inr () else Inl GroupNotFound)"
    and "db (snd (RemoveGroup g w)) = (if g \<in> set (gua_groups (db w))
      then (db w)\<lparr>gua_jobs := filter (\<lambda>j. group_name j \<noteq> g) (gua_jobs (db w)),
        river_job := filter (\<lambda>r. \<not> (pending_delivery r \<and> of_group g r)) (river_job (db w)),
        gua_groups := filter ((\<noteq>) g) (gua_groups (db w))\<rparr>
      else db w)"
  using assms
  by (auto simp: RemoveGroup_def calm_run_tx op_bind_def delete_jobs_def delete_occurrences_def delete_group_def
      next_fate_works filter_empty_conv)

lemma remove_alone:
  assumes "fate w = []"
    and "rc_run [False, False, False, False] (db w) (begin_tx (remove_group_stmts g)) b = (d, a, b')"
  shows "ended a = Some (fst (RemoveGroup g w)) \<and> d = db (snd (RemoveGroup g w))"
  using assms(2)
  by (auto simp: calm_RemoveGroup [OF assms(1)] rc_turn_def begin_tx_def remove_group_stmts_def
      seen_simps split: if_splits)

section \<open>Together\<close>

text \<open>C33: adding a job races with removing its group. When \<open>RemoveGroup\<close> commits between the statement
  with which \<open>Push\<close> looks for the group and the rest of \<open>Push\<close>, both report success, and an active job
  with a pending occurrence is left in a group that does not exist: the tables are no longer
  well-formed.\<close>

theorem push_races_with_remove:
  assumes "group_name j \<in> set (gua_groups d)" and "job_id j \<notin> set (map job_id (gua_jobs d))"
    and "rc_run [False, True, True, True, True, False, False, False] d (begin_tx (push_stmts cfg k j))
      (begin_tx (remove_group_stmts (group_name j))) = (d', a, b)"
  shows "ended a = Some (Inr ()) \<and> ended b = Some (Inr ()) \<and> group_name j \<notin> set (gua_groups d') \<and>
    j\<lparr>active := True\<rparr> \<in> set (gua_jobs d') \<and>
    new_row cfg k (job_id j) (group_name j) (exectime j) \<in> set (river_job d') \<and> \<not> wf_tables d' rows seqs"
proof -
  let ?d1 = "d\<lparr>gua_jobs := filter (\<lambda>j'. group_name j' \<noteq> group_name j) (gua_jobs d),
    river_job := filter (\<lambda>r. \<not> (pending_delivery r \<and> of_group (group_name j) r)) (river_job d),
    gua_groups := filter ((\<noteq>) (group_name j)) (gua_groups d)\<rparr>"
  have free: "job_id j \<notin> set (map job_id (filter P (gua_jobs d)))" for P using assms(2) by auto
  have r: "d' = ?d1\<lparr>gua_jobs := gua_jobs ?d1 @ [j\<lparr>active := True\<rparr>],
      river_job := river_job ?d1 @ [new_row cfg k (job_id j) (group_name j) (exectime j)]\<rparr> \<and>
    ended a = Some (Inr ()) \<and> ended b = Some (Inr ())"
    using assms(3) assms(1) free [of "\<lambda>j'. group_name j' \<noteq> group_name j"]
    by (auto simp: rc_turn_def begin_tx_def push_stmts_def remove_group_stmts_def seen_simps)
  then have in_jobs: "j\<lparr>active := True\<rparr> \<in> set (gua_jobs d')" and out: "group_name j \<notin> set (gua_groups d')" by simp_all
  have "\<not> wf_tables d' rows seqs"
  proof
    assume "wf_tables d' rows seqs"
    then have "\<forall>j' \<in> set (gua_jobs d'). group_name j' \<in> set (gua_groups d')" by (simp add: wf_tables_def list_all_iff)
    from bspec [OF this in_jobs] have "group_name j \<in> set (gua_groups d')" by simp
    with out show False by simp
  qed
  with r in_jobs out show ?thesis by simp
qed

theorem push_races_with_remove_witness:
  "\<exists>d' a b. rc_run [False, True, True, True, True, False, False, False] demo_tables
      (begin_tx (push_stmts demo_config 1 (demo_job\<lparr>job_id := ''j2''\<rparr>))) (begin_tx (remove_group_stmts ''g'')) = (d', a, b) \<and>
    ended a = Some (Inr ()) \<and> ended b = Some (Inr ()) \<and>
    demo_job\<lparr>job_id := ''j2''\<rparr> \<in> set (gua_jobs d') \<and> ''g'' \<notin> set (gua_groups d')"
proof -
  let ?j = "demo_job\<lparr>job_id := ''j2''\<rparr>"
  obtain d' a b where run: "rc_run [False, True, True, True, True, False, False, False] demo_tables
      (begin_tx (push_stmts demo_config 1 ?j)) (begin_tx (remove_group_stmts (group_name ?j))) = (d', a, b)"
    by (rule prod_cases3)
  have j: "group_name ?j = ''g''" "?j\<lparr>active := True\<rparr> = ?j" by (simp_all add: demo_job_def)
  have "group_name ?j \<in> set (gua_groups demo_tables)" "job_id ?j \<notin> set (map job_id (gua_jobs demo_tables))"
    by (simp_all add: demo_job_def demo_tables_def)
  from push_races_with_remove [OF this run] run show ?thesis unfolding j by blast
qed

end
