(* ===== verification/Spec2Isabelle.thy ===== *)
theory Spec2Isabelle
  imports Cron_Theorems Queue_Theorems Worker_Theorems Api_Theorems Cluster_Theorems Grpc_Pool
    Gua_Main Prune_Schedule Console_Theorems Example_Theorems Tx_Races
begin

text \<open>
  A verification development for gua, a scheduler of HTTP and gRPC deliveries. Clients register
  groups and jobs through an admin API; a job names a target, a payload and when it fires, once or
  by a cron pattern; any number of nodes share one PostgreSQL database, in which the queue library
  River keeps the firings that are due; a worker that gets one posts an envelope to the target and
  schedules the next.

  \<^bold>\<open>The parts and their theories.\<close> Each group of definitions names the functions it translates.

  \<^item> \<^bold>\<open>Shared\<close>: \<open>Gua_Prelude\<close> (machine types, the result type of a fallible function, hints),
    \<open>Go_Strings\<close>, \<open>Go_Duration\<close>, \<open>Go_Time\<close>, \<open>Go_Json\<close> (what the code uses of Go's library: bytes and
    numbers as texts, \<open>ParseDuration\<close>, the proleptic calendar and \<open>time.Date\<close> over a zone, decoding
    an object into a struct). A zone is a function from instants to offsets; \<open>zone z\<close> is the zone of
    the fixed offset of \<open>z\<close> minutes, and \<open>gap_zone\<close> one whose clock jumps over a midnight.
  \<^item> \<^bold>\<open>Patterns\<close>, \<open>delayquene/parser.go\<close> and \<open>delayquene/spec.go\<close>: \<open>Cron_Parser\<close> (fields, ranges,
    descriptors, the two parsers), \<open>Cron_Next\<close> (\<open>SpecSchedule.Next\<close> with its five loops and the jumps
    to \<open>WRAP\<close>), \<open>Cron_Search\<close> and \<open>Cron_Correct\<close> (the loops as interpretations of one locale of a
    search over cells of the time line, and that \<open>Next\<close> returns the earliest selected second),
    \<open>Cron_Text\<close> (what the texts of the fields mean), \<open>Cron_Theorems\<close> (the properties).
  \<^item> \<^bold>\<open>Queue\<close>, \<open>delayquene/types.go\<close> and \<open>delayquene/riverquene.go\<close>: \<open>Job_Types\<close> (jobs, errors,
    validation), \<open>River_Config\<close> (environment, defaults, deadlines; the logger's settings of
    \<open>logging.go\<close>), \<open>Pg_Store\<close> (the tables, the SQL statements, and transactions; each statement takes
    its outcome from a list of fates: it works, fails, or is lost after it took effect), \<open>Queue_Ops\<close>
    (the methods of \<open>riverQuene\<close>), \<open>Atomic_Ops\<close> and \<open>Queue_Laws\<close> (locales \<open>statement\<close>, \<open>steady\<close>,
    \<open>reading\<close>, \<open>atomic_op\<close>: an operation under failures does what it does without them, or reports a
    storage error having done nothing or all of it; every method is an interpretation),
    \<open>Queue_Spec\<close> (the abstract queue: groups, definitions, a multiset of due occurrences, and one
    promised step per request), \<open>Queue_Theorems\<close>.
  \<^item> \<^bold>\<open>Workers\<close>, \<open>delayquene/riverquene.go\<close> and \<open>internal/httpclient\<close>: \<open>Deliver_Worker\<close> (\<open>deliver\<close>,
    \<open>recordExecution\<close>, \<open>scheduleNext\<close>, \<open>Work\<close> in the three parts between which other nodes can act,
    and the pruning worker), \<open>Worker_Laws\<close>, \<open>Worker_Theorems\<close>. The consumer's answers are parameters.
    \<open>Prune_Schedule\<close> says when the pruning worker runs: the periodic insertion under the unique key of
    the vendored River library, and a step relation over the rows of this kind.
  \<^item> \<^bold>\<open>Cluster\<close>: \<open>River_Lifecycle\<close> is a step relation over the shared store: requests, the three parts
    of \<open>Work\<close> of any number of workers, crashes, and what River documents of itself (a due occurrence
    becomes available, a fetch counts an attempt, the result completes it, leaves it for a retry or
    discards it, a stuck one is rescued, a finished one is cleaned away). Its invariant holds in
    every reachable cluster. \<open>Cluster_Coverage\<close> follows each active definition to an occurrence that
    will fire it. \<open>Cluster_Theorems\<close> states the properties, and two runs in which the code does not do
    what it means to do. \<open>Tx_Races\<close> splits two transactions into statements under Postgres's default
    isolation and shows where their overlap breaks what the atomic model keeps.
  \<^item> \<^bold>\<open>Connections\<close>, \<open>delayquene/grpcpool.go\<close>: \<open>Grpc_Pool\<close>, the goroutines that share the map under the
    lock, line by line, with mutual exclusion as part of the invariant.
  \<^item> \<^bold>\<open>Admin APIs\<close>, \<open>httpv1\<close>, \<open>cmd.go\<close>, \<open>ui.go\<close> and \<open>grpc.go\<close>: \<open>Quene_Interface\<close> (the interface the
    handlers call as a record, what they rely on as the locale \<open>quene_contract\<close>, and the queue as its
    interpretation \<open>river\<close>), \<open>Http_Api\<close>, \<open>Grpc_Api\<close>, \<open>Api_Laws\<close>, \<open>Api_Theorems\<close>.
  \<^item> \<^bold>\<open>Console\<close>, \<open>ui.go\<close>: \<open>Console_Page\<close>, the script of the page as functions from the replies it
    fetches to the HTML of its panels, its exceptions as values; \<open>Console_Theorems\<close> reads the HTML
    back into tags and characters and compares it with what a node of \<open>Http_Api\<close> answered.
  \<^item> \<^bold>\<open>A node's run\<close>, \<open>main.go\<close>, \<open>cmdriver.go\<close> and \<open>NewRiver\<close>, \<open>migrate\<close>, \<open>Close\<close>: \<open>River_Start\<close>, the
    calls a run makes, with every failing call as a branch, up to the shutdown; \<open>Gua_Main\<close>, the
    command line above it, with the reading of the arguments as a parameter.
  \<^item> \<^bold>\<open>Example\<close>, \<open>example/app/main.go\<close>: \<open>Example_App\<close> and \<open>Example_Theorems\<close>, with gua's own HTTP model
    as the server it talks to.

  \<^bold>\<open>State and operations.\<close> A node's store is the record \<open>world\<close>: the tables, the sequences, the clock
  as a function of the number of readings, and the fates of the statements to come. An operation is
  a function from a world to an error or a value, and the world after it. Rows keep their order of
  insertion. River's jobs are rows with their state, attempts and time. Integers that come from
  requests are \<open>int\<close> with the wrap of \<open>int64\<close> written out where the code multiplies or adds; the
  bits of a schedule are 64-bit words.

  \<^bold>\<open>What is shown.\<close> \<open>Next\<close> returns for every schedule in every zone of whole minutes, with the earliest
  selected second of five years or the zero time; \<open>Parse\<close> always returns, and what it accepts
  denotes what its text says. Every request refines its abstract step under every failure of the
  store, and keeps the tables well-formed; so do the workers and whole clusters. Deliveries are
  bounded by the attempts, at most one per attempt; an active job stays scheduled while the store
  works and no node dies; the APIs report what happened, agree with each other, and change nothing
  when they refuse. A pool keeps one connection per target and does not deadlock; a run of a node
  starts and stops in order; the event streams lose nothing within their capacity and never panic.
  The console shows the data of a node cell by cell and never lets it become markup.

  \<^bold>\<open>Where the code falls short.\<close> A pattern that never fires is accepted, and delivered in a loop once it
  was delivered; a zone that skips a midnight can lose a year (\<open>Cron_Theorems\<close>); a huge timeout wraps,
  and a stale fire-once run drops a new definition of the same id (\<open>Worker_Theorems\<close>); a failure to
  reschedule on the last attempt leaves an active job that nothing will fire, and activating a job
  during its delivery gives it two chains of occurrences (\<open>Cluster_Theorems\<close>); adding a job races with
  removing its group (\<open>Tx_Races\<close>); a port that cannot be bound skips the orderly shutdown
  (\<open>River_Start\<close>); history is pruned once a day whatever the interval (\<open>Prune_Schedule\<close>); a job far
  in the future hides the job list of its group in the console, and overlapping loads can leave the
  jobs of another group there (\<open>Console_Theorems\<close>); the flag
  \<open>--debug\<close> does nothing (\<open>Gua_Main\<close>).

  \<^bold>\<open>Bounds and fuel.\<close> There is no fuel. The loops of \<open>Next\<close> and of \<open>getBits\<close> are partial functions into
  \<open>option\<close>, whose value \<open>None\<close> is a loop that does not end; that they return is proved, for \<open>getBits\<close>
  when the step is not 0. A call of \<open>Next\<close> that does not return is the result \<open>Hangs\<close> of \<open>Work\<close>, which
  \<open>Worker_Theorems\<close> excludes for the zones above. The first year and the last are not
  bounded: instants are integers.

  \<^bold>\<open>Not modelled.\<close> The text syntax of JSON, with its repair of texts that are not UTF-8, and CORS
  headers; log output; River and pgx beyond what is said above, with transactions atomic outside
  \<open>Tx_Races\<close>; contexts that are cancelled in the middle of a call, which appear as failures of the
  store or of the transport; sockets, signals and the drained servers, which are outcomes; the
  generated protocol code, whose messages are records; how the command line is split into flags; in
  the console the style sheet and numbers above \<open>2 ^ 53\<close> as JavaScript rounds
  them; the static page of the example.
\<close>

end
